(* ===== verification/Prelude.thy ===== *)
theory Prelude
  imports Complex_Main "HOL-Library.Word"
begin

section \<open>Shared types, integer conversions and lemmas\<close>

text \<open>
  Machine integers of the code are kept as \<open>int\<close> together with the conversion the compiler
  inserts at each assignment (\<open>s16\<close> for \<open>short\<close>, \<open>s32\<close> for \<open>int\<close>/\<open>sint32\<close>, \<open>u8\<close>,
  \<open>u16\<close>, \<open>u32\<close> for the unsigned types), except where the code works bit by bit (the CRC),
  which uses words.  Signed overflow, undefined in C++, is modelled by the two's complement
  wrap-around of the target (ARM, gcc); the properties that depend on it prove that it does not
  happen or say so.  \<open>tdiv\<close> is the truncating division of C++.
\<close>

named_theorems wrap_simps \<open>conversions to machine integers that do not change their argument\<close>

definition u8 :: "int \<Rightarrow> int" where "u8 x = x mod 256"
definition u16 :: "int \<Rightarrow> int" where "u16 x = x mod 65536"
definition u32 :: "int \<Rightarrow> int" where "u32 x = x mod 4294967296"
definition s16 :: "int \<Rightarrow> int" where "s16 x = (x + 32768) mod 65536 - 32768"
definition s32 :: "int \<Rightarrow> int" where "s32 x = (x + 2147483648) mod 4294967296 - 2147483648"
definition s64 :: "int \<Rightarrow> int" where
  "s64 x = (x + 9223372036854775808) mod 18446744073709551616 - 9223372036854775808"

lemma u8_range: "0 \<le> u8 x" "u8 x < 256" and u16_range: "0 \<le> u16 x" "u16 x < 65536"
  and u32_range: "0 \<le> u32 x" "u32 x < 4294967296"
  by (simp_all add: u8_def u16_def u32_def)

lemma s16_range: "- 32768 \<le> s16 x" "s16 x < 32768"
  by (simp_all add: s16_def pos_mod_bound)

lemma s32_range: "- 2147483648 \<le> s32 x" "s32 x < 2147483648"
  by (simp_all add: s32_def pos_mod_bound)

lemma u8_id [wrap_simps]: "0 \<le> x \<Longrightarrow> x < 256 \<Longrightarrow> u8 x = x"
  by (simp add: u8_def)

lemma u16_id [wrap_simps]: "0 \<le> x \<Longrightarrow> x < 65536 \<Longrightarrow> u16 x = x"
  by (simp add: u16_def)

lemma u32_id [wrap_simps]: "0 \<le> x \<Longrightarrow> x < 4294967296 \<Longrightarrow> u32 x = x"
  by (simp add: u32_def)

lemma s16_id [wrap_simps]: "- 32768 \<le> x \<Longrightarrow> x < 32768 \<Longrightarrow> s16 x = x"
  by (simp add: s16_def)

lemma s32_id [wrap_simps]: "- 2147483648 \<le> x \<Longrightarrow> x < 2147483648 \<Longrightarrow> s32 x = x"
  by (simp add: s32_def)

lemma s16_idem [simp]: "s16 (s16 x) = s16 x"
  by (rule s16_id) (use s16_range [of x] in auto)

lemma s32_idem [simp]: "s32 (s32 x) = s32 x"
  by (rule s32_id) (use s32_range [of x] in auto)

lemma s32_s16 [simp]: "s32 (s16 x) = s16 x"
  by (rule s32_id) (use s16_range [of x] in auto)

definition tdiv :: "int \<Rightarrow> int \<Rightarrow> int" where
  "tdiv a b = sgn a * sgn b * (\<bar>a\<bar> div \<bar>b\<bar>)"

lemma tdiv_nonneg: "0 \<le> a \<Longrightarrow> 0 < b \<Longrightarrow> tdiv a b = a div b"
  by (cases "a = 0") (auto simp: tdiv_def sgn_if)

lemma tdiv_nonneg_le: "0 \<le> a \<Longrightarrow> 0 < b \<Longrightarrow> 0 \<le> tdiv a b \<and> tdiv a b \<le> a"
  using zdiv_mono2 [of a 1 b] by (simp add: tdiv_nonneg pos_imp_zdiv_nonneg_iff)

subsection \<open>Return codes\<close>

text \<open>
  The code returns \<open>sint32\<close> codes: \<open>SV_SUCCESS\<close> or an error.  The numeric values are those of
  the platform headers, outside the repository, so each code used is a constructor.
\<close>

datatype sv_ret = SV_SUCCESS | SV_FAILURE | ERR_NULL_PTR | ERR_ILLEGAL_PARAM | ERR_INVALID_DATA
  | ERR_SYS_NOTREADY | ERR_EXIST | ERR_UNEXIST | ERR_BUF_FULL | ERR_OTHER int

subsection \<open>Boards and customers\<close>

text \<open>
  The \<open>#if defined(BOARD_\<dots>)\<close> alternatives of the sources are one value of type \<open>board\<close>,
  chosen at build time, and \<open>BOARD_IsCustomer\<close> is a predicate on the customer codes the modelled
  code asks about.
\<close>

datatype board = ADA32V2 | ADA32V3 | ADA32IR | ADA32N1 | ADA32C4 | ADA32SDK | ADA42V1 | ADA42PTZV1
  | ADA47V1 | ADA900V1 | DMS31V2 | HDW845V1 | OTHER_BOARD

datatype customer = CUST_FTC | CUST_200889 | CUST_VT_A | CUST_201165 | CUST_201338 | CUST_LUIS
  | CUST_200019 | CUST_WXKY | CUST_202406 | CUST_201306

text \<open>The detection models (\<open>EPdsModel\<close>, from a platform header) the code names.\<close>

datatype EPdsModel = E_PDS_P | E_PDS_PC | E_PDS_C | E_PDS_OWP | E_PDS_OWPC | E_PDS_OWC | E_PDS_NIR_P
  | E_PDS_NIR_PC | E_PDS_NIR_C | E_PDS_MANHOLE | E_PDS_BEAR | E_PDS_SH | E_PDS_SSR | E_PDS_SZ
  | E_PDS_IR_P | E_PDS_IR_C | E_PDS_IR_PC | E_PDS_BUTT | E_PDS_OTHER int

subsection \<open>Lists\<close>

lemma nth_append_take_drop: "i < length xs \<Longrightarrow> take i xs @ xs ! i # drop (Suc i) xs = xs"
  by (simp add: id_take_nth_drop [symmetric])

lemma nth_concat_blocks:
  "k < length xs \<Longrightarrow> l < n \<Longrightarrow> (\<And>x. length (f x) = n) \<Longrightarrow>
   concat (map f xs) ! (n * k + l) = f (xs ! k) ! l"
proof (induction xs arbitrary: k)
  case (Cons x xs)
  then show ?case by (cases k) (simp_all add: nth_append algebra_simps)
qed simp

lemma tl_rev: "tl (rev xs) = rev (butlast xs)"
  by (metis butlast_rev rev_rev_ident)

lemma tl_map_upt: "tl (map f [a..<b]) = map f [Suc a..<b]"
  by (cases "a < b") (simp_all add: upt_conv_Cons)

lemma rev_take_Suc: "n < length xs \<Longrightarrow> rev (take (Suc n) xs) = xs ! n # rev (take n xs)"
  by (simp add: take_Suc_conv_app_nth)

lemma all_less_4: "(\<forall>i<4::nat. P i) = (P 0 \<and> P 1 \<and> P 2 \<and> P 3)"
  by (auto simp: less_Suc_eq numeral_eq_Suc)

lemma length_filter_less: "length (filter P xs) \<le> length xs"
  by simp

end
