(* ===== verification/Ring_Queue.thy ===== *)
theory Ring_Queue
  imports Prelude "HOL-Library.Sublist"
begin

section \<open>The frame ring queue (include/itc.h)\<close>

text \<open>
  \<open>TRWRingQueue\<close> connects one writer thread with up to four readers.  The state is the deque (newest
  element first), the capacity \<open>count_\<close> and one position per reader.  Each operation runs under
  the queue's lock and is one step.  A callback takes the element and returns its result and the
  element as it leaves it, because the code passes it by reference.  \<open>at\<close> of \<open>std::deque\<close> throws
  when the index is out of range: outcome \<open>Out_Of_Range\<close>.  A read of an empty channel either keeps
  waiting or, when the wait has expired, returns the timeout code; which of the two happens is the
  environment's choice, the argument \<open>expired\<close>.

  The abstract contract is a first-in first-out channel per reader that keeps the newest
  \<open>count_\<close> elements (locale \<open>drop_fifo\<close>).
\<close>

definition TRWRINGQUE_READER_MAX :: nat where "TRWRINGQUE_READER_MAX = 4"
definition TRWRINGQUE_RPOS_EMPTY :: int where "TRWRINGQUE_RPOS_EMPTY = - 1"
definition TRWRQ_ERROR_READ_TIMEOUT :: int where "TRWRQ_ERROR_READ_TIMEOUT = - 100"

lemmas ringque_consts = TRWRINGQUE_READER_MAX_def TRWRINGQUE_RPOS_EMPTY_def TRWRQ_ERROR_READ_TIMEOUT_def

record 'a ringque =
  queue :: "'a list"
  count :: nat
  rpos :: "int list"

datatype ('r, 'q) outcome = Returned 'r 'q | Waiting | Out_Of_Range

definition TRWRingQueue :: "nat \<Rightarrow> 'a ringque" where
  "TRWRingQueue n = \<lparr>queue = [], count = n,
     rpos = replicate TRWRINGQUE_READER_MAX TRWRINGQUE_RPOS_EMPTY\<rparr>"

definition rq_Init :: "nat \<Rightarrow> 'a ringque \<Rightarrow> int \<times> 'a ringque" where
  "rq_Init n q = (0, q\<lparr>count := n,
     rpos := replicate TRWRINGQUE_READER_MAX TRWRINGQUE_RPOS_EMPTY\<rparr>)"

definition RdFull :: "'a ringque \<Rightarrow> nat \<Rightarrow> bool" where
  "RdFull q chn \<longleftrightarrow> s32 (u32 (int (count q) - 1)) \<le> rpos q ! chn"

definition RdEmpty :: "'a ringque \<Rightarrow> nat \<Rightarrow> bool" where
  "RdEmpty q chn \<longleftrightarrow> rpos q ! chn \<le> TRWRINGQUE_RPOS_EMPTY"

definition rq_Read ::
  "nat \<Rightarrow> int \<Rightarrow> bool \<Rightarrow> ('a \<Rightarrow> int \<times> 'a) \<Rightarrow> 'a ringque \<Rightarrow> (int, 'a ringque) outcome" where
  "rq_Read channel timeout expired UtilizeResource q =
     (let chn = channel mod TRWRINGQUE_READER_MAX in
      if RdEmpty q chn then
        (if timeout < 0 then Waiting
         else if expired then Returned TRWRQ_ERROR_READ_TIMEOUT q else Waiting)
      else let p = rpos q ! chn in
        if int (length (queue q)) \<le> p then Out_Of_Range
        else let (ret, current) = UtilizeResource (queue q ! nat p) in
          Returned ret (q\<lparr>rpos := (rpos q)[chn := p - 1], queue := (queue q)[nat p := current]\<rparr>))"

definition rq_Write ::
  "'a \<Rightarrow> ('a \<Rightarrow> int \<times> 'a) \<Rightarrow> 'a ringque \<Rightarrow> (int, 'a ringque) outcome" where
  "rq_Write update ReleaseResource q =
     (let full = length (queue q) = count q in
      if full \<and> queue q = [] then Out_Of_Range
      else let
        ret = (if full then fst (ReleaseResource (queue q ! (count q - 1))) else 0);
        q1 = (if full then q\<lparr>queue := butlast (queue q),
                rpos := map (\<lambda>i. if RdFull q i then rpos q ! i - 1 else rpos q ! i)
                  [0..<TRWRINGQUE_READER_MAX]\<rparr> else q)
      in Returned ret (q1\<lparr>queue := update # queue q1,
           rpos := map (\<lambda>i. rpos q1 ! i + 1) [0..<TRWRINGQUE_READER_MAX]\<rparr>))"

text \<open>\<open>Clear\<close> empties the deque from the back; each element is released, failures are counted.\<close>

fun rq_release_all :: "('a \<Rightarrow> int \<times> 'a) \<Rightarrow> 'a list \<Rightarrow> int \<Rightarrow> int" where
  "rq_release_all ReleaseResource [] ret = ret"
| "rq_release_all ReleaseResource (current # rest) ret =
     rq_release_all ReleaseResource rest
       (if fst (ReleaseResource current) < 0 then ret - 1 else ret)"

definition rq_Clear :: "('a \<Rightarrow> int \<times> 'a) \<Rightarrow> 'a ringque \<Rightarrow> int \<times> 'a ringque" where
  "rq_Clear ReleaseResource q =
     (rq_release_all ReleaseResource (rev (queue q)) 0,
      q\<lparr>queue := [], rpos := replicate TRWRINGQUE_READER_MAX TRWRINGQUE_RPOS_EMPTY\<rparr>)"

subsection \<open>Invariant and abstraction\<close>

definition rq_ok :: "'a ringque \<Rightarrow> bool" where
  "rq_ok q \<longleftrightarrow> 0 < count q \<and> count q \<le> 2147483647 \<and> length (queue q) \<le> count q \<and>
     length (rpos q) = 4 \<and> (\<forall>i<4. - 1 \<le> rpos q ! i \<and> rpos q ! i < int (length (queue q)))"

text \<open>What a reader has still to read, oldest first.\<close>

definition pending :: "nat \<Rightarrow> 'a ringque \<Rightarrow> 'a list" where
  "pending channel q =
     rev (take (nat (rpos q ! (channel mod TRWRINGQUE_READER_MAX) + 1)) (queue q))"

lemma rq_okD:
  assumes "rq_ok q"
  shows "0 < count q" "count q \<le> 2147483647" "length (queue q) \<le> count q" "length (rpos q) = 4"
    "i < 4 \<Longrightarrow> - 1 \<le> rpos q ! i" "i < 4 \<Longrightarrow> rpos q ! i < int (length (queue q))"
  using assms by (auto simp: rq_ok_def)

lemma rq_ok_new: "0 < n \<Longrightarrow> n \<le> 2147483647 \<Longrightarrow> rq_ok (TRWRingQueue n)"
  by (simp add: rq_ok_def TRWRingQueue_def ringque_consts)

lemma pending_new [simp]: "pending i (TRWRingQueue n) = []"
  by (simp add: pending_def TRWRingQueue_def ringque_consts)

lemma count_new [simp]: "count (TRWRingQueue n) = n"
  by (simp add: TRWRingQueue_def)

lemma RdFull_iff:
  assumes ok: "rq_ok q" and i: "i < 4"
  shows "RdFull q i = (rpos q ! i = int (count q) - 1)"
proof -
  have "s32 (u32 (int (count q) - 1)) = int (count q) - 1"
    using rq_okD(1,2) [OF ok] by (simp add: wrap_simps)
  then show ?thesis using rq_okD(3) [OF ok] rq_okD(6) [OF ok i] by (auto simp: RdFull_def)
qed

lemma RdEmpty_iff: "rq_ok q \<Longrightarrow> RdEmpty q (i mod 4) = (pending i q = [])"
  by (frule rq_okD(6) [of q "i mod 4"])
    (auto simp: RdEmpty_def pending_def ringque_consts dest: rq_okD)

lemma length_pending: "rq_ok q \<Longrightarrow> int (length (pending i q)) = rpos q ! (i mod 4) + 1"
  using rq_okD(5,6) [of q "i mod 4"] by (auto simp: pending_def ringque_consts)

lemma pending_le_count: "rq_ok q \<Longrightarrow> length (pending i q) \<le> count q"
  using rq_okD(3) [of q] by (auto simp: pending_def)

lemma write_rpos:
  assumes ok: "rq_ok q" and i: "i < 4" and w: "rq_Write x rel q = Returned r q'"
  shows "rpos q' ! i = (if rpos q ! i = int (count q) - 1 then rpos q ! i else rpos q ! i + 1)"
  using w rq_okD(3) [OF ok] rq_okD(6) [OF ok i] i
  by (auto simp: rq_Write_def Let_def RdFull_iff [OF ok] ringque_consts split: if_splits)

lemma write_queue:
  assumes ok: "rq_ok q" and w: "rq_Write x rel q = Returned r q'"
  shows "queue q' = x # take (count q - 1) (queue q)" and "count q' = count q"
    and "length (rpos q') = 4"
  using w rq_okD(1,3) [OF ok]
  by (auto simp: rq_Write_def Let_def ringque_consts butlast_conv_take split: if_splits)

lemma write_total: "rq_ok q \<Longrightarrow> \<exists>r q'. rq_Write x rel q = Returned r q'"
  by (auto simp: rq_Write_def Let_def dest: rq_okD(1))

lemma rq_ok_Write:
  assumes ok: "rq_ok q" and w: "rq_Write x rel q = Returned r q'"
  shows "rq_ok q'"
proof -
  note cnt = rq_okD(1-3) [OF ok] and qu = write_queue [OF ok w]
  have "- 1 \<le> rpos q' ! i \<and> rpos q' ! i < int (length (queue q'))" if i: "i < 4" for i
    using write_rpos [OF ok i w] rq_okD(5,6) [OF ok i] cnt by (simp add: qu min_def of_nat_diff split: if_splits)
  then show ?thesis using cnt by (simp add: rq_ok_def qu)
qed

lemma pending_Write:
  assumes ok: "rq_ok q" and w: "rq_Write x rel q = Returned r q'"
  shows "pending i q' = (if length (pending i q) = count q then tl (pending i q) else pending i q) @ [x]"
proof -
  let ?c = "i mod 4"
  have c: "?c < 4" by simp
  note b = rq_okD(5,6) [OF ok c] and l = length_pending [OF ok, of i]
  note qu = write_queue [OF ok w] and cnt = rq_okD(1,3) [OF ok]
  show ?thesis
  proof (cases "rpos q ! ?c = int (count q) - 1")
    case True
    then have len: "length (queue q) = count q" "length (pending i q) = count q"
      using b(2) cnt l by linarith+
    have "pending i q' = rev (x # take (count q - 1) (queue q))"
      using True write_rpos [OF ok c w] cnt(1) by (cases "count q") (simp_all add: pending_def ringque_consts qu)
    moreover have "pending i q = rev (queue q)"
      using True len by (simp add: pending_def ringque_consts)
    ultimately show ?thesis using len by (simp add: tl_rev butlast_conv_take)
  next
    case False
    then have "length (pending i q) \<noteq> count q" using l by linarith
    moreover have "nat (rpos q ! ?c + 1) \<le> count q - 1" using False b cnt by linarith
    moreover have "nat (rpos q ! ?c + 1 + 1) = Suc (nat (rpos q ! ?c + 1))" using b by linarith
    ultimately show ?thesis
      using False write_rpos [OF ok c w] by (simp add: pending_def ringque_consts qu min_def)
  qed
qed

text \<open>A callback that leaves the element as it is, such as the ones in pd.cpp.\<close>

definition keeps :: "('a \<Rightarrow> int \<times> 'a) \<Rightarrow> bool" where
  "keeps util \<longleftrightarrow> (\<forall>x. snd (util x) = x)"

lemma read_nonempty:
  assumes ok: "rq_ok q" and ne: "pending i q \<noteq> []"
  obtains x xs where "pending i q = x # xs" and
    "rq_Read i t e util q = Returned (fst (util x)) (q\<lparr>rpos := (rpos q)[i mod 4 := rpos q ! (i mod 4) - 1],
       queue := (queue q)[nat (rpos q ! (i mod 4)) := snd (util x)]\<rparr>)"
    and "x = queue q ! nat (rpos q ! (i mod 4))" and "0 \<le> rpos q ! (i mod 4)"
    and "xs = rev (take (nat (rpos q ! (i mod 4))) (queue q))"
proof -
  let ?p = "rpos q ! (i mod 4)"
  have b: "?p < int (length (queue q))" using rq_okD(6) [OF ok, of "i mod 4"] by simp
  have p: "0 \<le> ?p" using length_pending [OF ok, of i] ne by (cases "pending i q") auto
  have "nat (?p + 1) = Suc (nat ?p)" using p by simp
  then have "pending i q = queue q ! nat ?p # rev (take (nat ?p) (queue q))"
    using b p by (simp add: pending_def ringque_consts rev_take_Suc)
  then show ?thesis
    using that [of "queue q ! nat ?p"] RdEmpty_iff [OF ok, of i] ne b p
    by (simp add: rq_Read_def ringque_consts Let_def case_prod_beta)
qed

lemma rq_ok_Read:
  assumes ok: "rq_ok q" and r: "rq_Read i t e util q = Returned v q'"
  shows "rq_ok q'"
proof (cases "pending i q = []")
  case True
  with r RdEmpty_iff [OF ok, of i] have "q' = q"
    by (auto simp: rq_Read_def ringque_consts Let_def split: if_splits)
  with ok show ?thesis by simp
next
  case False
  from read_nonempty [OF ok this, of t e util] r obtain z where
    q': "q' = q\<lparr>rpos := (rpos q)[i mod 4 := rpos q ! (i mod 4) - 1],
       queue := (queue q)[nat (rpos q ! (i mod 4)) := z]\<rparr>" and p: "0 \<le> rpos q ! (i mod 4)"
    by (metis outcome.inject(1))
  have "- 1 \<le> rpos q' ! j \<and> rpos q' ! j < int (length (queue q'))" if "j < 4" for j
    using rq_okD(4) [OF ok] rq_okD(5,6) [OF ok that] p that by (cases "j = i mod 4") (auto simp: q' nth_list_update)
  then show ?thesis using rq_okD(1-4) [OF ok] by (simp add: rq_ok_def q')
qed

lemma pending_Read:
  assumes ok: "rq_ok q" and r: "rq_Read i t e util q = Returned v q'" and ne: "pending i q \<noteq> []"
    and k: "keeps util"
  shows "\<exists>x. v = fst (util x) \<and> pending i q = x # pending i q' \<and>
    (\<forall>j. j mod 4 \<noteq> i mod 4 \<longrightarrow> pending j q' = pending j q) \<and> count q' = count q"
proof (rule read_nonempty [OF ok ne, of t e util])
  fix x xs
  assume p: "pending i q = x # xs" and x: "x = queue q ! nat (rpos q ! (i mod 4))"
    and rd: "rq_Read i t e util q = Returned (fst (util x)) (q\<lparr>rpos := (rpos q)[i mod 4 := rpos q ! (i mod 4) - 1],
       queue := (queue q)[nat (rpos q ! (i mod 4)) := snd (util x)]\<rparr>)"
    and xs: "xs = rev (take (nat (rpos q ! (i mod 4))) (queue q))"
  have q': "q' = q\<lparr>rpos := (rpos q)[i mod 4 := rpos q ! (i mod 4) - 1]\<rparr>" and v: "v = fst (util x)"
    using rd r k by (auto simp: keeps_def x list_update_id)
  have "pending i q' = xs" using rq_okD(4) [OF ok] by (simp add: pending_def q' xs ringque_consts)
  moreover have "pending j q' = pending j q" if "j mod 4 \<noteq> i mod 4" for j
    using that rq_okD(4) [OF ok] by (simp add: pending_def q' ringque_consts)
  ultimately show ?thesis using p v by (auto simp: q')
qed

lemma read_empty:
  assumes "rq_ok q" and "pending i q = []"
  shows "rq_Read i t e util q = (if t < 0 \<or> \<not> e then Waiting else Returned TRWRQ_ERROR_READ_TIMEOUT q)"
  using RdEmpty_iff [OF assms(1), of i] assms(2)
  by (simp add: rq_Read_def ringque_consts Let_def)


subsection \<open>The contract of the queue and what a client may rely on\<close>

text \<open>
  A bounded channel with several readers: \<open>push\<close> appends for every reader and drops the oldest
  element of a reader that has \<open>cap\<close> of them waiting, \<open>pop i\<close> takes the oldest element of reader
  \<open>i\<close> and leaves the readers of the other channels alone.
\<close>

locale drop_fifo =
  fixes push :: "'a \<Rightarrow> 'q \<Rightarrow> 'q" and pop :: "nat \<Rightarrow> 'q \<Rightarrow> ('a \<times> 'q) option"
    and view :: "nat \<Rightarrow> 'q \<Rightarrow> 'a list" and cap :: "'q \<Rightarrow> nat" and chan :: "nat \<Rightarrow> nat"
    and ok :: "'q \<Rightarrow> bool"
  assumes ok_push: "ok q \<Longrightarrow> ok (push x q)"
    and ok_pop: "ok q \<Longrightarrow> pop i q = Some (x, q') \<Longrightarrow> ok q'"
    and cap_push: "ok q \<Longrightarrow> cap (push x q) = cap q"
    and cap_pop: "ok q \<Longrightarrow> pop i q = Some (x, q') \<Longrightarrow> cap q' = cap q"
    and view_le: "ok q \<Longrightarrow> length (view i q) \<le> cap q"
    and view_push: "ok q \<Longrightarrow>
      view i (push x q) = (if length (view i q) = cap q then tl (view i q) else view i q) @ [x]"
    and pop_None: "ok q \<Longrightarrow> (pop i q = None) = (view i q = [])"
    and view_pop: "ok q \<Longrightarrow> pop i q = Some (x, q') \<Longrightarrow> view i q = x # view i q'"
    and view_pop_other: "ok q \<Longrightarrow> pop i q = Some (x, q') \<Longrightarrow> chan j \<noteq> chan i \<Longrightarrow> view j q' = view j q"
    and view_chan: "chan j = chan i \<Longrightarrow> view j q = view i q"

datatype 'a qop = Push 'a | Pop nat

text \<open>A run: the elements pushed, the elements reader \<open>r\<close> has taken, and the queue.  A \<open>Pop\<close> that
  finds nothing leaves the state alone, as the reader of the code loops.\<close>

fun q_run :: "('a \<Rightarrow> 'q \<Rightarrow> 'q) \<Rightarrow> (nat \<Rightarrow> 'q \<Rightarrow> ('a \<times> 'q) option) \<Rightarrow> (nat \<Rightarrow> nat) \<Rightarrow> nat \<Rightarrow>
    'a qop list \<Rightarrow> 'a list \<times> 'a list \<times> 'q \<Rightarrow> 'a list \<times> 'a list \<times> 'q" where
  "q_run push pop chan r [] s = s"
| "q_run push pop chan r (Push x # ops) (pushed, taken, q) =
     q_run push pop chan r ops (pushed @ [x], taken, push x q)"
| "q_run push pop chan r (Pop i # ops) (pushed, taken, q) =
     (case pop i q of None \<Rightarrow> q_run push pop chan r ops (pushed, taken, q)
      | Some (x, q') \<Rightarrow> q_run push pop chan r ops
          (pushed, if chan i = chan r then taken @ [x] else taken, q'))"

text \<open>The reader's log is consistent: what it took and what waits is a subsequence of what was
  pushed, what waits is the end of it, and nothing is lost while it is not full.\<close>

definition log_ok :: "'a list \<Rightarrow> 'a list \<Rightarrow> 'a list \<Rightarrow> bool" where
  "log_ok pushed taken waiting \<longleftrightarrow> subseq (taken @ waiting) pushed \<and> suffix waiting pushed"

lemma log_ok_push: "log_ok pu ta wa \<Longrightarrow> log_ok (pu @ [x]) ta (wa @ [x])"
  by (auto simp: log_ok_def suffix_def simp flip: append_assoc intro: list_emb_append_mono)

lemma log_ok_drop: "log_ok pu ta wa \<Longrightarrow> log_ok pu ta (tl wa)"
proof -
  assume h: "log_ok pu ta wa"
  then have "subseq (ta @ tl wa) pu"
    by (auto simp: log_ok_def intro: subseq_order.order_trans [rotated] list_emb_append_mono)
      (metis h log_ok_def list.exhaust_sel list_emb_append_mono subseq_Cons' subseq_order.order_refl
        subseq_order.order_trans tl_Nil)
  moreover have "suffix (tl wa) pu"
    using h suffix_order.trans [OF suffix_tl] by (auto simp: log_ok_def)
  ultimately show ?thesis by (simp add: log_ok_def)
qed

lemma log_ok_take: "log_ok pu ta (x # wa) \<Longrightarrow> log_ok pu (ta @ [x]) wa"
  by (auto simp: log_ok_def suffix_def)

context drop_fifo
begin

lemma run_log:
  assumes "ok q" and "log_ok pu ta (view r q)" and "q_run push pop chan r ops (pu, ta, q) = (pu', ta', q')"
  shows "ok q' \<and> log_ok pu' ta' (view r q') \<and> cap q' = cap q"
  using assms
proof (induction ops arbitrary: pu ta q)
  case (Cons op ops)
  show ?case
  proof (cases op)
    case (Push x)
    have "log_ok (pu @ [x]) ta (view r (push x q))"
      using Cons.prems(1,2) by (simp add: view_push log_ok_push log_ok_drop)
    with Cons.prems Cons.IH [of "push x q" "pu @ [x]" ta] show ?thesis
      by (simp add: Push ok_push cap_push)
  next
    case (Pop i)
    show ?thesis
    proof (cases "pop i q")
      case None
      with Cons show ?thesis by (simp add: Pop)
    next
      case (Some p)
      obtain x q1 where p: "p = (x, q1)" by fastforce
      with Some have pop: "pop i q = Some (x, q1)" by simp
      have "log_ok pu (if chan i = chan r then ta @ [x] else ta) (view r q1)"
      proof (cases "chan i = chan r")
        case True
        then have "view r q = x # view r q1"
          using view_pop [OF Cons.prems(1) pop] view_chan [of i r] by metis
        with Cons.prems(2) True show ?thesis by (simp add: log_ok_take)
      next
        case False
        then show ?thesis using view_pop_other [OF Cons.prems(1) pop, of r] Cons.prems(2) by auto
      qed
      moreover have "ok q1" "cap q1 = cap q" using ok_pop cap_pop Cons.prems(1) pop by blast+
      ultimately show ?thesis using Cons.IH [of q1] Cons.prems(3) by (simp add: Pop pop split: if_splits)
    qed
  qed
qed auto

text \<open>A fresh queue: in order, without invention, and the newest \<open>cap\<close> elements are always there.\<close>

lemma run_fifo:
  assumes "ok q" and "view r q = []" and "q_run push pop chan r ops ([], [], q) = (pu, ta, q')"
  shows "subseq (ta @ view r q') pu" and "suffix (view r q') pu" and "length (view r q') \<le> cap q"
  using run_log [of q "[]" "[]" r ops pu ta q'] view_le [of q' r] assms
  by (auto simp: log_ok_def)

end

subsection \<open>The ring queue keeps the contract\<close>

text \<open>The operations as pd.cpp calls them on its queues of slot indices: \<open>++release\<close> as the
  release callback, and a reader whose callback returns the index itself.\<close>

definition rq_push :: "int \<Rightarrow> int ringque \<Rightarrow> int ringque" where
  "rq_push index q =
     (case rq_Write index (\<lambda>release. (release + 1, release + 1)) q of Returned _ q' \<Rightarrow> q' | _ \<Rightarrow> q)"

definition rq_pop :: "nat \<Rightarrow> int ringque \<Rightarrow> (int \<times> int ringque) option" where
  "rq_pop chn q =
     (case rq_Read chn 500000 False (\<lambda>current. (current, current)) q of
        Returned r q' \<Rightarrow> Some (r, q') | _ \<Rightarrow> None)"

lemma rq_push_ok: "rq_ok q \<Longrightarrow> rq_ok (rq_push x q)"
  and rq_push_count: "rq_ok q \<Longrightarrow> count (rq_push x q) = count q"
  and rq_push_pending: "rq_ok q \<Longrightarrow>
    pending i (rq_push x q) = (if length (pending i q) = count q then tl (pending i q) else pending i q) @ [x]"
  by (use write_total [of q x "\<lambda>release. (release + 1, release + 1)"] in
      \<open>auto simp: rq_push_def rq_ok_Write write_queue pending_Write\<close>)

lemma rq_pop_None: "rq_ok q \<Longrightarrow> (rq_pop i q = None) = (pending i q = [])"
  by (cases "pending i q = []")
    (auto simp: rq_pop_def read_empty elim: read_nonempty [of q i 500000 False "\<lambda>current. (current, current)"])

lemma rq_pop_Some:
  assumes ok: "rq_ok q" and pop: "rq_pop i q = Some (x, q')"
  shows "rq_ok q'" "pending i q = x # pending i q'" "count q' = count q"
    "j mod 4 \<noteq> i mod 4 \<Longrightarrow> pending j q' = pending j q"
proof -
  from pop have r: "rq_Read i 500000 False (\<lambda>current. (current, current)) q = Returned x q'"
    by (auto simp: rq_pop_def split: outcome.splits)
  have ne: "pending i q \<noteq> []" using rq_pop_None [OF ok, of i] pop by auto
  show "rq_ok q'" by (rule rq_ok_Read [OF ok r])
  show "pending i q = x # pending i q'" "count q' = count q"
    "j mod 4 \<noteq> i mod 4 \<Longrightarrow> pending j q' = pending j q"
    using pending_Read [OF ok r ne] by (auto simp: keeps_def)
qed

interpretation rq: drop_fifo rq_push rq_pop pending count "\<lambda>i. i mod 4" rq_ok
proof unfold_locales
  show "pending j q = pending i q" if "j mod 4 = i mod 4" for i j :: nat and q :: "int ringque"
    using that by (simp add: pending_def ringque_consts)
qed (auto simp: rq_push_ok rq_push_count rq_push_pending rq_pop_None rq_pop_Some pending_le_count)

subsection \<open>Properties\<close>

text \<open>C4: no operation of the ring queue indexes its deque out of range, whatever the reader, the
  waiting time and the callbacks: a write always completes, each operation that completes leaves the
  positions of all four readers inside the deque, and an empty channel is reported as such.\<close>

theorem ringque_safe:
  assumes "rq_ok q"
  shows "(\<exists>r q'. rq_Write x rel q = Returned r q' \<and> rq_ok q') \<and>
    (case rq_Read i t e util q of Returned r q' \<Rightarrow> rq_ok q'
     | Waiting \<Rightarrow> RdEmpty q (i mod 4) \<and> (t < 0 \<or> \<not> e) | Out_Of_Range \<Rightarrow> False) \<and>
    rq_ok (snd (rq_Clear rel q))"
proof -
  have "rq_ok (snd (rq_Clear rel q))" using assms by (auto simp: rq_Clear_def rq_ok_def ringque_consts)
  moreover have "case rq_Read i t e util q of Returned r q' \<Rightarrow> rq_ok q'
     | Waiting \<Rightarrow> RdEmpty q (i mod 4) \<and> (t < 0 \<or> \<not> e) | Out_Of_Range \<Rightarrow> False"
  proof (cases "pending i q = []")
    case True
    then show ?thesis using assms by (simp add: read_empty RdEmpty_iff)
  next
    case False
    then show ?thesis
      by (rule read_nonempty [OF assms, of _ t e util]) (use rq_ok_Read [OF assms] in force)
  qed
  ultimately show ?thesis using write_total [OF assms, of x rel] rq_ok_Write [OF assms] by blast
qed

theorem ringque_safe_witness:
  "let q = \<lparr>queue = [30, 20, 10 :: int], count = 3, rpos = [2, - 1, 0, 1]\<rparr> in
   (\<exists>r q'. rq_Write 40 (\<lambda>x. (0, x)) q = Returned r q' \<and> rq_ok q')"
proof -
  let ?q = "\<lparr>queue = [30, 20, 10], count = 3, rpos = [2, - 1, 0, 1]\<rparr> :: int ringque"
  have "rq_ok ?q" by (simp add: rq_ok_def all_less_4)
  from ringque_safe [OF this, of 40 "\<lambda>x. (0, x)" 0 0 False "\<lambda>x. (0, x)"] show ?thesis by (simp add: Let_def)
qed



end
