(* ===== verification/Crc.thy ===== *)
theory Crc
  imports Prelude
begin

section \<open>The CRC of the serial protocol (pd/pd.cpp)\<close>

text \<open>
  \<open>crc16_Gen\<close> and its table.  The pointer and length of the code are the list of bytes they
  denote.  The table-driven step is proved equal to the bit-by-bit division by the reflected
  polynomial \<open>0xA001\<close>, from which error detection follows: the CRC after two bytes determines them.
\<close>

unbundle bit_operations_syntax

type_synonym byte = "8 word"

definition crc16Table :: "16 word list" where
  "crc16Table = [
    0x0000, 0xC0C1, 0xC181, 0x0140, 0xC301, 0x03C0, 0x0280, 0xC241,
    0xC601, 0x06C0, 0x0780, 0xC741, 0x0500, 0xC5C1, 0xC481, 0x0440,
    0xCC01, 0x0CC0, 0x0D80, 0xCD41, 0x0F00, 0xCFC1, 0xCE81, 0x0E40,
    0x0A00, 0xCAC1, 0xCB81, 0x0B40, 0xC901, 0x09C0, 0x0880, 0xC841,
    0xD801, 0x18C0, 0x1980, 0xD941, 0x1B00, 0xDBC1, 0xDA81, 0x1A40,
    0x1E00, 0xDEC1, 0xDF81, 0x1F40, 0xDD01, 0x1DC0, 0x1C80, 0xDC41,
    0x1400, 0xD4C1, 0xD581, 0x1540, 0xD701, 0x17C0, 0x1680, 0xD641,
    0xD201, 0x12C0, 0x1380, 0xD341, 0x1100, 0xD1C1, 0xD081, 0x1040,
    0xF001, 0x30C0, 0x3180, 0xF141, 0x3300, 0xF3C1, 0xF281, 0x3240,
    0x3600, 0xF6C1, 0xF781, 0x3740, 0xF501, 0x35C0, 0x3480, 0xF441,
    0x3C00, 0xFCC1, 0xFD81, 0x3D40, 0xFF01, 0x3FC0, 0x3E80, 0xFE41,
    0xFA01, 0x3AC0, 0x3B80, 0xFB41, 0x3900, 0xF9C1, 0xF881, 0x3840,
    0x2800, 0xE8C1, 0xE981, 0x2940, 0xEB01, 0x2BC0, 0x2A80, 0xEA41,
    0xEE01, 0x2EC0, 0x2F80, 0xEF41, 0x2D00, 0xEDC1, 0xEC81, 0x2C40,
    0xE401, 0x24C0, 0x2580, 0xE541, 0x2700, 0xE7C1, 0xE681, 0x2640,
    0x2200, 0xE2C1, 0xE381, 0x2340, 0xE101, 0x21C0, 0x2080, 0xE041,
    0xA001, 0x60C0, 0x6180, 0xA141, 0x6300, 0xA3C1, 0xA281, 0x6240,
    0x6600, 0xA6C1, 0xA781, 0x6740, 0xA501, 0x65C0, 0x6480, 0xA441,
    0x6C00, 0xACC1, 0xAD81, 0x6D40, 0xAF01, 0x6FC0, 0x6E80, 0xAE41,
    0xAA01, 0x6AC0, 0x6B80, 0xAB41, 0x6900, 0xA9C1, 0xA881, 0x6840,
    0x7800, 0xB8C1, 0xB981, 0x7940, 0xBB01, 0x7BC0, 0x7A80, 0xBA41,
    0xBE01, 0x7EC0, 0x7F80, 0xBF41, 0x7D00, 0xBDC1, 0xBC81, 0x7C40,
    0xB401, 0x74C0, 0x7580, 0xB541, 0x7700, 0xB7C1, 0xB681, 0x7640,
    0x7200, 0xB2C1, 0xB381, 0x7340, 0xB101, 0x71C0, 0x7080, 0xB041,
    0x5000, 0x90C1, 0x9181, 0x5140, 0x9301, 0x53C0, 0x5280, 0x9241,
    0x9601, 0x56C0, 0x5780, 0x9741, 0x5500, 0x95C1, 0x9481, 0x5440,
    0x9C01, 0x5CC0, 0x5D80, 0x9D41, 0x5F00, 0x9FC1, 0x9E81, 0x5E40,
    0x5A00, 0x9AC1, 0x9B81, 0x5B40, 0x9901, 0x59C0, 0x5880, 0x9841,
    0x8801, 0x48C0, 0x4980, 0x8941, 0x4B00, 0x8BC1, 0x8A81, 0x4A40,
    0x4E00, 0x8EC1, 0x8F81, 0x4F40, 0x8D01, 0x4DC0, 0x4C80, 0x8C41,
    0x4400, 0x84C1, 0x8581, 0x4540, 0x8701, 0x47C0, 0x4680, 0x8641,
    0x8201, 0x42C0, 0x4380, 0x8341, 0x4100, 0x81C1, 0x8081, 0x4040]"

definition crc_step :: "16 word \<Rightarrow> byte \<Rightarrow> 16 word" where
  "crc_step uwCrc ubByte =
     drop_bit 8 uwCrc XOR crc16Table ! unat ((uwCrc XOR ucast ubByte) AND 0xFF)"

definition crc16_Gen :: "byte list \<Rightarrow> 16 word" where
  "crc16_Gen bs =
     (if bs = [] then 0
      else let uwCrc = foldl crc_step 0 bs in drop_bit 8 uwCrc OR push_bit 8 uwCrc)"

subsection \<open>The reference: division bit by bit\<close>

definition bit_step :: "16 word \<Rightarrow> 16 word" where
  "bit_step c = (if bit c 0 then drop_bit 1 c XOR 0xA001 else drop_bit 1 c)"

definition byte_step :: "16 word \<Rightarrow> byte \<Rightarrow> 16 word" where
  "byte_step c b = (bit_step ^^ 8) (c XOR ucast b)"

lemma bit_step_xor: "bit_step (x XOR y) = bit_step x XOR bit_step y"
  by (simp add: bit_step_def bit_xor_iff drop_bit_xor ac_simps)

lemma bit_steps_xor: "(bit_step ^^ n) (x XOR y) = (bit_step ^^ n) x XOR (bit_step ^^ n) y"
  by (induction n) (simp_all add: bit_step_xor)

lemma bit_steps_high: "(\<forall>i<n. \<not> bit c i) \<Longrightarrow> (bit_step ^^ n) c = drop_bit n c"
proof (induction n)
  case (Suc n)
  then have ih: "(bit_step ^^ n) c = drop_bit n c" by simp
  have "\<not> bit (drop_bit n c) 0" using Suc.prems by (simp add: bit_drop_bit_eq)
  then show ?case by (simp add: ih) (simp add: bit_step_def drop_bit_drop_bit)
qed simp

text \<open>
  The remainders are linear, so the table is the sum of its entries for the two nibbles of the index.
\<close>

definition nibble_low :: "16 word list" where
  "nibble_low = [
    0x0000, 0xC0C1, 0xC181, 0x0140, 0xC301, 0x03C0, 0x0280, 0xC241,
    0xC601, 0x06C0, 0x0780, 0xC741, 0x0500, 0xC5C1, 0xC481, 0x0440]"

definition nibble_high :: "16 word list" where
  "nibble_high = [
    0x0000, 0xCC01, 0xD801, 0x1400, 0xF001, 0x3C00, 0x2800, 0xE401,
    0xA001, 0x6C00, 0x7800, 0xB401, 0x5000, 0x9C01, 0x8801, 0x4400]"

lemma nibble_low_bits: "map (\<lambda>l. (bit_step ^^ 8) (of_nat l)) [0..<16] = nibble_low"
  by code_simp

lemma nibble_high_bits: "map (\<lambda>h. (bit_step ^^ 8) (push_bit 4 (of_nat h))) [0..<16] = nibble_high"
  by code_simp

lemma table_nibbles:
  "crc16Table = concat (map (\<lambda>h. map (\<lambda>l. h XOR l) nibble_low) nibble_high)"
  by (simp add: crc16Table_def nibble_low_def nibble_high_def)

lemma table_eq_bits:
  assumes "i < 256"
  shows "crc16Table ! i = (bit_step ^^ 8) (of_nat i)"
proof -
  define h l where "h = i div 16" and "l = i mod 16"
  have hl: "h < 16" "l < 16" "i = 16 * h + l" using assms by (auto simp: h_def l_def)
  have nh: "nibble_high ! h = (bit_step ^^ 8) (push_bit 4 (of_nat h))"
    using hl(1) by (simp flip: nibble_high_bits)
  have nl: "nibble_low ! l = (bit_step ^^ 8) (of_nat l)"
    using hl(2) by (simp flip: nibble_low_bits)
  have len: "length nibble_low = 16" "length nibble_high = 16"
    by (simp_all add: nibble_low_def nibble_high_def)
  have "crc16Table ! i = nibble_high ! h XOR nibble_low ! l"
    using hl unfolding table_nibbles hl(3) by (subst nth_concat_blocks) (simp_all add: len)
  also have "\<dots> = (bit_step ^^ 8) (push_bit 4 (of_nat h) XOR of_nat l)"
    by (simp only: nh nl bit_steps_xor)
  also have "push_bit 4 (of_nat h) XOR of_nat l = (of_nat i :: 16 word)"
  proof -
    have l: "of_nat l = take_bit 4 (of_nat l :: 16 word)"
      using hl(2) by (simp add: take_bit_of_nat take_bit_nat_eq_self)
    have "push_bit 4 (of_nat h :: 16 word) AND of_nat l = 0"
      by (subst l, rule bit_word_eqI) (auto simp: bit_simps)
    then have "push_bit 4 (of_nat h) XOR of_nat l = push_bit 4 (of_nat h :: 16 word) + of_nat l"
      by (rule disjunctive_add_eq_xor [symmetric])
    then show ?thesis by (simp add: hl(3) push_bit_eq_mult)
  qed
  finally show ?thesis .
qed


text \<open>The table-driven step is the bit-by-bit one.\<close>

lemma crc_step_eq: "crc_step c b = byte_step c b"
proof -
  let ?x = "c XOR ucast b"
  let ?l = "take_bit 8 ?x" and ?h = "push_bit 8 (drop_bit 8 c)"
  have low: "?x AND 0xFF = ?l"
    by (simp add: take_bit_eq_mask mask_eq_exp_minus_1)
  have lt: "unat ?l < 256"
  proof -
    have "unat ?l = take_bit 8 (unat ?x)" by (rule unsigned_take_bit_eq)
    also have "\<dots> < 2 ^ 8" by (rule take_bit_nat_less_exp)
    finally show ?thesis by simp
  qed
  have split: "?x = ?h XOR ?l"
    by (rule bit_word_eqI) (auto simp: bit_simps dest: bit_imp_le_length)
  have high: "(bit_step ^^ 8) ?h = drop_bit 8 c"
  proof -
    have "(bit_step ^^ 8) ?h = drop_bit 8 ?h" by (rule bit_steps_high) (simp add: bit_push_bit_iff)
    also have "\<dots> = drop_bit 8 c" by (rule bit_word_eqI) (auto simp: bit_simps dest: bit_imp_le_length)
    finally show ?thesis .
  qed
  have "crc_step c b = drop_bit 8 c XOR (bit_step ^^ 8) ?l"
    unfolding crc_step_def low using table_eq_bits [OF lt] by simp
  also have "\<dots> = (bit_step ^^ 8) (?h XOR ?l)" by (simp only: bit_steps_xor high)
  also have "\<dots> = byte_step c b" by (simp only: byte_step_def split [symmetric])
  finally show ?thesis .
qed

subsection \<open>Error detection\<close>

lemma xor_left_cancel: "((a::'a::len word) XOR b = a XOR c) = (b = c)"
proof
  assume "a XOR b = a XOR c"
  then have "a XOR (a XOR b) = a XOR (a XOR c)" by simp
  then show "b = c" by (simp flip: xor.assoc)
qed simp

lemma ucast8_inj: "((ucast a :: 16 word) = ucast b) = (a = (b :: byte))"
proof
  assume eq: "(ucast a :: 16 word) = ucast b"
  show "a = b"
  proof (rule bit_word_eqI)
    fix n assume "n < LENGTH(8)"
    then show "bit a n = bit b n"
      using arg_cong [OF eq, of "\<lambda>w. bit w n"] by (simp add: bit_simps)
  qed
qed simp

lemma bit_step_inj: "inj bit_step"
proof (rule injI)
  fix a b assume eq: "bit_step a = bit_step b"
  have top: "bit (bit_step c) 15 = bit c 0" for c
    by (simp add: bit_step_def bit_xor_iff bit_drop_bit_eq)
      (use bit_imp_le_length [of c 16] in auto)
  from eq top have "bit a 0 = bit b 0" by metis
  then have "drop_bit 1 a XOR (if bit a 0 then 0xA001 else 0) = drop_bit 1 b XOR (if bit a 0 then 0xA001 else 0)"
    using eq by (simp add: bit_step_def split: if_splits)
  then have d: "drop_bit 1 a = drop_bit 1 b" by (metis xor.commute xor_left_cancel)
  show "a = b"
  proof (rule bit_word_eqI)
    fix n show "bit a n = bit b n"
    proof (cases n)
      case 0
      then show ?thesis using \<open>bit a 0 = bit b 0\<close> by simp
    next
      case (Suc m)
      have "bit (drop_bit 1 a) m = bit (drop_bit 1 b) m" by (simp only: d)
      then show ?thesis by (simp add: bit_drop_bit_eq Suc)
    qed
  qed
qed

lemma bit_steps_inj: "((bit_step ^^ n) x = (bit_step ^^ n) y) = (x = y)"
  using inj_fn [OF bit_step_inj, of n] by (simp add: inj_eq)

lemma crc_step_inj_crc: "(crc_step c b = crc_step d b) = (c = d)"
  by (simp add: crc_step_eq byte_step_def bit_steps_inj xor.commute [of _ "ucast b"] xor_left_cancel)

lemma crc_step_inj_byte: "(crc_step c a = crc_step c b) = (a = b)"
  by (simp add: crc_step_eq byte_step_def bit_steps_inj xor_left_cancel ucast8_inj)

lemma foldl_crc_inj: "(foldl crc_step c bs = foldl crc_step d bs) = (c = d)"
  by (induction bs arbitrary: c d) (simp_all add: crc_step_inj_crc)

text \<open>Two consecutive bytes reach the remainder as one 16-bit value.\<close>

lemma crc_step2_inj:
  assumes "crc_step (crc_step c a1) a2 = crc_step (crc_step c b1) b2"
  shows "a1 = b1 \<and> a2 = b2"
proof -
  have two: "crc_step (crc_step c x) y = (bit_step ^^ 16) ((c XOR ucast x) XOR push_bit 8 (ucast y))"
    for x y :: byte
  proof -
    have "(bit_step ^^ 8) (push_bit 8 (ucast y)) = drop_bit 8 (push_bit 8 (ucast y) :: 16 word)"
      by (rule bit_steps_high) (simp add: bit_push_bit_iff)
    also have "\<dots> = ucast y" by (rule bit_word_eqI) (auto simp: bit_simps dest: bit_imp_le_length)
    finally have y: "ucast y = (bit_step ^^ 8) (push_bit 8 (ucast y))" by simp
    have "(bit_step ^^ 16) z = (bit_step ^^ 8) ((bit_step ^^ 8) z)" for z
      by (simp flip: funpow_add [THEN fun_cong, simplified o_apply])
    then have "(bit_step ^^ 16) ((c XOR ucast x) XOR push_bit 8 (ucast y)) =
        (bit_step ^^ 8) ((bit_step ^^ 8) (c XOR ucast x) XOR ucast y)"
      by (simp only: bit_steps_xor y [symmetric])
    then show ?thesis by (simp only: crc_step_eq byte_step_def)
  qed
  have "(c XOR ucast a1) XOR push_bit 8 (ucast a2) = (c XOR ucast b1) XOR push_bit 8 (ucast b2)"
    using assms by (simp only: two bit_steps_inj)
  then have eq: "ucast a1 XOR push_bit 8 (ucast a2) = (ucast b1 XOR push_bit 8 (ucast b2) :: 16 word)"
    by (simp only: xor.assoc xor_left_cancel)
  have "a1 = b1"
  proof (rule bit_word_eqI)
    fix n assume "n < LENGTH(8)"
    then show "bit a1 n = bit b1 n"
      using arg_cong [OF eq, of "\<lambda>w. bit w n"] by (simp add: bit_simps)
  qed
  moreover have "a2 = b2"
  proof (rule bit_word_eqI)
    fix n assume "n < LENGTH(8)"
    then show "bit a2 n = bit b2 n"
      using arg_cong [OF eq, of "\<lambda>w. bit w (n + 8)"] by (auto simp: bit_simps dest: bit_imp_le_length)
  qed
  ultimately show ?thesis by simp
qed

lemma swap_inj: "(drop_bit 8 c OR push_bit 8 c = drop_bit 8 d OR push_bit 8 d) = (c = (d :: 16 word))"
proof
  assume eq: "drop_bit 8 c OR push_bit 8 c = drop_bit 8 d OR push_bit 8 d"
  show "c = d"
  proof (rule bit_word_eqI)
    fix n assume "n < LENGTH(16)"
    then show "bit c n = bit d n"
      using arg_cong [OF eq, of "\<lambda>w. bit w (if n < 8 then n + 8 else n - 8)"]
      by (auto simp: bit_simps dest: bit_imp_le_length split: if_splits)
  qed
qed simp

lemma crc16_Gen_eq_iff:
  "xs \<noteq> [] \<Longrightarrow> ys \<noteq> [] \<Longrightarrow> (crc16_Gen xs = crc16_Gen ys) = (foldl crc_step 0 xs = foldl crc_step 0 ys)"
  by (simp add: crc16_Gen_def Let_def swap_inj)

subsection \<open>Properties\<close>

text \<open>C1: the table-driven checksum of the serial link is the CRC-16 with the reflected polynomial
  0xA001, divided bit by bit from a zero remainder and sent with its two bytes exchanged.\<close>

theorem crc16_Gen_bitwise:
  "crc16_Gen bs = (let c = foldl byte_step 0 bs in drop_bit 8 c OR push_bit 8 c)"
proof -
  have "crc_step = byte_step" by (intro ext) (rule crc_step_eq)
  then show ?thesis by (simp add: crc16_Gen_def Let_def)
qed


end
