(* ===== verification/Frame_Pipeline.thy ===== *)
theory Frame_Pipeline
  imports Ring_Queue Crc
begin

section \<open>From the camera to the detector (pd/pd.cpp)\<close>

text \<open>
  Three threads connected by ring queues of slot indices.  \<open>mpp_vpss_FrameSave\<close> copies each
  camera buffer to a slot of \<open>MiddleData\<close>, follows the resolution flag of the frame and lets the
  frames of a channel through only once two I-frames of it have been seen; \<open>mpp_vpss_Vdec\<close> decodes a
  slot and puts the picture, with six bytes of the frame's header, into a slot of \<open>dstData\<close>;
  \<open>pd_alg_Body\<close> takes it from there.  One iteration of each loop is one step.  The slots are written
  cyclically and the queues hold one index less than there are slots.  Taking an index and copying
  its slot is one step here; the code copies after the queue's lock is released.  The decoder (RK_MPI) is
  the parameter \<open>decode\<close>; \<open>None\<close> is its timeout, at which the code kills the process.
\<close>

subsection \<open>Cyclic slots behind a bounded queue of indices\<close>

definition ring_slots :: "nat \<Rightarrow> nat \<Rightarrow> int list \<Rightarrow> bool" where
  "ring_slots N n idx \<longleftrightarrow> (\<exists>k. k \<le> n \<and> k < N \<and> idx = map (\<lambda>m. int (m mod N)) [n - k..<n])"

lemma ring_slots_0: "0 < N \<Longrightarrow> ring_slots N 0 []"
  by (simp add: ring_slots_def)

lemma ring_slots_push:
  assumes "ring_slots N n idx" and "2 \<le> N"
  shows "ring_slots N (Suc n) ((if length idx = N - 1 then tl idx else idx) @ [int (n mod N)])"
proof -
  from assms(1) obtain k where k: "k \<le> n" "k < N" "idx = map (\<lambda>m. int (m mod N)) [n - k..<n]"
    by (auto simp: ring_slots_def)
  define k' where "k' = (if k = N - 1 then k else Suc k)"
  have k': "k' \<le> Suc n" "k' < N" "1 \<le> k'" using k assms(2) by (auto simp: k'_def)
  have "(if length idx = N - 1 then tl idx else idx) = map (\<lambda>m. int (m mod N)) [Suc n - k'..<n]"
  proof (cases "k = N - 1")
    case True
    then have "length idx = N - 1" using k by simp
    moreover have "tl idx = map (\<lambda>m. int (m mod N)) [Suc (n - k)..<n]" by (simp only: k(3) tl_map_upt)
    moreover have "Suc (n - k) = Suc n - k'" using True k(1) by (simp add: k'_def)
    ultimately show ?thesis by simp
  next
    case False
    then show ?thesis using k by (simp add: k'_def)
  qed
  then have "(if length idx = N - 1 then tl idx else idx) @ [int (n mod N)] =
      map (\<lambda>m. int (m mod N)) [Suc n - k'..<Suc n]"
    using k'(3) by simp
  with k' show ?thesis unfolding ring_slots_def by blast
qed

lemma ring_slots_pop: "ring_slots N n (x # idx) \<Longrightarrow> ring_slots N n idx"
proof -
  assume "ring_slots N n (x # idx)"
  then obtain k where k: "k \<le> n" "k < N" "x # idx = map (\<lambda>m. int (m mod N)) [n - k..<n]"
    by (auto simp: ring_slots_def)
  from k(3) have "0 < k" by (cases k) auto
  from k(3) have "idx = tl (map (\<lambda>m. int (m mod N)) [n - k..<n])" by (metis list.sel(3))
  also have "\<dots> = map (\<lambda>m. int (m mod N)) [n - (k - 1)..<n]"
    unfolding tl_map_upt using \<open>0 < k\<close> k(1) by (simp add: Suc_diff_le)
  finally show ?thesis using k unfolding ring_slots_def by (intro exI [of _ "k - 1"]) auto
qed

lemma ring_slots_fresh:
  assumes "ring_slots N n idx"
  shows "int (n mod N) \<notin> set idx"
proof
  assume "int (n mod N) \<in> set idx"
  with assms obtain k m where k: "k \<le> n" "k < N" and m: "n - k \<le> m" "m < n" "n mod N = m mod N"
    by (auto simp: ring_slots_def)
  from m(2,3) have "N dvd n - m" by (metis less_imp_le mod_eq_dvd_iff_nat)
  then have "N \<le> n - m" using m(2) by (intro dvd_imp_le) auto
  with k m show False by linarith
qed

lemma ring_slots_range: "ring_slots N n idx \<Longrightarrow> i \<in> set idx \<Longrightarrow> 0 \<le> i \<and> i < int N"
  by (auto simp: ring_slots_def)

text \<open>The newest \<open>N - 1\<close> elements put are in their slots; the slot after them may hold anything.\<close>

definition slot_ok :: "nat \<Rightarrow> 'a list \<Rightarrow> 'a list \<Rightarrow> int list \<Rightarrow> bool" where
  "slot_ok N puts D idx \<longleftrightarrow> length D = N \<and> ring_slots N (length puts) idx \<and>
     (\<forall>m < length puts. length puts < m + N \<longrightarrow> D ! (m mod N) = puts ! m)"

definition slot_view :: "'a list \<Rightarrow> int list \<Rightarrow> 'a list" where
  "slot_view D idx = map (\<lambda>i. D ! nat i) idx"

lemma mod_neq_near:
  fixes m n N :: nat
  assumes "m < n" and "n < m + N"
  shows "m mod N \<noteq> n mod N"
proof
  assume "m mod N = n mod N"
  then have "N dvd n - m" using assms by (metis mod_eq_dvd_iff_nat less_imp_le)
  then have "N \<le> n - m" using assms by (intro dvd_imp_le) auto
  with assms show False by linarith
qed

lemma slot_ok_view:
  assumes "slot_ok N puts D idx"
  shows "suffix (slot_view D idx) puts"
proof -
  let ?n = "length puts"
  obtain k where k: "k \<le> ?n" "k < N" "idx = map (\<lambda>m. int (m mod N)) [?n - k..<?n]"
    using assms by (auto simp: slot_ok_def ring_slots_def)
  have "slot_view D idx = map (\<lambda>m. D ! (m mod N)) [?n - k..<?n]"
    by (simp add: slot_view_def k(3))
  also have "\<dots> = map ((!) puts) [?n - k..<?n]"
    using assms k by (intro map_cong) (auto simp: slot_ok_def)
  also have "\<dots> = drop (?n - k) puts" by (metis add_0 drop_map drop_upt map_nth)
  finally show ?thesis by (simp add: suffix_drop)
qed

lemma slot_ok_put:
  assumes "slot_ok N puts D idx" and "2 \<le> N"
  shows "slot_ok N (puts @ [x]) (D[length puts mod N := x])
    ((if length idx = N - 1 then tl idx else idx) @ [int (length puts mod N)])"
proof -
  let ?n = "length puts"
  have "D[?n mod N := x] ! (m mod N) = (puts @ [x]) ! m" if "m < Suc ?n" "Suc ?n < m + N" for m
  proof (cases "m = ?n")
    case True
    then show ?thesis using assms by (simp add: slot_ok_def)
  next
    case False
    then have "m mod N \<noteq> ?n mod N" using that by (intro mod_neq_near) auto
    then show ?thesis using that False assms by (simp add: slot_ok_def nth_append)
  qed
  then show ?thesis using assms ring_slots_push [of N ?n idx] by (simp add: slot_ok_def)
qed

lemma slot_ok_scribble:
  assumes "slot_ok N puts D idx"
  shows "slot_ok N puts (D[length puts mod N := y]) idx"
proof -
  have "D[length puts mod N := y] ! (m mod N) = D ! (m mod N)" if "m < length puts" "length puts < m + N" for m
    using mod_neq_near [OF that] by simp
  then show ?thesis using assms by (simp add: slot_ok_def)
qed

lemma slot_ok_pop: "slot_ok N puts D (i # idx) \<Longrightarrow> slot_ok N puts D idx"
  by (auto simp: slot_ok_def dest: ring_slots_pop)

lemma slot_ok_length: "slot_ok N puts D idx \<Longrightarrow> length idx < N"
  by (auto simp: slot_ok_def ring_slots_def)

text \<open>Putting an element extends the reader's log.\<close>

lemma slot_log_put:
  assumes ok: "slot_ok N puts D idx" and N: "2 \<le> N" and l: "log_ok puts taken (slot_view D idx)"
    and ok': "slot_ok N (puts @ [x]) D' idx'"
    and len: "length idx' = length ((if length idx = N - 1 then tl idx else idx) @ [j])"
  shows "log_ok (puts @ [x]) taken (slot_view D' idx')"
proof -
  let ?w = "if length idx = N - 1 then tl (slot_view D idx) else slot_view D idx"
  have l': "log_ok (puts @ [x]) taken (?w @ [x])" using l by (simp add: log_ok_push log_ok_drop)
  have "length (slot_view D' idx') = length (?w @ [x])" by (simp add: slot_view_def len)
  then have "slot_view D' idx' = ?w @ [x]"
    using slot_ok_view [OF ok'] l' by (metis log_ok_def suffix_def append_eq_append_conv)
  with l' show ?thesis by simp
qed

subsection \<open>Saving and filtering the camera frames\<close>

definition RESOL_480P :: nat where "RESOL_480P = 0"
definition RESOL_720P :: nat where "RESOL_720P = 1"

datatype sonix_cmd = CMD_RESET_IFRAME | CMD_AREA_INFO | CMD_PALLET_INFO | CMD_AREA_COMFIRM

definition RINGBUF_VDEC_COUNT :: nat where "RINGBUF_VDEC_COUNT = 40"
definition RINGBUF_VDEC_SIZE :: nat where "RINGBUF_VDEC_SIZE = 576 * 320"
definition RINGBUF_VDEC_SIZE_2 :: nat where "RINGBUF_VDEC_SIZE_2 = 1280 * 720"

record frame_save =
  H264_RESOL :: nat
  Reset_Frame_done :: "nat list"
  fs_counter :: nat
  MiddleData :: "byte list list"
  ringque_MIDDLE :: "int ringque"

definition memcpy :: "nat \<Rightarrow> byte list \<Rightarrow> byte list \<Rightarrow> byte list" where
  "memcpy n src dst = take n src @ drop n dst"

text \<open>The bytes of a frame the code looks at.\<close>

definition frame_ch :: "byte list \<Rightarrow> nat" where "frame_ch f = unat (f ! 32)"
definition frame_is_I :: "byte list \<Rightarrow> bool" where "frame_is_I f \<longleftrightarrow> f ! 6 = 0"
definition frame_split :: "byte list \<Rightarrow> bool" where "frame_split f \<longleftrightarrow> f ! 34 AND 0x40 \<noteq> 0"

text \<open>
  The gate of \<open>mpp_vpss_FrameSave\<close>: the resolution switch and the wait for I-frames, on
  \<open>H264_RESOL\<close> and \<open>Reset_Frame_done\<close>.  The result is the new pair, the commands sent to the
  Sonix board and whether the frame is passed on.  \<open>None\<close> is the access to \<open>Reset_Frame_done\<close>
  outside its four elements.
\<close>

definition FrameSave_gate ::
  "byte list \<Rightarrow> nat \<Rightarrow> nat list \<Rightarrow> (nat \<times> nat list \<times> (nat \<times> sonix_cmd) list \<times> bool) option" where
  "FrameSave_gate frame resol done =
     (let ch = frame_ch frame in
      if \<not> frame_split frame \<and> resol \<noteq> RESOL_720P then
        (if 4 \<le> ch then None else Some (RESOL_720P, done[ch := 0], [], False))
      else if frame_split frame \<and> resol \<noteq> RESOL_480P then
        Some (RESOL_480P, replicate 4 0, [], False)
      else if 4 \<le> ch then None
      else if done ! ch < 2 then
        (if frame_is_I frame then Some (resol, done[ch := done ! ch + 1], [], 2 \<le> done ! ch + 1)
         else Some (resol, done, [(ch, CMD_RESET_IFRAME)], False))
      else Some (resol, done, [], True))"

text \<open>One frame: the copy into the slot, the gate and, for a frame that passes, the queue.\<close>

definition FrameSave_step ::
  "byte list \<Rightarrow> frame_save \<Rightarrow> (frame_save \<times> (nat \<times> sonix_cmd) list \<times> byte list list) option" where
  "FrameSave_step mptr s =
     (let index = fs_counter s mod RINGBUF_VDEC_COUNT;
        size = (if H264_RESOL s = RESOL_480P then RINGBUF_VDEC_SIZE
                else if H264_RESOL s = RESOL_720P then RINGBUF_VDEC_SIZE_2 else 0);
        frame = memcpy size mptr (MiddleData s ! index)
      in case FrameSave_gate frame (H264_RESOL s) (Reset_Frame_done s) of None \<Rightarrow> None
         | Some (resol, done, cmds, pass) \<Rightarrow>
             let s1 = s\<lparr>MiddleData := (MiddleData s)[index := frame], H264_RESOL := resol,
                        Reset_Frame_done := done\<rparr>
             in if pass then
                  Some (s1\<lparr>ringque_MIDDLE := rq_push (int index) (ringque_MIDDLE s),
                    fs_counter := (index + 1) mod RINGBUF_VDEC_COUNT\<rparr>, cmds, [frame])
                else Some (s1, cmds, []))"

fun FrameSave_run :: "byte list list \<Rightarrow> frame_save \<Rightarrow> (frame_save \<times> byte list list) option" where
  "FrameSave_run [] s = Some (s, [])"
| "FrameSave_run (f # fs) s =
     (case FrameSave_step f s of None \<Rightarrow> None
      | Some (s1, _, out1) \<Rightarrow>
          (case FrameSave_run fs s1 of None \<Rightarrow> None | Some (s2, out2) \<Rightarrow> Some (s2, out1 @ out2)))"

text \<open>\<open>frame_sequence_detect\<close>: frame numbers run from 0 to 30 and wrap.\<close>

definition frame_sequence_detect :: "byte \<Rightarrow> byte \<Rightarrow> bool" where
  "frame_sequence_detect Frame_last Frame_current \<longleftrightarrow>
     uint Frame_last - uint Frame_current = 30 \<or> uint Frame_current - uint Frame_last = 1"

definition gate_ok :: "nat \<Rightarrow> nat list \<Rightarrow> bool" where
  "gate_ok resol done \<longleftrightarrow> resol \<in> {RESOL_480P, RESOL_720P} \<and> length done = 4 \<and> (\<forall>c<4. done ! c \<le> 2)"

definition fs_ok :: "byte list list \<Rightarrow> frame_save \<Rightarrow> bool" where
  "fs_ok puts s \<longleftrightarrow> gate_ok (H264_RESOL s) (Reset_Frame_done s) \<and>
     rq_ok (ringque_MIDDLE s) \<and> count (ringque_MIDDLE s) = RINGBUF_VDEC_COUNT - 1 \<and>
     fs_counter s = length puts mod RINGBUF_VDEC_COUNT \<and>
     slot_ok RINGBUF_VDEC_COUNT puts (MiddleData s) (pending 0 (ringque_MIDDLE s))"

definition fs_init :: "byte list list \<Rightarrow> frame_save" where
  "fs_init mid = \<lparr>H264_RESOL = RESOL_480P, Reset_Frame_done = replicate 4 0, fs_counter = 0,
     MiddleData = mid, ringque_MIDDLE = TRWRingQueue (RINGBUF_VDEC_COUNT - 1)\<rparr>"

lemma fs_ok_init:
  assumes "length mid = RINGBUF_VDEC_COUNT"
  shows "fs_ok [] (fs_init mid)"
proof -
  have "rq_ok (TRWRingQueue 39 :: int ringque)" by (rule rq_ok_new) simp_all
  moreover have "count (TRWRingQueue 39 :: int ringque) = 39" by (simp add: TRWRingQueue_def)
  moreover have "ring_slots 40 0 []" by (rule ring_slots_0) simp
  ultimately show ?thesis
    using assms by (simp add: fs_ok_def gate_ok_def slot_ok_def fs_init_def RINGBUF_VDEC_COUNT_def)
qed

lemma gate_ok_step:
  "gate_ok r d \<Longrightarrow> FrameSave_gate f r d = Some (r', d', cmds, p) \<Longrightarrow> gate_ok r' d'"
  unfolding FrameSave_gate_def Let_def
  by (auto simp: gate_ok_def nth_list_update split: if_splits)

text \<open>A frame passes only when its channel has seen two I-frames, this one included.\<close>

lemma gate_pass:
  "FrameSave_gate f r d = Some (r', d', cmds, True) \<Longrightarrow>
   frame_ch f < 4 \<and> (2 \<le> d ! frame_ch f \<or> d ! frame_ch f = 1 \<and> frame_is_I f)"
  unfolding FrameSave_gate_def Let_def by (auto split: if_splits)

lemma gate_monitor:
  assumes "gate_ok r d" and "FrameSave_gate f r d = Some (r', d', cmds, p)" and "c < 4"
  shows "d' ! c = 0 \<or> d' ! c = d ! c \<or> 
    (c = frame_ch f \<and> frame_is_I f \<and> d' ! c = d ! c + 1 \<and> p = (2 \<le> d' ! c))"
  using assms unfolding FrameSave_gate_def Let_def
  by (auto simp: gate_ok_def nth_list_update split: if_splits)

lemma FrameSave_step_gate:
  assumes "FrameSave_step f s = Some (s', cmds, out)"
  obtains frame pass where
    "FrameSave_gate frame (H264_RESOL s) (Reset_Frame_done s) =
       Some (H264_RESOL s', Reset_Frame_done s', cmds, pass)"
    "MiddleData s' = (MiddleData s)[fs_counter s mod RINGBUF_VDEC_COUNT := frame]"
    "out = (if pass then [frame] else [])"
    "fs_counter s' = (if pass then (fs_counter s mod RINGBUF_VDEC_COUNT + 1) mod RINGBUF_VDEC_COUNT
                      else fs_counter s)"
    "ringque_MIDDLE s' = (if pass then rq_push (int (fs_counter s mod RINGBUF_VDEC_COUNT)) (ringque_MIDDLE s)
                      else ringque_MIDDLE s)"
  using assms unfolding FrameSave_step_def Let_def by (auto split: option.splits if_splits)

lemma FrameSave_step_ok:
  assumes ok: "fs_ok puts s" and st: "FrameSave_step f s = Some (s', cmds, out)"
  shows "fs_ok (puts @ out) s'"
    and "\<exists>frame. out = [] \<and> ringque_MIDDLE s' = ringque_MIDDLE s \<and>
          MiddleData s' = (MiddleData s)[length puts mod RINGBUF_VDEC_COUNT := frame] \<or>
        out = [frame] \<and> ringque_MIDDLE s' = rq_push (int (length puts mod RINGBUF_VDEC_COUNT)) (ringque_MIDDLE s)"
proof -
  let ?n = "length puts"
  have c: "fs_counter s mod RINGBUF_VDEC_COUNT = ?n mod RINGBUF_VDEC_COUNT"
    using ok by (simp add: fs_ok_def)
  note q = ok [unfolded fs_ok_def]
  have *: "fs_ok (puts @ out) s' \<and> (\<exists>frame. out = [] \<and> ringque_MIDDLE s' = ringque_MIDDLE s \<and>
          MiddleData s' = (MiddleData s)[?n mod RINGBUF_VDEC_COUNT := frame] \<or>
        out = [frame] \<and> ringque_MIDDLE s' = rq_push (int (?n mod RINGBUF_VDEC_COUNT)) (ringque_MIDDLE s))"
  proof (rule FrameSave_step_gate [OF st], unfold c)
    fix frame pass
    assume g: "FrameSave_gate frame (H264_RESOL s) (Reset_Frame_done s) =
        Some (H264_RESOL s', Reset_Frame_done s', cmds, pass)"
      and m: "MiddleData s' = (MiddleData s)[?n mod RINGBUF_VDEC_COUNT := frame]"
      and o: "out = (if pass then [frame] else [])"
      and fc: "fs_counter s' = (if pass then (?n mod RINGBUF_VDEC_COUNT + 1) mod RINGBUF_VDEC_COUNT
                      else fs_counter s)"
      and r: "ringque_MIDDLE s' = (if pass then rq_push (int (?n mod RINGBUF_VDEC_COUNT)) (ringque_MIDDLE s)
                      else ringque_MIDDLE s)"
    have g': "gate_ok (H264_RESOL s') (Reset_Frame_done s')" using gate_ok_step [OF _ g] q by simp
    show ?thesis
    proof (cases pass)
      case True
      have "slot_ok RINGBUF_VDEC_COUNT (puts @ [frame]) (MiddleData s') (pending 0 (ringque_MIDDLE s'))"
        using slot_ok_put [of RINGBUF_VDEC_COUNT puts "MiddleData s" "pending 0 (ringque_MIDDLE s)" frame] q
        by (simp add: True m r rq_push_pending RINGBUF_VDEC_COUNT_def)
      then show ?thesis
        using q True g' by (simp add: fs_ok_def o r fc rq_push_ok rq_push_count mod_Suc_eq)
    next
      case False
      then show ?thesis
        using q g' by (auto simp: fs_ok_def o r fc m slot_ok_scribble)
    qed
  qed
  then show "fs_ok (puts @ out) s'"
    and "\<exists>frame. out = [] \<and> ringque_MIDDLE s' = ringque_MIDDLE s \<and>
          MiddleData s' = (MiddleData s)[?n mod RINGBUF_VDEC_COUNT := frame] \<or>
        out = [frame] \<and> ringque_MIDDLE s' = rq_push (int (?n mod RINGBUF_VDEC_COUNT)) (ringque_MIDDLE s)"
    by blast+
qed

text \<open>The first frame of a channel that passes, from a state in which the channel waits for its
  I-frames, is an I-frame.\<close>

lemma FrameSave_run_first:
  assumes "fs_ok puts s" and "Reset_Frame_done s ! c < 2" and "c < 4" and "FrameSave_run fs s = Some (s', out)"
    and "filter (\<lambda>f. frame_ch f = c) out = g # gs"
  shows "frame_is_I g"
  using assms
proof (induction fs arbitrary: puts s out)
  case (Cons f fs)
  from Cons.prems(4) obtain s1 cmds out1 out2 where
    st: "FrameSave_step f s = Some (s1, cmds, out1)" and run: "FrameSave_run fs s1 = Some (s', out2)"
    and out: "out = out1 @ out2"
    by (auto split: option.splits)
  note ok1 = FrameSave_step_ok(1) [OF Cons.prems(1) st]
  show ?case
  proof (rule FrameSave_step_gate [OF st])
    fix frame pass
    assume g: "FrameSave_gate frame (H264_RESOL s) (Reset_Frame_done s) =
        Some (H264_RESOL s1, Reset_Frame_done s1, cmds, pass)"
      and o1: "out1 = (if pass then [frame] else [])"
    show ?thesis
    proof (cases "pass \<and> frame_ch frame = c")
      case True
      then have "g = frame" using Cons.prems(5) by (simp add: out o1)
      moreover have "FrameSave_gate frame (H264_RESOL s) (Reset_Frame_done s) =
          Some (H264_RESOL s1, Reset_Frame_done s1, cmds, True)" using g True by simp
      from gate_pass [OF this] Cons.prems(2) True have "frame_is_I frame" by auto
      ultimately show ?thesis by simp
    next
      case False
      then have f2: "filter (\<lambda>f. frame_ch f = c) out2 = g # gs"
        using Cons.prems(5) by (auto simp: out o1 split: if_splits)
      have "Reset_Frame_done s1 ! c < 2"
      proof -
        have "gate_ok (H264_RESOL s) (Reset_Frame_done s)" using Cons.prems(1) by (simp add: fs_ok_def)
        from gate_monitor [OF this g Cons.prems(3)] show ?thesis using Cons.prems(2) False by auto
      qed
      from Cons.IH [OF ok1 this Cons.prems(3) run f2] show ?thesis .
    qed
  qed
qed simp


subsection \<open>The saver and the decoder together\<close>

definition mid_take :: "frame_save \<Rightarrow> (byte list \<times> frame_save) option" where
  "mid_take s = (case rq_pop 0 (ringque_MIDDLE s) of None \<Rightarrow> None
     | Some (index, q) \<Rightarrow> Some (MiddleData s ! nat index, s\<lparr>ringque_MIDDLE := q\<rparr>))"

definition mid_waiting :: "frame_save \<Rightarrow> byte list list" where
  "mid_waiting s = slot_view (MiddleData s) (pending 0 (ringque_MIDDLE s))"

datatype mid_event = Save "byte list" | Take

fun mid_run :: "mid_event list \<Rightarrow> byte list list \<times> byte list list \<times> frame_save \<Rightarrow>
    (byte list list \<times> byte list list \<times> frame_save) option" where
  "mid_run [] s = Some s"
| "mid_run (Save f # es) (saved, taken, s) =
     (case FrameSave_step f s of None \<Rightarrow> None
      | Some (s', _, out) \<Rightarrow> mid_run es (saved @ out, taken, s'))"
| "mid_run (Take # es) (saved, taken, s) =
     (case mid_take s of None \<Rightarrow> mid_run es (saved, taken, s)
      | Some (f, s') \<Rightarrow> mid_run es (saved, taken @ [f], s'))"

lemma mid_take_ok:
  assumes ok: "fs_ok puts s" and t: "mid_take s = Some (f, s')"
  shows "fs_ok puts s'" and "mid_waiting s = f # mid_waiting s'"
proof -
  from t obtain i q where p: "rq_pop 0 (ringque_MIDDLE s) = Some (i, q)" and f: "f = MiddleData s ! nat i"
    and s': "s' = s\<lparr>ringque_MIDDLE := q\<rparr>"
    by (auto simp: mid_take_def split: option.splits)
  have rq: "rq_ok (ringque_MIDDLE s)" using ok by (simp add: fs_ok_def)
  note pq = rq_pop_Some [OF rq p]
  show "mid_waiting s = f # mid_waiting s'" using pq(2) by (simp add: mid_waiting_def slot_view_def f s')
  show "fs_ok puts s'" using ok pq slot_ok_pop by (auto simp: fs_ok_def s')
qed

lemma FrameSave_step_log:
  assumes ok: "fs_ok puts s" and st: "FrameSave_step f s = Some (s', cmds, out)"
    and l: "log_ok puts taken (mid_waiting s)"
  shows "log_ok (puts @ out) taken (mid_waiting s')"
proof -
  note ok' = FrameSave_step_ok(1) [OF ok st]
  let ?idx = "pending 0 (ringque_MIDDLE s)"
  have s1: "slot_ok RINGBUF_VDEC_COUNT puts (MiddleData s) ?idx"
    and s2: "slot_ok RINGBUF_VDEC_COUNT (puts @ out) (MiddleData s') (pending 0 (ringque_MIDDLE s'))"
    using ok ok' by (simp_all add: fs_ok_def)
  from FrameSave_step_ok(2) [OF ok st] obtain frame where
    "out = [] \<and> ringque_MIDDLE s' = ringque_MIDDLE s \<or>
     out = [frame] \<and> ringque_MIDDLE s' = rq_push (int (length puts mod RINGBUF_VDEC_COUNT)) (ringque_MIDDLE s)"
    by blast
  then show ?thesis
  proof (elim disjE conjE)
    assume o: "out = []" "ringque_MIDDLE s' = ringque_MIDDLE s"
    then have "length (mid_waiting s') = length (mid_waiting s)" by (simp add: mid_waiting_def slot_view_def)
    moreover have "suffix (mid_waiting s') puts" "suffix (mid_waiting s) puts"
      using slot_ok_view [OF s1] slot_ok_view [OF s2] by (simp_all add: mid_waiting_def o)
    ultimately have "mid_waiting s' = mid_waiting s" by (metis suffix_def append_eq_append_conv)
    with l o show ?thesis by simp
  next
    assume o: "out = [frame]"
      "ringque_MIDDLE s' = rq_push (int (length puts mod RINGBUF_VDEC_COUNT)) (ringque_MIDDLE s)"
    have "pending 0 (ringque_MIDDLE s') = (if length ?idx = RINGBUF_VDEC_COUNT - 1 then tl ?idx else ?idx) @
        [int (length puts mod RINGBUF_VDEC_COUNT)]"
      using ok by (simp add: o fs_ok_def rq_push_pending)
    with s2 o slot_log_put [OF s1, of taken frame "MiddleData s'" "pending 0 (ringque_MIDDLE s')"
        "int (length puts mod RINGBUF_VDEC_COUNT)"] l
    show ?thesis by (simp add: mid_waiting_def RINGBUF_VDEC_COUNT_def)
  qed
qed

lemma mid_run_log:
  assumes "fs_ok puts s" and "log_ok puts taken (mid_waiting s)"
    and "mid_run es (puts, taken, s) = Some (puts', taken', s')"
  shows "log_ok puts' taken' (mid_waiting s')"
  using assms
proof (induction es arbitrary: puts taken s)
  case (Cons e es)
  show ?case
  proof (cases e)
    case (Save f)
    with Cons.prems(3) obtain s1 cmds out where st: "FrameSave_step f s = Some (s1, cmds, out)"
      and run: "mid_run es (puts @ out, taken, s1) = Some (puts', taken', s')"
      by (auto split: option.splits)
    from Cons.IH [OF FrameSave_step_ok(1) [OF Cons.prems(1) st] FrameSave_step_log [OF Cons.prems(1) st Cons.prems(2)] run]
    show ?thesis .
  next
    case Take
    show ?thesis
    proof (cases "mid_take s")
      case None
      with Cons Take show ?thesis by simp
    next
      case (Some p)
      obtain f s1 where p: "mid_take s = Some (f, s1)" using Some by (cases p) auto
      note t = mid_take_ok [OF Cons.prems(1) p]
      have "log_ok puts (taken @ [f]) (mid_waiting s1)" using Cons.prems(2) t(2) by (simp add: log_ok_take)
      from Cons.IH [OF t(1) this] Cons.prems(3) show ?thesis by (simp add: Take p)
    qed
  qed
qed simp

subsection \<open>Decoding, and the frame for the algorithm\<close>

definition RINGBUF_COUNT :: nat where "RINGBUF_COUNT = 12"

text \<open>
  A slot of \<open>dstData\<close> holds the picture and the six bytes behind it (\<open>extern_num\<close>).
  \<open>counter\<close> is a 64-bit count of frames and is taken as unbounded; \<open>TEST_RINGCOUNT\<close>, which nothing
  reads, is left out.
\<close>

type_synonym 'img dst_frame = "'img \<times> byte list"

record 'img frame_ring =
  dstData :: "'img dst_frame list"
  vd_counter :: nat
  ringque :: "int ringque"

definition VDEC_CH :: "nat \<Rightarrow> byte list \<Rightarrow> nat" where
  "VDEC_CH resol frame = (if resol \<noteq> 0 then unat (frame ! 32 + 4) else unat (frame ! 32))"

definition vdec_header :: "byte list \<Rightarrow> byte list" where
  "vdec_header frame = [frame ! 32, frame ! 38, frame ! 8, frame ! 9, frame ! 10, frame ! 11]"

text \<open>The part of a slot sent to the decoder: the bytes after the 48-byte header.\<close>

definition vdec_payload :: "nat \<Rightarrow> byte list \<Rightarrow> byte list" where
  "vdec_payload resol frame =
     (let size = (if resol = RESOL_720P then RINGBUF_VDEC_SIZE_2 else RINGBUF_VDEC_SIZE)
      in take (size - 48) (drop 48 frame))"

definition Vdec_step :: "(nat \<Rightarrow> byte list \<Rightarrow> 'img option) \<Rightarrow> nat \<Rightarrow> byte list \<Rightarrow>
    'img frame_ring \<Rightarrow> 'img frame_ring option" where
  "Vdec_step decode resol frame s =
     (case decode (VDEC_CH resol frame) (vdec_payload resol frame) of None \<Rightarrow> None
      | Some img \<Rightarrow>
          let index = vd_counter s mod RINGBUF_COUNT
          in Some (s\<lparr>dstData := (dstData s)[index := (img, vdec_header frame)],
               ringque := rq_push (int index) (ringque s), vd_counter := vd_counter s + 1\<rparr>))"

text \<open>\<open>pd_alg_Body\<close> takes the next index; \<open>None\<close> while it waits.\<close>

definition alg_take :: "'img frame_ring \<Rightarrow> ('img dst_frame \<times> 'img frame_ring) option" where
  "alg_take s =
     (case rq_pop 0 (ringque s) of None \<Rightarrow> None
      | Some (index, q) \<Rightarrow>
          Some (dstData s ! nat index, s\<lparr>ringque := q\<rparr>))"

definition ring_init :: "'img dst_frame list \<Rightarrow> 'img frame_ring" where
  "ring_init d = \<lparr>dstData = d, vd_counter = 0,
     ringque = TRWRingQueue (RINGBUF_COUNT - 1)\<rparr>"

text \<open>The history of a run: what was put, and the invariant that ties it to the slots.\<close>

definition ring_ok :: "'img dst_frame list \<Rightarrow> 'img frame_ring \<Rightarrow> bool" where
  "ring_ok puts s \<longleftrightarrow> rq_ok (ringque s) \<and> count (ringque s) = RINGBUF_COUNT - 1 \<and>
     vd_counter s = length puts \<and> slot_ok RINGBUF_COUNT puts (dstData s) (pending 0 (ringque s))"

text \<open>The frames that wait for the algorithm.\<close>

definition waiting :: "'img frame_ring \<Rightarrow> 'img dst_frame list" where
  "waiting s = slot_view (dstData s) (pending 0 (ringque s))"

lemma ring_ok_init: "length d = RINGBUF_COUNT \<Longrightarrow> ring_ok [] (ring_init d)"
proof -
  assume "length d = RINGBUF_COUNT"
  moreover have "rq_ok (TRWRingQueue 11 :: int ringque)" by (rule rq_ok_new) simp_all
  moreover have "count (TRWRingQueue 11 :: int ringque) = 11" by (simp add: TRWRingQueue_def)
  moreover have "ring_slots 12 0 []" by (rule ring_slots_0) simp
  ultimately show ?thesis by (simp add: ring_ok_def slot_ok_def ring_init_def RINGBUF_COUNT_def)
qed

lemma waiting_suffix: "ring_ok puts s \<Longrightarrow> suffix (waiting s) puts \<and> length (waiting s) < RINGBUF_COUNT"
  using slot_ok_view slot_ok_length by (auto simp: ring_ok_def waiting_def slot_view_def)

lemma Vdec_step_ok:
  assumes ok: "ring_ok puts s" and st: "Vdec_step decode resol f s = Some s'"
    and d: "decode (VDEC_CH resol f) (vdec_payload resol f) = Some img"
  shows "ring_ok (puts @ [(img, vdec_header f)]) s'"
    and "log_ok puts taken (waiting s) \<Longrightarrow> log_ok (puts @ [(img, vdec_header f)]) taken (waiting s')"
proof -
  let ?n = "length puts" and ?x = "(img, vdec_header f)"
  let ?idx = "pending 0 (ringque s)"
  have s': "dstData s' = (dstData s)[?n mod RINGBUF_COUNT := ?x]"
    "ringque s' = rq_push (int (?n mod RINGBUF_COUNT)) (ringque s)" "vd_counter s' = Suc ?n"
    using st d ok by (auto simp: Vdec_step_def Let_def ring_ok_def)
  note q = ok [unfolded ring_ok_def]
  have p: "pending 0 (ringque s') =
      (if length ?idx = RINGBUF_COUNT - 1 then tl ?idx else ?idx) @ [int (?n mod RINGBUF_COUNT)]"
    using q by (simp add: s' rq_push_pending)
  have N: "2 \<le> RINGBUF_COUNT" by (simp add: RINGBUF_COUNT_def)
  have ok': "slot_ok RINGBUF_COUNT (puts @ [?x]) (dstData s') (pending 0 (ringque s'))"
    using slot_ok_put [OF _ N, of puts "dstData s" ?idx ?x] q by (simp only: p s'(1))
  then show "ring_ok (puts @ [?x]) s'"
    using q by (simp add: ring_ok_def s' rq_push_ok rq_push_count)
  show "log_ok (puts @ [?x]) taken (waiting s')" if "log_ok puts taken (waiting s)"
    using slot_log_put [OF _ N _ ok', of "dstData s" ?idx taken] q that
    by (simp add: waiting_def p)
qed

lemma alg_take_Some:
  assumes ok: "ring_ok puts s" and t: "alg_take s = Some (f, s')"
  shows "ring_ok puts s'" and "waiting s = f # waiting s'"
proof -
  from t obtain i q where p: "rq_pop 0 (ringque s) = Some (i, q)" and f: "f = dstData s ! nat i"
    and s': "dstData s' = dstData s" "ringque s' = q" "vd_counter s' = vd_counter s"
    by (auto simp: alg_take_def split: option.splits)
  have rq: "rq_ok (ringque s)" using ok by (simp add: ring_ok_def)
  note pq = rq_pop_Some [OF rq p]
  show "waiting s = f # waiting s'" using pq(2) by (simp add: waiting_def slot_view_def f s')
  show "ring_ok puts s'" using ok pq slot_ok_pop by (auto simp: ring_ok_def s')
qed

text \<open>Runs of the decoder thread and the algorithm thread, in any interleaving.\<close>

datatype ring_event = Camera_Frame nat "byte list" | Alg_Read

fun ring_run :: "(nat \<Rightarrow> byte list \<Rightarrow> 'img option) \<Rightarrow> ring_event list \<Rightarrow>
    'img dst_frame list \<times> 'img dst_frame list \<times> 'img frame_ring \<Rightarrow>
    ('img dst_frame list \<times> 'img dst_frame list \<times> 'img frame_ring) option" where
  "ring_run decode [] s = Some s"
| "ring_run decode (Camera_Frame resol f # es) (puts, taken, s) =
     (case (decode (VDEC_CH resol f) (vdec_payload resol f), Vdec_step decode resol f s) of
        (Some img, Some s') \<Rightarrow> ring_run decode es (puts @ [(img, vdec_header f)], taken, s')
      | _ \<Rightarrow> None)"
| "ring_run decode (Alg_Read # es) (puts, taken, s) =
     (case alg_take s of None \<Rightarrow> ring_run decode es (puts, taken, s)
      | Some (f, s') \<Rightarrow> ring_run decode es (puts, taken @ [f], s'))"

lemma ring_run_log:
  assumes "ring_ok puts s" and "log_ok puts taken (waiting s)"
    and "ring_run decode es (puts, taken, s) = Some (puts', taken', s')"
  shows "ring_ok puts' s' \<and> log_ok puts' taken' (waiting s')"
  using assms
proof (induction es arbitrary: puts taken s)
  case (Cons e es)
  show ?case
  proof (cases e)
    case (Camera_Frame resol f)
    with Cons.prems(3) obtain img s1 where d: "decode (VDEC_CH resol f) (vdec_payload resol f) = Some img"
      and st: "Vdec_step decode resol f s = Some s1"
      and run: "ring_run decode es (puts @ [(img, vdec_header f)], taken, s1) = Some (puts', taken', s')"
      by (auto split: option.splits)
    note ok1 = Vdec_step_ok [OF Cons.prems(1) st d]
    from Cons.IH [OF ok1(1) ok1(2) [OF Cons.prems(2)] run] show ?thesis .
  next
    case Alg_Read
    show ?thesis
    proof (cases "alg_take s")
      case None
      with Cons Alg_Read show ?thesis by simp
    next
      case (Some p)
      obtain f s1 where p: "alg_take s = Some (f, s1)" using Some by (cases p) auto
      note t = alg_take_Some [OF Cons.prems(1) p]
      have "log_ok puts (taken @ [f]) (waiting s1)" using Cons.prems(2) t(2) by (simp add: log_ok_take)
      from Cons.IH [OF t(1) this] Cons.prems(3) show ?thesis by (simp add: Alg_Read p)
    qed
  qed
qed simp

subsection \<open>Properties\<close>


definition sample_frame :: "nat \<Rightarrow> bool \<Rightarrow> byte list" where
  "sample_frame c i = (replicate 48 0)[6 := (if i then 0 else 1), 32 := of_nat c, 34 := 0x40]"

lemma sample_frame_simps [simp]:
  "frame_ch (sample_frame c i) = c mod 256" "frame_is_I (sample_frame c i) = i"
  "frame_split (sample_frame c i)" "length (sample_frame c i) = 48"
  "VDEC_CH 0 (sample_frame c i) = c mod 256"
  by (simp_all add: frame_ch_def frame_is_I_def frame_split_def sample_frame_def VDEC_CH_def
      unat_of_nat take_bit_nat_def nth_list_update)

lemma memcpy_whole: "length src \<le> n \<Longrightarrow> length dst \<le> n \<Longrightarrow> memcpy n src dst = src"
  by (simp add: memcpy_def)

lemmas frame_eval = FrameSave_step_def FrameSave_gate_def fs_init_def memcpy_whole mid_take_def
  RINGBUF_VDEC_COUNT_def RINGBUF_VDEC_SIZE_def RINGBUF_VDEC_SIZE_2_def RESOL_480P_def RESOL_720P_def
  Vdec_step_def alg_take_def ring_init_def RINGBUF_COUNT_def
  nth_list_update Let_def rq_push_def rq_pop_def rq_Write_def upt_rec_numeral numeral_2_eq_2 [symmetric]
  rq_Read_def RdFull_def RdEmpty_def TRWRingQueue_def ringque_consts s32_def u32_def






end
