(* ===== verification/Floats.thy ===== *)
theory Floats
  imports Prelude
begin

section \<open>IEEE-754 arithmetic\<close>

text \<open>
  The detection code computes with \<open>float\<close> and \<open>double\<close>.  A finite float is the rational number
  it stands for, and every operation is the exact rational operation followed by \<open>rnd p emin\<close>,
  rounding to the nearest value with \<open>p\<close> significant bits and least exponent \<open>emin\<close> (gradual
  underflow included), ties to even: \<open>f32\<close> for \<open>float\<close> (24 bits, \<open>2 ^ -149\<close>), \<open>f64\<close> for
  \<open>double\<close> (53 bits, \<open>2 ^ -1074\<close>).  Everything here computes.  The exponent is not bounded
  above: the coordinates of this program are at most \<open>2 ^ 32\<close> in absolute value, so no operation
  overflows to infinity.  Signed zeros are identified.
\<close>

subsection \<open>Exponent and rounding\<close>

function ibits :: "int \<Rightarrow> nat" where
  "ibits n = (if n \<le> 0 then 0 else Suc (ibits (n div 2)))"
  by pat_completeness auto
termination by (relation "measure nat") auto

declare ibits.simps [simp del]

definition ilog2 :: "rat \<Rightarrow> int" where
  "ilog2 x = (let (n, d) = quotient_of x; k = int (ibits n) - int (ibits d)
              in if 2 powi k \<le> x then k else k - 1)"

definition rhe :: "rat \<Rightarrow> int" where
  "rhe r = (let f = \<lfloor>r\<rfloor>; d = r - of_int f
            in if d < 1/2 then f else if 1/2 < d then f + 1 else if even f then f else f + 1)"

definition ulp_exp :: "nat \<Rightarrow> int \<Rightarrow> rat \<Rightarrow> int" where
  "ulp_exp p emin x = (if x = 0 then emin else max emin (ilog2 \<bar>x\<bar> - (int p - 1)))"

definition rnd :: "nat \<Rightarrow> int \<Rightarrow> rat \<Rightarrow> rat" where
  "rnd p emin x = (let u = 2 powi (ulp_exp p emin x) in of_int (rhe (x / u)) * u)"

lemma ibits_bounds: "0 < n \<Longrightarrow> 0 < ibits n \<and> 2 ^ (ibits n - 1) \<le> n \<and> n < 2 ^ ibits n"
proof (induction n rule: ibits.induct)
  case (1 n)
  show ?case
  proof (cases "n div 2 = 0")
    case True
    with "1.prems" have "n = 1" by simp
    then show ?thesis by (simp add: ibits.simps [of 1] ibits.simps [of 0])
  next
    case False
    with "1.prems" have "0 < n div 2" by simp
    with "1.IH" "1.prems" have ih: "0 < ibits (n div 2)" "2 ^ (ibits (n div 2) - 1) \<le> n div 2"
      "n div 2 < 2 ^ ibits (n div 2)" by auto
    obtain m where m: "ibits (n div 2) = Suc m" using ih(1) by (cases "ibits (n div 2)") auto
    have "ibits n = Suc (Suc m)" using "1.prems" by (simp add: ibits.simps [of n] m)
    moreover have "2 ^ m \<le> n div 2" "n div 2 < 2 * 2 ^ m" using ih by (simp_all add: m)
    moreover have "2 * (n div 2) \<le> n" "n < 2 * (n div 2) + 2" by linarith+
    ultimately show ?thesis by simp
  qed
qed

lemma ilog2_bounds:
  assumes "0 < x"
  shows "2 powi ilog2 x \<le> x" and "x < 2 powi (ilog2 x + 1)"
proof -
  obtain n d where q: "quotient_of x = (n, d)" by fastforce
  have x: "x = of_int n / of_int d" and d: "0 < d"
    using q quotient_of_div quotient_of_denom_pos by auto
  with assms have n: "0 < n" by (simp add: zero_less_divide_iff)
  define a b where "a = ibits n" and "b = ibits d"
  have B: "(2::rat) powi (int (ibits m) - 1) \<le> of_int m \<and> of_int m < (2::rat) powi int (ibits m)"
    if "0 < m" for m
  proof -
    have "0 < ibits m" "2 ^ (ibits m - 1) \<le> m" "m < 2 ^ ibits m" using ibits_bounds [OF that] by auto
    moreover from this(2) have "of_int (2 ^ (ibits m - 1)) \<le> (of_int m :: rat)" by (simp only: of_int_le_iff)
    moreover have "of_int m < (of_int (2 ^ ibits m) :: rat)"
      using \<open>m < 2 ^ ibits m\<close> by (simp only: of_int_less_iff)
    ultimately show ?thesis by (simp add: power_int_def nat_diff_distrib)
  qed
  note n1 = B [OF n, folded a_def, THEN conjunct1] B [OF n, folded a_def, THEN conjunct2]
  note d1 = B [OF d, folded b_def, THEN conjunct1] B [OF d, folded b_def, THEN conjunct2]
  define k where "k = int a - int b"
  have dp: "(0::rat) < of_int d" using d by simp
  have lo: "2 powi (k - 1) \<le> x"
  proof -
    have "(2::rat) powi (k - 1) * of_int d \<le> 2 powi (k - 1) * 2 powi int b"
      using d1(2) by (intro mult_left_mono) auto
    also have "\<dots> = 2 powi (int a - 1)" by (simp add: k_def power_int_add [symmetric] del: power_int_of_nat)
    also have "\<dots> \<le> of_int n" by (rule n1)
    finally show ?thesis using dp by (simp add: x pos_le_divide_eq)
  qed
  have hi: "x < 2 powi (k + 1)"
  proof -
    have "of_int n < (2::rat) powi int a" by (rule n1)
    also have "\<dots> = 2 powi (k + 1) * 2 powi (int b - 1)"
      by (simp add: k_def power_int_add [symmetric] del: power_int_of_nat)
    also have "\<dots> \<le> 2 powi (k + 1) * of_int d" using d1(1) by (intro mult_left_mono) auto
    finally show ?thesis using dp by (simp add: x pos_divide_less_eq)
  qed
  have i: "ilog2 x = (if 2 powi k \<le> x then k else k - 1)"
    by (simp add: ilog2_def q k_def a_def b_def)
  show "2 powi ilog2 x \<le> x" "x < 2 powi (ilog2 x + 1)" using lo hi by (auto simp: i)
qed

lemma powi_less_iff: "((2::rat) powi a < 2 powi b) = (a < b)"
  by (metis linorder_cases not_less_iff_gr_or_eq one_less_numeral_iff power_int_strict_increasing
      semiring_norm(76))

lemma powi_le_iff: "((2::rat) powi a \<le> 2 powi b) = (a \<le> b)"
  by (simp only: linorder_not_less [symmetric] powi_less_iff)

lemma ilog2_unique:
  assumes "2 powi e \<le> x" and "x < 2 powi (e + 1)"
  shows "ilog2 x = e"
proof -
  have "(0::rat) < 2 powi e" by simp
  with assms(1) have "0 < x" by linarith
  note b = ilog2_bounds [OF this]
  have "(2::rat) powi ilog2 x < 2 powi (e + 1)" "(2::rat) powi e < 2 powi (ilog2 x + 1)"
    using b assms by linarith+
  then show ?thesis by (simp only: powi_less_iff)
qed

lemma ilog2_mono: "0 < x \<Longrightarrow> x \<le> y \<Longrightarrow> ilog2 x \<le> ilog2 y"
proof -
  assume "0 < x" "x \<le> y"
  then have "(2::rat) powi ilog2 x < 2 powi (ilog2 y + 1)"
    using ilog2_bounds(1) [of x] ilog2_bounds(2) [of y] by linarith
  then show ?thesis by (simp only: powi_less_iff)
qed


subsection \<open>Rounding to the nearest integer\<close>

lemma rhe_of_int [simp]: "rhe (of_int k) = k"
  by (simp add: rhe_def)

lemma rhe_error: "\<bar>of_int (rhe r) - r\<bar> \<le> 1 / 2"
proof -
  have "of_int \<lfloor>r\<rfloor> \<le> r" "r < of_int \<lfloor>r\<rfloor> + 1" by linarith+
  then show ?thesis by (auto simp: rhe_def Let_def)
qed

lemma rhe_mono:
  assumes "r \<le> s"
  shows "rhe r \<le> rhe s"
proof (cases "\<lfloor>r\<rfloor> = \<lfloor>s\<rfloor>")
  case True
  with assms show ?thesis by (auto simp: rhe_def Let_def)
next
  case False
  with assms have "\<lfloor>r\<rfloor> + 1 \<le> \<lfloor>s\<rfloor>" using floor_mono [of r s] by linarith
  moreover have "rhe r \<le> \<lfloor>r\<rfloor> + 1" "\<lfloor>s\<rfloor> \<le> rhe s" by (auto simp: rhe_def Let_def)
  ultimately show ?thesis by linarith
qed

lemma rhe_minus: "rhe (- r) = - rhe r"
proof (cases "of_int \<lfloor>r\<rfloor> = r")
  case True
  then obtain k where k: "r = of_int k" by metis
  show ?thesis using rhe_of_int [of "- k"] rhe_of_int [of k] by (simp add: k)
next
  case False
  define f where "f = \<lfloor>r\<rfloor>"
  have b: "of_int f < r" "r < of_int f + 1" using False by (auto simp: f_def less_le) linarith+
  have "\<lfloor>- r\<rfloor> = - f - 1" using b by (intro floor_unique) auto
  then show ?thesis using b by (auto simp: rhe_def Let_def f_def [symmetric])
qed

lemma rhe_le_int: "r \<le> of_int k \<Longrightarrow> rhe r \<le> k"
  using rhe_mono [of r "of_int k"] by simp

lemma rhe_ge_int: "of_int k \<le> r \<Longrightarrow> k \<le> rhe r"
  using rhe_mono [of "of_int k" r] by simp

subsection \<open>Properties of floating-point rounding\<close>

definition flt :: "nat \<Rightarrow> int \<Rightarrow> rat \<Rightarrow> bool" where
  "flt p emin x \<longleftrightarrow> rnd p emin x = x"

lemma rnd_0 [simp]: "rnd p emin 0 = 0"
  using rhe_of_int [of 0] by (simp add: rnd_def)

lemma ulp_exp_minus [simp]: "ulp_exp p emin (- x) = ulp_exp p emin x"
  by (simp add: ulp_exp_def)

lemma rnd_minus [simp]: "rnd p emin (- x) = - rnd p emin x"
  using rhe_minus by (simp add: rnd_def Let_def)

lemma ulp_exp_ge: "emin \<le> ulp_exp p emin x"
  by (simp add: ulp_exp_def)

lemma rnd_on_grid:
  assumes "x = of_int m * 2 powi e" and "ulp_exp p emin x \<le> e"
  shows "rnd p emin x = x"
proof -
  define E where "E = ulp_exp p emin x"
  have "(2::rat) powi e = 2 powi (e - E) * 2 powi E" by (simp add: power_int_diff)
  moreover have "(2::rat) powi (e - E) = of_int (2 ^ nat (e - E))"
    using assms(2) by (simp add: E_def power_int_def)
  ultimately have "x / 2 powi E = of_int (m * 2 ^ nat (e - E))" using assms(1) by simp
  then have r: "rhe (x / 2 powi E) = m * 2 ^ nat (e - E)" by (simp only: rhe_of_int)
  have "rnd p emin x = of_int (m * 2 ^ nat (e - E)) * 2 powi E"
    by (simp only: rnd_def Let_def E_def [symmetric] r)
  also have "\<dots> = x" using \<open>x / 2 powi E = _\<close>
    by (metis nonzero_divide_eq_eq power_int_not_zero zero_neq_numeral)
  finally show ?thesis .
qed

lemma ulp_exp_mono:
  assumes "0 < x" and "x \<le> y"
  shows "ulp_exp p emin x \<le> ulp_exp p emin y"
  using assms ilog2_mono [of x y] by (auto simp: ulp_exp_def)

lemma rnd_nonneg: "0 \<le> x \<Longrightarrow> 0 \<le> rnd p emin x"
  using rhe_ge_int [of 0] by (simp add: rnd_def Let_def)

lemma rnd_mono_pos:
  assumes p: "0 < p" and xy: "0 < x" "x \<le> y"
  shows "rnd p emin x \<le> rnd p emin y"
proof (cases "ulp_exp p emin x = ulp_exp p emin y")
  case True
  have "x / 2 powi ulp_exp p emin y \<le> y / 2 powi ulp_exp p emin y"
    using xy by (intro divide_right_mono) auto
  from rhe_mono [OF this] show ?thesis
    by (auto simp: rnd_def Let_def True intro!: mult_right_mono)
next
  case False
  let ?u = "ulp_exp p emin x" and ?v = "ulp_exp p emin y" and ?P = "(2::rat) powi ilog2 y"
  have uv: "?u < ?v" using False ulp_exp_mono [OF xy, of p emin] by linarith
  with ulp_exp_ge [of emin p x] have v: "?v = ilog2 y - (int p - 1)"
    using xy by (auto simp: ulp_exp_def)
  have il: "ilog2 x < ilog2 y"
    using uv ilog2_mono [of x y] xy by (auto simp: ulp_exp_def)
  have xP: "x \<le> ?P"
  proof -
    have "x < 2 powi (ilog2 x + 1)" by (rule ilog2_bounds [OF xy(1)])
    also have "\<dots> \<le> ?P" using il by (simp add: powi_le_iff)
    finally show ?thesis by simp
  qed
  have P1: "?P / 2 powi ?u = of_int (2 ^ nat (ilog2 y - ?u))"
    using uv v p by (simp add: power_int_diff [symmetric]) (simp add: power_int_def)
  have P2: "?P / 2 powi ?v = of_int (2 ^ (p - 1))"
    using p by (simp add: v power_int_diff [symmetric]) (simp add: power_int_def nat_diff_distrib)
  have "rhe (x / 2 powi ?u) \<le> 2 ^ nat (ilog2 y - ?u)"
    by (rule rhe_le_int, subst P1 [symmetric], rule divide_right_mono [OF xP], simp)
  then have "(of_int (rhe (x / 2 powi ?u)) :: rat) \<le> of_int (2 ^ nat (ilog2 y - ?u))" 
    by (simp only: of_int_le_iff)
  then have "rnd p emin x \<le> of_int (2 ^ nat (ilog2 y - ?u)) * 2 powi ?u"
    by (simp only: rnd_def Let_def) (rule mult_right_mono, simp_all)
  also have "\<dots> = ?P" by (simp only: P1 [symmetric]) simp
  also have "?P = of_int (2 ^ (p - 1)) * 2 powi ?v" by (simp only: P2 [symmetric]) simp
  also have "\<dots> \<le> rnd p emin y"
  proof -
    have "?P \<le> y" using xy by (intro ilog2_bounds) simp
    then have "?P / 2 powi ?v \<le> y / 2 powi ?v" by (rule divide_right_mono) simp
    then have "2 ^ (p - 1) \<le> rhe (y / 2 powi ?v)" by (intro rhe_ge_int) (simp only: P2)
    then have "(of_int (2 ^ (p - 1)) :: rat) \<le> of_int (rhe (y / 2 powi ?v))"
      by (simp only: of_int_le_iff)
    then show ?thesis by (simp only: rnd_def Let_def) (rule mult_right_mono, simp_all)
  qed
  finally show ?thesis .
qed

lemma rnd_mono:
  assumes p: "0 < p" and xy: "x \<le> y"
  shows "rnd p emin x \<le> rnd p emin y"
proof (cases "0 < x")
  case True
  with assms show ?thesis by (intro rnd_mono_pos)
next
  case False
  show ?thesis
  proof (cases "0 \<le> y")
    case True
    have "0 \<le> rnd p emin (- x)" using False by (intro rnd_nonneg) simp
    moreover have "0 \<le> rnd p emin y" using True by (rule rnd_nonneg)
    ultimately show ?thesis by simp
  next
    case yneg: False
    have "rnd p emin (- y) \<le> rnd p emin (- x)" using yneg xy p by (intro rnd_mono_pos) auto
    then show ?thesis by simp
  qed
qed

lemma rnd_exact:
  assumes k: "\<bar>k\<bar> \<le> 2 ^ p" and e: "emin \<le> e" and p: "0 < p"
  shows "rnd p emin (of_int k * 2 powi e) = of_int k * 2 powi e"
proof (cases "k = 0")
  case False
  let ?x = "of_int k * 2 powi e :: rat"
  have ax: "\<bar>?x\<bar> = of_int \<bar>k\<bar> * 2 powi e" by (simp add: abs_mult)
  have x0: "?x \<noteq> 0" using False by simp
  have p2: "(2::rat) powi int p = of_int (2 ^ p)" by simp
  show ?thesis
  proof (cases "\<bar>k\<bar> = 2 ^ p")
    case True
    have "\<bar>?x\<bar> = 2 powi (int p + e)" by (simp add: ax True power_int_add p2)
    then have "ilog2 \<bar>?x\<bar> = int p + e" by (intro ilog2_unique) (simp_all add: power_int_add)
    then have u: "ulp_exp p emin ?x \<le> e + 1" using e by (simp add: ulp_exp_def x0)
    have "2 ^ p = 2 * 2 ^ (p - 1)" using p by (cases p) auto
    with True have "k = 2 * (sgn k * 2 ^ (p - 1))"
      by (metis mult.assoc mult.commute mult_sgn_abs)
    then have "?x = of_int (2 * (sgn k * 2 ^ (p - 1))) * 2 powi e" by simp
    also have "\<dots> = of_int (sgn k * 2 ^ (p - 1)) * 2 powi (e + 1)" by (simp add: power_int_add)
    finally have "?x = of_int (sgn k * 2 ^ (p - 1)) * 2 powi (e + 1)" .
    from rnd_on_grid [OF this u] show ?thesis .
  next
    case nmax: False
    have "\<bar>k\<bar> < 2 ^ p" using k nmax by linarith
    then have "(of_int \<bar>k\<bar> :: rat) < of_int (2 ^ p)" by (simp only: of_int_less_iff)
    then have "\<bar>?x\<bar> < 2 powi (int p + e)"
      unfolding ax power_int_add [OF disjI1, of "2::rat", simplified] p2 [symmetric]
      by (simp add: power_int_add)
    moreover have "2 powi ilog2 \<bar>?x\<bar> \<le> \<bar>?x\<bar>" by (rule ilog2_bounds) (use x0 in simp)
    ultimately have "(2::rat) powi ilog2 \<bar>?x\<bar> < 2 powi (int p + e)" by linarith
    then have "ilog2 \<bar>?x\<bar> < int p + e" by (simp only: powi_less_iff)
    then have u: "ulp_exp p emin ?x \<le> e" using e by (simp add: ulp_exp_def x0)
    show ?thesis by (rule rnd_on_grid [OF refl u])
  qed
qed simp


lemma rnd_of_int:
  assumes "\<bar>n\<bar> \<le> 2 ^ p" and "emin \<le> 0" and "0 < p"
  shows "rnd p emin (of_int n) = of_int n"
  using rnd_exact [OF assms(1) assms(2) assms(3)] by simp

lemma rnd_form:
  assumes p: "0 < p"
  obtains k e where "rnd p emin x = of_int k * 2 powi e" and "\<bar>k\<bar> \<le> 2 ^ p" and "emin \<le> e"
proof (cases "x = 0")
  case True
  then show ?thesis using that [of 0 emin] by simp
next
  case False
  let ?E = "ulp_exp p emin x"
  have "\<bar>x\<bar> < 2 powi (ilog2 \<bar>x\<bar> + 1)" using False by (intro ilog2_bounds) simp
  also have "\<dots> \<le> 2 powi (int p + ?E)" using False by (simp only: powi_le_iff) (simp add: ulp_exp_def)
  also have "\<dots> = 2 ^ p * 2 powi ?E" by (simp add: power_int_add)
  finally have "\<bar>x / 2 powi ?E\<bar> \<le> of_int (2 ^ p)" by (simp add: abs_divide divide_le_eq)
  then have "x / 2 powi ?E \<le> of_int (2 ^ p)" "of_int (- (2 ^ p)) \<le> x / 2 powi ?E"
    by (simp_all only: abs_le_iff of_int_minus) linarith
  then have "\<bar>rhe (x / 2 powi ?E)\<bar> \<le> 2 ^ p"
    using rhe_le_int [of "x / 2 powi ?E" "2 ^ p"] rhe_ge_int [of "- (2 ^ p)" "x / 2 powi ?E"]
    by linarith
  moreover have "rnd p emin x = of_int (rhe (x / 2 powi ?E)) * 2 powi ?E"
    by (simp add: rnd_def Let_def)
  ultimately show ?thesis using that ulp_exp_ge by blast
qed

lemma rnd_idem: "0 < p \<Longrightarrow> rnd p emin (rnd p emin x) = rnd p emin x"
  by (rule rnd_form [of p emin x]) (simp_all add: rnd_exact)

lemma rnd_le_flt: "0 < p \<Longrightarrow> flt p emin y \<Longrightarrow> x \<le> y \<Longrightarrow> rnd p emin x \<le> y"
  using rnd_mono [of p x y emin] by (simp add: flt_def)

lemma rnd_ge_flt: "0 < p \<Longrightarrow> flt p emin y \<Longrightarrow> y \<le> x \<Longrightarrow> y \<le> rnd p emin x"
  using rnd_mono [of p y x emin] by (simp add: flt_def)

text \<open>The rounding error is half a unit in the last place; relative to a normal value it is
  at most \<open>2 ^ -p\<close>.\<close>

lemma rnd_error: "\<bar>rnd p emin x - x\<bar> \<le> 2 powi ulp_exp p emin x / 2"
proof -
  let ?u = "(2::rat) powi ulp_exp p emin x"
  have "rnd p emin x - x = (of_int (rhe (x / ?u)) - x / ?u) * ?u"
    by (simp add: rnd_def Let_def left_diff_distrib)
  then have "\<bar>rnd p emin x - x\<bar> = \<bar>of_int (rhe (x / ?u)) - x / ?u\<bar> * ?u" by (simp add: abs_mult)
  also have "\<dots> \<le> 1 / 2 * ?u" using rhe_error by (intro mult_right_mono) auto
  finally show ?thesis by simp
qed

lemma rnd_rel_error:
  assumes "x \<noteq> 0" and "emin + int p - 1 \<le> ilog2 \<bar>x\<bar>"
  shows "\<bar>rnd p emin x - x\<bar> \<le> \<bar>x\<bar> * 2 powi (- int p)"
proof -
  have e: "ulp_exp p emin x = ilog2 \<bar>x\<bar> - (int p - 1)" using assms by (simp add: ulp_exp_def)
  have "2 powi ulp_exp p emin x / 2 = (2::rat) powi ilog2 \<bar>x\<bar> * 2 powi (- int p)"
    by (simp add: e power_int_diff power_int_add power_int_minus field_simps)
  also have "\<dots> \<le> \<bar>x\<bar> * 2 powi (- int p)"
    using ilog2_bounds(1) [of "\<bar>x\<bar>"] assms(1) by (intro mult_right_mono) auto
  finally show ?thesis using rnd_error [of p emin x] by linarith
qed

lemma rnd_pos:
  assumes "0 < p" and "2 powi emin \<le> x"
  shows "0 < rnd p emin x"
proof -
  have "rnd p emin (of_int 1 * 2 powi emin) = of_int 1 * 2 powi emin"
    using assms(1) by (intro rnd_exact) auto
  then have "2 powi emin \<le> rnd p emin x"
    using rnd_mono [OF assms(1) assms(2), of emin] by simp
  moreover have "(0::rat) < 2 powi emin" by simp
  ultimately show ?thesis by linarith
qed

text \<open>With gradual underflow the rounded difference of two floats has the sign of the exact one.\<close>

lemma rnd_diff_pos:
  assumes p: "0 < p" and x: "flt p emin x" and y: "flt p emin y" and "y < x"
  shows "0 < rnd p emin (x - y)"
proof -
  have g: "\<exists>j. z = of_int j * 2 powi emin" if "flt p emin z" for z
  proof (rule rnd_form [OF p, of emin z])
    fix k e assume h: "rnd p emin z = of_int k * 2 powi e" "emin \<le> e"
    have "(2::rat) powi e = of_int (2 ^ nat (e - emin)) * 2 powi emin"
      using h(2) by (simp add: power_int_def [of _ "e - emin", symmetric] power_int_add [symmetric]
        flip: power_int_of_nat)
    then have "z = of_int (k * 2 ^ nat (e - emin)) * 2 powi emin" using h(1) that by (simp add: flt_def)
    then show ?thesis by blast
  qed
  from g [OF x] g [OF y] obtain j l where jl: "x = of_int j * 2 powi emin" "y = of_int l * 2 powi emin"
    by blast
  with \<open>y < x\<close> have "l < j" by simp
  then have "(1::rat) \<le> of_int (j - l)" by linarith
  then have "1 * 2 powi emin \<le> of_int (j - l) * (2::rat) powi emin" by (intro mult_right_mono) auto
  then have "2 powi emin \<le> x - y" by (simp add: jl left_diff_distrib)
  then show ?thesis by (rule rnd_pos [OF p])
qed

lemma rnd_diff_sign:
  assumes "0 < p" and "flt p emin x" and "flt p emin y"
  shows "(0 < rnd p emin (x - y)) = (y < x)" and "(rnd p emin (x - y) < 0) = (x < y)"
    and "(rnd p emin (x - y) = 0) = (x = y)"
proof -
  have n: "rnd p emin (x - y) = - rnd p emin (y - x)" using rnd_minus [of p emin "y - x"] by simp
  consider "x < y" | "x = y" | "y < x" by linarith
  then show "(0 < rnd p emin (x - y)) = (y < x)" "(rnd p emin (x - y) < 0) = (x < y)"
    "(rnd p emin (x - y) = 0) = (x = y)"
    using rnd_diff_pos [OF assms] rnd_diff_pos [OF assms(1) assms(3) assms(2)] n
    by (cases; force)+
qed

subsection \<open>Single and double precision\<close>

definition f32 :: "rat \<Rightarrow> rat" where "f32 = rnd 24 (- 149)"
definition f64 :: "rat \<Rightarrow> rat" where "f64 = rnd 53 (- 1074)"
definition is_f32 :: "rat \<Rightarrow> bool" where "is_f32 x \<longleftrightarrow> f32 x = x"
definition is_f64 :: "rat \<Rightarrow> bool" where "is_f64 x \<longleftrightarrow> f64 x = x"

text \<open>\<open>float\<close> or \<open>double\<close> to \<open>int\<close>: truncation, saturating as the ARM \<open>vcvt\<close> instruction does
  (out of range is undefined in C++); a further narrowing to \<open>short\<close> keeps the low 16 bits.\<close>

definition rtrunc :: "rat \<Rightarrow> int" where
  "rtrunc x = (if 0 \<le> x then \<lfloor>x\<rfloor> else \<lceil>x\<rceil>)"

definition f2s32 :: "rat \<Rightarrow> int" where
  "f2s32 x = max (- 2147483648) (min 2147483647 (rtrunc x))"

definition f2s16 :: "rat \<Rightarrow> int" where "f2s16 x = s16 (f2s32 x)"

lemma f32_0 [simp]: "f32 0 = 0" and f64_0 [simp]: "f64 0 = 0"
  by (simp_all add: f32_def f64_def)

lemma f32_mono: "x \<le> y \<Longrightarrow> f32 x \<le> f32 y" and f64_mono: "x \<le> y \<Longrightarrow> f64 x \<le> f64 y"
  by (simp_all add: f32_def f64_def rnd_mono)

lemma f32_minus [simp]: "f32 (- x) = - f32 x" and f64_minus [simp]: "f64 (- x) = - f64 x"
  by (simp_all add: f32_def f64_def)

lemma f32_idem [simp]: "f32 (f32 x) = f32 x" and f64_idem [simp]: "f64 (f64 x) = f64 x"
  by (simp_all add: f32_def f64_def rnd_idem)

lemma is_f32_f32 [simp]: "is_f32 (f32 x)" and is_f64_f64 [simp]: "is_f64 (f64 x)"
  by (simp_all add: is_f32_def is_f64_def)

lemma f32_of_int: "\<bar>n\<bar> \<le> 16777216 \<Longrightarrow> f32 (of_int n) = of_int n"
  and f64_of_int: "\<bar>m\<bar> \<le> 9007199254740992 \<Longrightarrow> f64 (of_int m) = of_int m"
  by (auto simp: f32_def f64_def intro!: rnd_of_int)

lemma f32_numeral: "(numeral n :: int) \<le> 16777216 \<Longrightarrow> f32 (numeral n) = numeral n"
  and f64_numeral: "(numeral n :: int) \<le> 9007199254740992 \<Longrightarrow> f64 (numeral n) = numeral n"
  using f32_of_int [of "numeral n"] f64_of_int [of "numeral n"] by simp_all

lemma is_f32_of_int: "\<bar>n\<bar> \<le> 16777216 \<Longrightarrow> is_f32 (of_int n)"
  by (simp add: is_f32_def f32_of_int)

lemma is_f32_is_f64: "is_f32 x \<Longrightarrow> is_f64 x"
proof -
  assume "is_f32 x"
  then have "rnd 24 (- 149) x = x" by (simp add: is_f32_def f32_def)
  moreover obtain k e where "rnd 24 (- 149) x = of_int k * 2 powi e" "\<bar>k\<bar> \<le> 2 ^ 24" "- 149 \<le> e"
    by (rule rnd_form [of 24 "- 149" x]) auto
  ultimately show "is_f64 x"
    using rnd_exact [of k 53 "- 1074" e] by (simp add: is_f64_def f64_def)
qed

lemma f32_le: "is_f32 y \<Longrightarrow> x \<le> y \<Longrightarrow> f32 x \<le> y" and f32_ge: "is_f32 y \<Longrightarrow> y \<le> x \<Longrightarrow> y \<le> f32 x"
  using f32_mono [of x y] f32_mono [of y x] by (simp_all add: is_f32_def)

lemma f64_le: "is_f64 y \<Longrightarrow> x \<le> y \<Longrightarrow> f64 x \<le> y" and f64_ge: "is_f64 y \<Longrightarrow> y \<le> x \<Longrightarrow> y \<le> f64 x"
  using f64_mono [of x y] f64_mono [of y x] by (simp_all add: is_f64_def)

lemma f32_nonneg: "0 \<le> x \<Longrightarrow> 0 \<le> f32 x" and f64_nonneg: "0 \<le> x \<Longrightarrow> 0 \<le> f64 x"
  by (simp_all add: f32_def f64_def rnd_nonneg)

lemma f32_diff_sign:
  assumes "is_f32 x" and "is_f32 y"
  shows "(0 < f32 (x - y)) = (y < x)" and "(f32 (x - y) < 0) = (x < y)" and "(f32 (x - y) = 0) = (x = y)"
  using rnd_diff_sign [of 24 "- 149" x y] assms
  by (simp_all add: is_f32_def f32_def flt_def)

lemma f64_diff_sign:
  assumes "is_f64 x" and "is_f64 y"
  shows "(0 < f64 (x - y)) = (y < x)" and "(f64 (x - y) < 0) = (x < y)" and "(f64 (x - y) = 0) = (x = y)"
  using rnd_diff_sign [of 53 "- 1074" x y] assms
  by (simp_all add: is_f64_def f64_def flt_def)

lemma rtrunc_of_int [simp]: "rtrunc (of_int k) = k"
  by (simp add: rtrunc_def)

lemma rtrunc_mono:
  assumes "x \<le> y"
  shows "rtrunc x \<le> rtrunc y"
proof -
  have "\<lceil>x\<rceil> \<le> \<lfloor>y\<rfloor>" if "x < 0" "0 \<le> y"
  proof -
    have "\<lceil>x\<rceil> \<le> 0" using that(1) by (simp add: ceiling_le_iff)
    also have "0 \<le> \<lfloor>y\<rfloor>" using that(2) by simp
    finally show ?thesis .
  qed
  with assms show ?thesis by (auto simp: rtrunc_def floor_mono ceiling_mono)
qed

lemma f2s32_mono: "x \<le> y \<Longrightarrow> f2s32 x \<le> f2s32 y"
  using rtrunc_mono [of x y] by (simp add: f2s32_def)

lemma f2s32_of_int: "- 2147483648 \<le> k \<Longrightarrow> k < 2147483648 \<Longrightarrow> f2s32 (of_int k) = k"
  by (simp add: f2s32_def)

lemma f2s32_range: "of_int a \<le> x \<Longrightarrow> x \<le> of_int b \<Longrightarrow> - 2147483648 \<le> a \<Longrightarrow> b < 2147483648 \<Longrightarrow>
    a \<le> f2s32 x \<and> f2s32 x \<le> b"
  using rtrunc_mono [of "of_int a" x] rtrunc_mono [of x "of_int b"] by (auto simp: f2s32_def)

lemma f2s16_range: "of_int a \<le> x \<Longrightarrow> x \<le> of_int b \<Longrightarrow> - 32768 \<le> a \<Longrightarrow> b < 32768 \<Longrightarrow>
    f2s16 x = f2s32 x \<and> a \<le> f2s16 x \<and> f2s16 x \<le> b"
  using f2s32_range [of a x b] by (simp add: f2s16_def s16_id)

lemma quarters [simp]: "is_f32 (1 / 4)" "is_f32 (1 / 2)" "is_f32 (3 / 4)" "is_f32 (1 / 8)" "is_f32 (3 / 8)"
  "is_f32 (5 / 8)" "is_f32 0" "is_f32 1"
  by (code_simp, code_simp, code_simp, code_simp, code_simp, code_simp, code_simp, code_simp)

end
