(* ===== verification/Area_Detect.thy ===== *)
theory Area_Detect
  imports Floats
begin

section \<open>The trapezoid detection area (pd/pd.cpp)\<close>

text \<open>
  \<open>Area_Info\<close>, the straight lines through its slanted sides and \<open>area_detect\<close>, which maps a
  detection box to an alarm level.  The lines are computed in single precision; the proofs bound
  the distance between the computed and the exact position of a side.  The corner array \<open>p\<close> of
  \<open>Area_Info\<close> is used by disabled code only and is left out.
\<close>

datatype PD_ALARM_TYPE = PD_ALARM_TYPE_NULL | PD_ALARM_TYPE_GREEN | PD_ALARM_TYPE_YELLOW
  | PD_ALARM_TYPE_RED | PD_ALARM_TYPE_BUTT

primrec alarm_code :: "PD_ALARM_TYPE \<Rightarrow> int" where
  "alarm_code PD_ALARM_TYPE_NULL = 0"
| "alarm_code PD_ALARM_TYPE_GREEN = 1"
| "alarm_code PD_ALARM_TYPE_YELLOW = 2"
| "alarm_code PD_ALARM_TYPE_RED = 3"
| "alarm_code PD_ALARM_TYPE_BUTT = 4"

lemma alarm_code_inj: "(alarm_code a = alarm_code b) = (a = b)"
  by (cases a; cases b) simp_all

text \<open>The enumeration is ordered by severity; the code compares its values.\<close>

instantiation PD_ALARM_TYPE :: linorder
begin

definition less_eq_PD_ALARM_TYPE :: "PD_ALARM_TYPE \<Rightarrow> PD_ALARM_TYPE \<Rightarrow> bool" where
  "a \<le> b \<longleftrightarrow> alarm_code a \<le> alarm_code b"

definition less_PD_ALARM_TYPE :: "PD_ALARM_TYPE \<Rightarrow> PD_ALARM_TYPE \<Rightarrow> bool" where
  "a < b \<longleftrightarrow> alarm_code a < alarm_code b"

instance
  by standard (auto simp: less_eq_PD_ALARM_TYPE_def less_PD_ALARM_TYPE_def alarm_code_inj
      dest: antisym [of "alarm_code _" "alarm_code _"])

end

record Algo_Result =
  ar_x1 :: int
  ar_y1 :: int
  ar_x2 :: int
  ar_y2 :: int
  alarm_type :: int

record Line_Info =
  line_k1 :: rat
  line_b1 :: rat
  line_k2 :: rat
  line_b2 :: rat

record Area_Info =
  line_top_x1 :: int
  line_top_x2 :: int
  line_bottom_x1 :: int
  line_bottom_x2 :: int
  line_top_y :: int
  line_second_y :: int
  line_third_y :: int
  line_bottom_y :: int
  line_info :: Line_Info
  recive_flag :: int

definition Area_Info_zero :: Area_Info where
  "Area_Info_zero = \<lparr>line_top_x1 = 0, line_top_x2 = 0, line_bottom_x1 = 0, line_bottom_x2 = 0,
     line_top_y = 0, line_second_y = 0, line_third_y = 0, line_bottom_y = 0,
     line_info = \<lparr>line_k1 = 0, line_b1 = 0, line_k2 = 0, line_b2 = 0\<rparr>, recive_flag = 0\<rparr>"

definition get_line_k :: "int \<Rightarrow> int \<Rightarrow> int \<Rightarrow> int \<Rightarrow> rat" where
  "get_line_k x1 y1 x2 y2 =
     (let fx1 = f32 (of_int x1); fy1 = f32 (of_int y1); fx2 = f32 (of_int x2); fy2 = f32 (of_int y2)
      in if fx1 = fx2 then 0 else f32 (f32 (fy1 - fy2) / f32 (fx1 - fx2)))"

definition get_line_b :: "int \<Rightarrow> int \<Rightarrow> int \<Rightarrow> int \<Rightarrow> rat" where
  "get_line_b x1 y1 x2 y2 =
     (let fx1 = f32 (of_int x1); fy1 = f32 (of_int y1); fx2 = f32 (of_int x2); fy2 = f32 (of_int y2)
      in if fx1 = fx2 then 0
         else f32 (f32 (f32 (fy1 * fx2) - f32 (fy2 * fx1)) / f32 (fx2 - fx1)))"

text \<open>The parameters of \<open>get_line_k\<close> and \<open>get_line_b\<close> are \<open>uint32\<close>: a \<open>short\<close> is converted.\<close>

definition get_line_info :: "Area_Info \<Rightarrow> Area_Info" where
  "get_line_info a =
     (let bx1 = u32 (line_bottom_x1 a); bx2 = u32 (line_bottom_x2 a); by = u32 (line_bottom_y a);
          tx1 = u32 (line_top_x1 a); tx2 = u32 (line_top_x2 a); ty = u32 (line_top_y a)
      in a\<lparr>line_info := \<lparr>line_k1 = get_line_k bx1 by tx1 ty, line_b1 = get_line_b bx1 by tx1 ty,
             line_k2 = get_line_k bx2 by tx2 ty, line_b2 = get_line_b bx2 by tx2 ty\<rparr>\<rparr>)"

definition Area_Info_init :: Area_Info where
  "Area_Info_init = (get_line_info (Area_Info_zero
     \<lparr>line_top_x1 := 390, line_top_x2 := 640, line_bottom_x1 := 165, line_bottom_x2 := 865,
      line_top_y := 180, line_second_y := 315, line_third_y := 450, line_bottom_y := 580\<rparr>))
     \<lparr>recive_flag := 1\<rparr>"

text \<open>The abscissa of a slanted side at height \<open>y\<close>; a vertical side uses the corner \<open>x0\<close>.\<close>

definition side_x :: "rat \<Rightarrow> rat \<Rightarrow> int \<Rightarrow> int \<Rightarrow> int" where
  "side_x k b x0 y = (if k \<noteq> 0 then f2s32 (f32 (f32 (f32 (of_int y) - b) / k)) else x0)"

definition area_detect :: "bool \<Rightarrow> Algo_Result \<Rightarrow> Area_Info \<Rightarrow> PD_ALARM_TYPE" where
  "area_detect DETECT_AREA_EN result A =
     (if DETECT_AREA_EN then
        if recive_flag A \<noteq> 0 then
          if ar_y2 result \<le> line_bottom_y A \<and> line_top_y A \<le> ar_y2 result then
            let xl_top = side_x (line_k1 (line_info A)) (line_b1 (line_info A)) (line_top_x1 A) (ar_y2 result);
                xr_top = side_x (line_k2 (line_info A)) (line_b2 (line_info A)) (line_top_x2 A) (ar_y2 result)
            in if ar_x2 result < xl_top \<or> xr_top < ar_x1 result then PD_ALARM_TYPE_NULL
               else if ar_y2 result \<le> line_second_y A then PD_ALARM_TYPE_GREEN
               else if ar_y2 result \<le> line_third_y A then PD_ALARM_TYPE_YELLOW
               else PD_ALARM_TYPE_RED
          else if ar_y1 result \<le> line_bottom_y A \<and> line_top_y A \<le> ar_y1 result then
            let xl_bottom = side_x (line_k1 (line_info A)) (line_b1 (line_info A)) (line_bottom_x1 A) (ar_y1 result);
                xr_bottom = side_x (line_k2 (line_info A)) (line_b2 (line_info A)) (line_bottom_x2 A) (ar_y1 result)
            in if ar_x1 result < xl_bottom \<or> xr_bottom < ar_x1 result then PD_ALARM_TYPE_NULL
               else PD_ALARM_TYPE_RED
          else if ar_y1 result < line_top_y A \<and> line_bottom_y A < ar_y2 result then
            if line_bottom_x1 A < ar_x2 result \<and> line_bottom_x2 A < ar_x2 result \<or>
               ar_x1 result < line_bottom_x2 A \<and> line_bottom_x1 A < ar_x1 result then
              if line_third_y A < ar_y2 result then PD_ALARM_TYPE_RED
              else if line_second_y A < ar_y2 result then PD_ALARM_TYPE_YELLOW
              else PD_ALARM_TYPE_GREEN
            else PD_ALARM_TYPE_NULL
          else PD_ALARM_TYPE_NULL
        else PD_ALARM_TYPE_NULL
      else if ar_y2 result \<le> 200 then PD_ALARM_TYPE_GREEN
      else if ar_y2 result \<le> 400 then PD_ALARM_TYPE_YELLOW
      else PD_ALARM_TYPE_RED)"

subsection \<open>How accurate the sides are\<close>

text \<open>A rounding moves a value by at most \<open>2 ^ -24\<close> of it, or by \<open>2 ^ -150\<close> near zero.\<close>

lemma f32_error: "\<bar>f32 x - x\<bar> \<le> \<bar>x\<bar> / 16777216 + 1 / 2 ^ 150"
proof (cases "x = 0")
  case False
  have "\<bar>rnd 24 (- 149) x - x\<bar> \<le> 2 powi ulp_exp 24 (- 149) x / 2" by (rule rnd_error)
  moreover have "(2::rat) powi ulp_exp 24 (- 149) x / 2 \<le> \<bar>x\<bar> / 16777216 + 1 / 2 ^ 150"
  proof (cases "- 149 \<le> ilog2 \<bar>x\<bar> - 23")
    case True
    then have "ulp_exp 24 (- 149) x = ilog2 \<bar>x\<bar> - 23" using False by (simp add: ulp_exp_def)
    then have "(2::rat) powi ulp_exp 24 (- 149) x = 2 powi ilog2 \<bar>x\<bar> / 2 ^ 23"
      by (simp add: power_int_diff)
    moreover have "(2::rat) powi ilog2 \<bar>x\<bar> \<le> \<bar>x\<bar>" using False by (intro ilog2_bounds) simp
    ultimately show ?thesis by simp
  next
    case no: False
    then have "ulp_exp 24 (- 149) x = - 149" using False by (simp add: ulp_exp_def)
    then show ?thesis by (simp add: power_int_minus)
  qed
  ultimately show ?thesis unfolding f32_def by linarith
qed simp

lemma rtrunc_error: "\<bar>of_int (rtrunc x) - x\<bar> < 1"
  unfolding rtrunc_def by (auto simp: abs_if; linarith)

text \<open>The side through \<open>(x1, y1)\<close> and \<open>(x2, y2)\<close>: slope and intercept are rounded once.\<close>

lemma side_rounded_once:
  fixes x1 y1 x2 y2 :: int
  assumes r: "x1 \<in> {0..2047}" "x2 \<in> {0..2047}" "y1 \<in> {0..2047}" "y2 \<in> {0..2047}" and ne: "x1 \<noteq> x2"
  shows "get_line_k x1 y1 x2 y2 = f32 (of_int (y1 - y2) / of_int (x1 - x2))"
    and "get_line_b x1 y1 x2 y2 = f32 (of_int (y1 * x2 - y2 * x1) / of_int (x2 - x1))"
proof -
  have i: "f32 (of_int v) = of_int v" if "v \<in> {0..2047}" for v using that by (intro f32_of_int) auto
  have d: "f32 (of_int a - of_int b) = of_int (a - b)" if "a \<in> {0..2047}" "b \<in> {0..2047}" for a b
    using that f32_of_int [of "a - b"] by (simp add: abs_le_iff)
  have m: "f32 (of_int a * of_int b) = of_int (a * b)" "\<bar>a * b\<bar> \<le> 4190209" if "a \<in> {0..2047}" "b \<in> {0..2047}" for a b
  proof -
    have "a * b \<le> 2047 * 2047" using that by (intro mult_mono) auto
    then show "\<bar>a * b\<bar> \<le> 4190209" using that by simp
    then show "f32 (of_int a * of_int b) = of_int (a * b)" using f32_of_int [of "a * b"] by simp
  qed
  have s: "f32 (of_int (y1 * x2) - of_int (y2 * x1)) = of_int (y1 * x2 - y2 * x1)"
    using m(2) [OF r(3) r(2)] m(2) [OF r(4) r(1)] f32_of_int [of "y1 * x2 - y2 * x1"] by (simp add: abs_le_iff)
  show "get_line_k x1 y1 x2 y2 = f32 (of_int (y1 - y2) / of_int (x1 - x2))"
    using ne by (simp only: get_line_k_def i r d Let_def) simp
  show "get_line_b x1 y1 x2 y2 = f32 (of_int (y1 * x2 - y2 * x1) / of_int (x2 - x1))"
    using ne by (simp only: get_line_b_def i r m s d Let_def) simp
qed

text \<open>Rounding slope, intercept, difference and quotient moves the side by less than half a pixel.\<close>

lemma division_error:
  fixes X k b y :: rat
  assumes X: "0 \<le> X" "X \<le> 2047" and k: "1 / 2047 \<le> \<bar>k\<bar>" and b: "\<bar>b\<bar> \<le> 2047 * (1 + \<bar>k\<bar>)"
    and on: "y - b = k * X"
  shows "\<bar>f32 (f32 (y - f32 b) / f32 k) - X\<bar> < 1 / 2" and "f32 k \<noteq> 0"
proof -
  let ?K = "f32 k" and ?B = "f32 b"
  let ?D = "f32 (y - ?B)"
  let ?q = "f32 (?D / ?K)"
  define m where "m = \<bar>k\<bar>"
  define e1 where "e1 = \<bar>?K - k\<bar>"
  define e2 where "e2 = \<bar>?B - b\<bar>"
  define e3 where "e3 = \<bar>?D - (y - ?B)\<bar>"
  have t: "(1::rat) / 2 ^ 150 \<le> 1 / 1000000000000" by simp
  have E1: "e1 \<le> m / 16777216 + 1 / 1000000000000"
    using f32_error [of k] t by (simp add: e1_def m_def)
  have E2: "e2 \<le> 2047 * (1 + m) / 16777216 + 1 / 1000000000000"
  proof -
    have "\<bar>b\<bar> / 16777216 \<le> 2047 * (1 + m) / 16777216" using b by (simp add: m_def divide_right_mono)
    then show ?thesis using f32_error [of b] t unfolding e2_def by linarith
  qed
  have kX: "\<bar>k * X\<bar> \<le> 2047 * m"
    using X mult_left_mono [of X 2047 "\<bar>k\<bar>"] by (simp add: abs_mult m_def mult.commute)
  have "\<bar>y - ?B\<bar> \<le> 2047 * m + e2" using on kX by (simp add: e2_def)
  then have E3: "e3 \<le> (2047 * m + e2) / 16777216 + 1 / 1000000000000"
  proof -
    assume "\<bar>y - ?B\<bar> \<le> 2047 * m + e2"
    then have "\<bar>y - ?B\<bar> / 16777216 \<le> (2047 * m + e2) / 16777216" by (simp add: divide_right_mono)
    then show ?thesis using f32_error [of "y - ?B"] t unfolding e3_def by linarith
  qed
  have m: "1 / 2047 \<le> m" using k by (simp add: m_def)
  have K: "m - e1 \<le> \<bar>?K\<bar>" by (simp add: e1_def m_def)
  have e1X: "\<bar>(?K - k) * X\<bar> \<le> 2047 * e1"
    using X mult_left_mono [of X 2047 e1] by (simp add: abs_mult e1_def mult.commute)
  have "?D - ?K * X = (?D - (y - ?B)) - (?B - b) - (?K - k) * X"
    using on by (simp add: algebra_simps)
  then have "\<bar>?D - ?K * X\<bar> \<le> e3 + e2 + 2047 * e1"
    using e1X by (simp add: e3_def e2_def)
  also have "\<dots> \<le> 3 / 10 * (m - e1)"
  proof -
    have "e1 \<le> m / 1000000" "e2 \<le> 26 / 100 * m" using E1 E2 m by (simp_all add: field_simps)
    moreover from this(2) E3 m have "e3 \<le> m / 1000" by (simp add: field_simps)
    ultimately show ?thesis using m by simp
  qed
  also have "\<dots> \<le> 3 / 10 * \<bar>?K\<bar>" using K by simp
  finally have D: "\<bar>?D - ?K * X\<bar> \<le> 3 / 10 * \<bar>?K\<bar>" .
  have "0 < m - e1" using E1 m by simp
  then show K0: "?K \<noteq> 0" using K by auto
  have "\<bar>?D / ?K - X\<bar> = \<bar>?D - ?K * X\<bar> / \<bar>?K\<bar>"
    using K0 by (simp add: abs_divide [symmetric] diff_divide_distrib)
  also have "\<dots> \<le> 3 / 10" using D K0 by (simp add: divide_le_eq)
  finally have q0: "\<bar>?D / ?K - X\<bar> \<le> 3 / 10" .
  then have "\<bar>?D / ?K\<bar> \<le> 2048" using X by linarith
  then have "\<bar>?q - ?D / ?K\<bar> \<le> 2048 / 16777216 + 1 / 1000000000000"
    using f32_error [of "?D / ?K"] t by simp
  then show "\<bar>?q - X\<bar> < 1 / 2" using q0 by linarith
qed

text \<open>The abscissa of the straight side from corner \<open>(bx, by)\<close> to corner \<open>(tx, ty)\<close> at height \<open>y\<close>.\<close>

definition exact_side :: "int \<Rightarrow> int \<Rightarrow> int \<Rightarrow> int \<Rightarrow> int \<Rightarrow> rat" where
  "exact_side bx by' tx ty y = of_int bx + of_int ((by' - y) * (tx - bx)) / of_int (by' - ty)"

lemma exact_side_range:
  assumes "ty \<le> y" "y \<le> by'" "ty < by'" "bx \<in> {0..2047}" "tx \<in> {0..2047}"
  shows "0 \<le> exact_side bx by' tx ty y \<and> exact_side bx by' tx ty y \<le> 2047"
proof -
  define s :: rat where "s = of_int (by' - y) / of_int (by' - ty)"
  have s: "0 \<le> s" "s \<le> 1" using assms by (simp_all add: s_def)
  have e: "exact_side bx by' tx ty y = (1 - s) * of_int bx + s * of_int tx"
  proof -
    have "of_int ((by' - y) * (tx - bx)) / of_int (by' - ty) = s * (of_int tx - of_int bx)"
      by (simp add: s_def)
    then show ?thesis by (simp add: exact_side_def algebra_simps)
  qed
  have "(1 - s) * of_int bx + s * of_int tx \<le> (1 - s) * 2047 + s * 2047"
    using s assms(4,5) by (intro add_mono mult_left_mono) auto
  then show ?thesis using s assms(4,5) by (simp add: e)
qed

lemma side_x_accurate:
  assumes r: "bx \<in> {0..2047}" "tx \<in> {0..2047}" "by' \<in> {0..2047}" "ty \<in> {0..2047}"
    and y: "ty \<le> y" "y \<le> by'" "ty < by'" and x0: "bx = tx \<Longrightarrow> x0 = bx"
  shows "\<bar>of_int (side_x (get_line_k bx by' tx ty) (get_line_b bx by' tx ty) x0 y) - exact_side bx by' tx ty y\<bar> < 3 / 2"
proof (cases "bx = tx")
  case True
  then have "side_x (get_line_k bx by' tx ty) (get_line_b bx by' tx ty) x0 y = x0"
    by (simp add: side_x_def get_line_k_def)
  then show ?thesis using True x0 by (simp add: exact_side_def)
next
  case False
  define k :: rat where "k = of_int (by' - ty) / of_int (bx - tx)"
  define b :: rat where "b = of_int (by' * tx - ty * bx) / of_int (tx - bx)"
  let ?X = "exact_side bx by' tx ty y"
  let ?q = "f32 (f32 (of_int y - f32 b) / f32 k)"
  have d: "(of_int (bx - tx) :: rat) \<noteq> 0" "(of_int (tx - bx) :: rat) \<noteq> 0" "(of_int (by' - ty) :: rat) \<noteq> 0"
    using False y by simp_all
  have bk: "b = of_int by' - k * of_int bx"
    using d by (simp add: b_def k_def field_simps)
  have "1 * (1 / 2047) \<le> \<bar>k\<bar>"
  proof -
    have "\<bar>of_int (bx - tx)\<bar> \<le> (2047::rat)" using r by (auto simp: abs_le_iff simp flip: of_int_diff)
    moreover have "1 \<le> (of_int (by' - ty) :: rat)" using y by simp
    ultimately have "1 / 2047 \<le> \<bar>of_int (by' - ty)\<bar> / \<bar>of_int (bx - tx) :: rat\<bar>"
      using d(1) y by (intro frac_le) auto
    then show ?thesis by (simp add: k_def abs_divide)
  qed
  moreover have "\<bar>b\<bar> \<le> 2047 * (1 + \<bar>k\<bar>)"
  proof -
    have "\<bar>b\<bar> \<le> of_int by' + \<bar>k\<bar> * of_int bx"
      using r abs_triangle_ineq4 [of "of_int by'" "k * of_int bx"] by (simp add: bk abs_mult)
    also have "\<dots> \<le> 2047 + \<bar>k\<bar> * 2047" using r by (intro add_mono mult_left_mono) auto
    finally show ?thesis by (simp add: algebra_simps)
  qed
  moreover have "of_int y - b = k * ?X"
  proof -
    have "k * of_int (tx - bx) = - of_int (by' - ty)"
    proof -
      have "k * of_int (bx - tx) = of_int (by' - ty)" unfolding k_def by (rule nonzero_eq_divide_eq [OF d(1), THEN iffD1]) (rule refl)
      then show ?thesis by (simp add: right_diff_distrib)
    qed
    then have "k * (of_int (by' - y) * of_int (tx - bx) / of_int (by' - ty)) =
        of_int (by' - y) * - of_int (by' - ty) / of_int (by' - ty)"
      by (metis mult.left_commute times_divide_eq_right)
    also have "\<dots> = - of_int (by' - y)" using d(3) by (simp del: of_int_diff)
    finally have "k * (of_int ((by' - y) * (tx - bx)) / of_int (by' - ty)) = - of_int (by' - y)"
      by (simp only: of_int_mult)
    then show ?thesis by (simp add: bk exact_side_def distrib_left)
  qed
  moreover have "0 \<le> ?X" "?X \<le> 2047" using exact_side_range y r by auto
  ultimately have q: "\<bar>?q - ?X\<bar> < 1 / 2" "f32 k \<noteq> 0"
    using division_error [of ?X k b "of_int y"] by simp_all
  have "f32 (of_int y) = of_int y" using y r by (intro f32_of_int) auto
  then have s: "side_x (get_line_k bx by' tx ty) (get_line_b bx by' tx ty) x0 y = f2s32 ?q"
    using side_rounded_once [OF r False] q(2) by (simp add: side_x_def k_def b_def)
  have "of_int (- 1) \<le> ?q" "?q \<le> of_int 2048" using q(1) \<open>0 \<le> ?X\<close> \<open>?X \<le> 2047\<close> by (simp_all add: abs_if split: if_splits)
  then have "f2s32 ?q = rtrunc ?q"
    using rtrunc_mono [of "of_int (- 1)" ?q] rtrunc_mono [of ?q "of_int 2048"] by (simp add: f2s32_def del: of_int_minus of_int_numeral)
  then show ?thesis using s q(1) rtrunc_error [of ?q] by linarith
qed

subsection \<open>Properties\<close>

text \<open>An area on the 1280 by 720 screen (with room to spare), top above bottom.\<close>

definition area_wf :: "Area_Info \<Rightarrow> bool" where
  "area_wf A \<longleftrightarrow> line_top_x1 A \<in> {0..2047} \<and> line_top_x2 A \<in> {0..2047} \<and>
     line_bottom_x1 A \<in> {0..2047} \<and> line_bottom_x2 A \<in> {0..2047} \<and>
     line_top_y A \<in> {0..2047} \<and> line_bottom_y A \<in> {0..2047} \<and> line_top_y A < line_bottom_y A"

definition left_side :: "Area_Info \<Rightarrow> int \<Rightarrow> rat" where
  "left_side A = exact_side (line_bottom_x1 A) (line_bottom_y A) (line_top_x1 A) (line_top_y A)"

definition right_side :: "Area_Info \<Rightarrow> int \<Rightarrow> rat" where
  "right_side A = exact_side (line_bottom_x2 A) (line_bottom_y A) (line_top_x2 A) (line_top_y A)"

lemma get_line_info_simps [simp]:
  "line_top_x1 (get_line_info A) = line_top_x1 A" "line_top_x2 (get_line_info A) = line_top_x2 A"
  "line_bottom_x1 (get_line_info A) = line_bottom_x1 A" "line_bottom_x2 (get_line_info A) = line_bottom_x2 A"
  "line_top_y (get_line_info A) = line_top_y A" "line_bottom_y (get_line_info A) = line_bottom_y A"
  "line_second_y (get_line_info A) = line_second_y A" "line_third_y (get_line_info A) = line_third_y A"
  "recive_flag (get_line_info A) = recive_flag A"
  by (simp_all add: get_line_info_def Let_def)

lemma sides_accurate:
  assumes wf: "area_wf A" and y: "line_top_y A \<le> y" "y \<le> line_bottom_y A"
    and L: "L = line_info (get_line_info A)"
    and x1: "x1 = line_bottom_x1 A \<or> x1 = line_top_x1 A" and x2: "x2 = line_bottom_x2 A \<or> x2 = line_top_x2 A"
  shows "\<bar>of_int (side_x (line_k1 L) (line_b1 L) x1 y) - left_side A y\<bar> < 3 / 2"
    and "\<bar>of_int (side_x (line_k2 L) (line_b2 L) x2 y) - right_side A y\<bar> < 3 / 2"
proof -
  have u: "u32 v = v" if "v \<in> {0..2047}" for v using that by (simp add: u32_id)
  note w = wf [unfolded area_wf_def]
  have L': "L = \<lparr>line_k1 = get_line_k (line_bottom_x1 A) (line_bottom_y A) (line_top_x1 A) (line_top_y A),
      line_b1 = get_line_b (line_bottom_x1 A) (line_bottom_y A) (line_top_x1 A) (line_top_y A),
      line_k2 = get_line_k (line_bottom_x2 A) (line_bottom_y A) (line_top_x2 A) (line_top_y A),
      line_b2 = get_line_b (line_bottom_x2 A) (line_bottom_y A) (line_top_x2 A) (line_top_y A)\<rparr>"
    using w by (simp add: L get_line_info_def Let_def u)
  show "\<bar>of_int (side_x (line_k1 L) (line_b1 L) x1 y) - left_side A y\<bar> < 3 / 2"
    using side_x_accurate [of "line_bottom_x1 A" "line_top_x1 A" "line_bottom_y A" "line_top_y A" y x1] w y x1
    by (auto simp: L' left_side_def)
  show "\<bar>of_int (side_x (line_k2 L) (line_b2 L) x2 y) - right_side A y\<bar> < 3 / 2"
    using side_x_accurate [of "line_bottom_x2 A" "line_top_x2 A" "line_bottom_y A" "line_top_y A" y x2] w y x2
    by (auto simp: L' right_side_def)
qed

text \<open> the sides of the detection area computed in single precision are within a pixel and a half of
  the straight lines through its corners, at every height of the area and for every area on the screen,
  vertical sides included.\<close>

theorem area_sides_accurate:
  assumes "area_wf A" and "line_top_y A \<le> y" and "y \<le> line_bottom_y A"
  shows "let L = line_info (get_line_info A) in
    \<bar>of_int (side_x (line_k1 L) (line_b1 L) (line_top_x1 A) y) - left_side A y\<bar> < 3 / 2 \<and>
    \<bar>of_int (side_x (line_k2 L) (line_b2 L) (line_top_x2 A) y) - right_side A y\<bar> < 3 / 2"
  unfolding Let_def using sides_accurate [OF assms refl disjI2 [OF refl] disjI2 [OF refl]] by blast

lemma Area_Info_init_wf: "area_wf Area_Info_init"
  by (simp add: Area_Info_init_def area_wf_def Area_Info_zero_def)

theorem area_sides_accurate_witness:
  "let L = line_info (get_line_info Area_Info_init) in
    \<bar>of_int (side_x (line_k1 L) (line_b1 L) (line_top_x1 Area_Info_init) 400) - left_side Area_Info_init 400\<bar> < 3 / 2"
proof -
  have "line_top_y Area_Info_init \<le> 400" "400 \<le> line_bottom_y Area_Info_init"
    by (simp_all add: Area_Info_init_def)
  from area_sides_accurate [OF Area_Info_init_wf this] show ?thesis by (simp add: Let_def)
qed

text \<open>C9: the level of a box whose lower edge is inside the area.  With area detection on and an area
  received, the box is silent when it ends left of the left side or starts right of the right side by
  a pixel and a half or more; it has the level of the band its lower edge is in when it reaches as far
  into the area.  (Within a pixel and a half of a side the rounding decides.)\<close>

theorem area_detect_foot:
  assumes wf: "area_wf A" and flag: "recive_flag A \<noteq> 0"
    and y: "line_top_y A \<le> ar_y2 r" "ar_y2 r \<le> line_bottom_y A"
  shows "(of_int (ar_x2 r) \<le> left_side A (ar_y2 r) - 3 / 2 \<or> right_side A (ar_y2 r) + 3 / 2 \<le> of_int (ar_x1 r) \<longrightarrow>
      area_detect True r (get_line_info A) = PD_ALARM_TYPE_NULL) \<and>
    (left_side A (ar_y2 r) + 3 / 2 \<le> of_int (ar_x2 r) \<and> of_int (ar_x1 r) \<le> right_side A (ar_y2 r) - 3 / 2 \<longrightarrow>
      area_detect True r (get_line_info A) =
        (if ar_y2 r \<le> line_second_y A then PD_ALARM_TYPE_GREEN
         else if ar_y2 r \<le> line_third_y A then PD_ALARM_TYPE_YELLOW else PD_ALARM_TYPE_RED))"
proof -
  let ?L = "line_info (get_line_info A)"
  note s = sides_accurate [OF wf y refl disjI2 [OF refl] disjI2 [OF refl]]
  have e: "area_detect True r (get_line_info A) =
      (if ar_x2 r < side_x (line_k1 ?L) (line_b1 ?L) (line_top_x1 A) (ar_y2 r) \<or>
          side_x (line_k2 ?L) (line_b2 ?L) (line_top_x2 A) (ar_y2 r) < ar_x1 r then PD_ALARM_TYPE_NULL
       else if ar_y2 r \<le> line_second_y A then PD_ALARM_TYPE_GREEN
       else if ar_y2 r \<le> line_third_y A then PD_ALARM_TYPE_YELLOW else PD_ALARM_TYPE_RED)"
    using y flag by (simp add: area_detect_def Let_def)
  show ?thesis
  proof (intro conjI impI)
    assume "of_int (ar_x2 r) \<le> left_side A (ar_y2 r) - 3 / 2 \<or> right_side A (ar_y2 r) + 3 / 2 \<le> of_int (ar_x1 r)"
    then have "ar_x2 r < side_x (line_k1 ?L) (line_b1 ?L) (line_top_x1 A) (ar_y2 r) \<or>
        side_x (line_k2 ?L) (line_b2 ?L) (line_top_x2 A) (ar_y2 r) < ar_x1 r"
    proof
      assume "of_int (ar_x2 r) \<le> left_side A (ar_y2 r) - 3 / 2"
      with s(1) have "(of_int (ar_x2 r) :: rat) < of_int (side_x (line_k1 ?L) (line_b1 ?L) (line_top_x1 A) (ar_y2 r))"
        by linarith
      then show ?thesis by simp
    next
      assume "right_side A (ar_y2 r) + 3 / 2 \<le> of_int (ar_x1 r)"
      with s(2) have "of_int (side_x (line_k2 ?L) (line_b2 ?L) (line_top_x2 A) (ar_y2 r)) < (of_int (ar_x1 r) :: rat)"
        by linarith
      then show ?thesis by simp
    qed
    then show "area_detect True r (get_line_info A) = PD_ALARM_TYPE_NULL" by (simp add: e)
  next
    assume "left_side A (ar_y2 r) + 3 / 2 \<le> of_int (ar_x2 r) \<and> of_int (ar_x1 r) \<le> right_side A (ar_y2 r) - 3 / 2"
    then have "(of_int (side_x (line_k1 ?L) (line_b1 ?L) (line_top_x1 A) (ar_y2 r)) :: rat) < of_int (ar_x2 r)"
      "(of_int (ar_x1 r) :: rat) < of_int (side_x (line_k2 ?L) (line_b2 ?L) (line_top_x2 A) (ar_y2 r))"
      using s by linarith+
    then show "area_detect True r (get_line_info A) =
        (if ar_y2 r \<le> line_second_y A then PD_ALARM_TYPE_GREEN
         else if ar_y2 r \<le> line_third_y A then PD_ALARM_TYPE_YELLOW else PD_ALARM_TYPE_RED)"
      by (simp add: e)
  qed
qed

theorem area_detect_foot_witness:
  "let r = \<lparr>ar_x1 = 400, ar_y1 = 200, ar_x2 = 500, ar_y2 = 460, alarm_type = 0\<rparr> in
   area_detect True r (get_line_info Area_Info_init) = PD_ALARM_TYPE_RED"
proof -
  define r where "r = \<lparr>ar_x1 = 400, ar_y1 = 200, ar_x2 = 500, ar_y2 = 460, alarm_type = 0\<rparr>"
  have a: "recive_flag Area_Info_init \<noteq> 0" "line_top_y Area_Info_init \<le> ar_y2 r" "ar_y2 r \<le> line_bottom_y Area_Info_init"
    "line_second_y Area_Info_init = 315" "line_third_y Area_Info_init = 450"
    by (simp_all add: Area_Info_init_def r_def)
  have "left_side Area_Info_init 460 + 3 / 2 \<le> 500" "400 \<le> right_side Area_Info_init 460 - 3 / 2"
    by (simp_all add: Area_Info_init_def left_side_def right_side_def exact_side_def)
  with area_detect_foot [OF Area_Info_init_wf a(1-3)] a(4,5)
  have "area_detect True r (get_line_info Area_Info_init) = PD_ALARM_TYPE_RED"
    by (simp add: r_def)
  then show ?thesis by (simp add: r_def)
qed

text \<open> with area detection on and no area received no box ever raises an alarm; with it off every box
  does, at a level given by the height of its lower edge alone.\<close>

theorem area_detect_gating:
  "(recive_flag A = 0 \<longrightarrow> area_detect True r A = PD_ALARM_TYPE_NULL) \<and>
   area_detect False r A \<noteq> PD_ALARM_TYPE_NULL \<and>
   (ar_y2 r \<le> ar_y2 r' \<longrightarrow> area_detect False r A \<le> area_detect False r' A')"
  by (auto simp: area_detect_def less_eq_PD_ALARM_TYPE_def)

theorem area_detect_gating_witness:
  "area_detect True \<lparr>ar_x1 = 400, ar_y1 = 200, ar_x2 = 500, ar_y2 = 460, alarm_type = 0\<rparr> Area_Info_zero =
   PD_ALARM_TYPE_NULL"
  using area_detect_gating [of Area_Info_zero "\<lparr>ar_x1 = 400, ar_y1 = 200, ar_x2 = 500, ar_y2 = 460, alarm_type = 0\<rparr>"]
  by (simp add: Area_Info_zero_def)

text \<open> a box taller than the area alarms however far to the right of the area it is: the test of this
  case compares its right edge with both lower corners from the same side.\<close>

theorem area_detect_tall_box_right:
  assumes "recive_flag A \<noteq> 0" and "ar_y1 r < line_top_y A" and "line_bottom_y A < ar_y2 r"
    and "line_top_y A \<le> line_bottom_y A" and "line_bottom_x1 A \<le> line_bottom_x2 A" and "line_bottom_x2 A < ar_x1 r"
    and "ar_x1 r \<le> ar_x2 r" and "line_third_y A \<le> line_bottom_y A"
  shows "area_detect True r A = PD_ALARM_TYPE_RED"
  using assms by (simp add: area_detect_def)

theorem area_detect_tall_box_right_witness:
  "area_detect True \<lparr>ar_x1 = 1200, ar_y1 = 100, ar_x2 = 1270, ar_y2 = 700, alarm_type = 0\<rparr> Area_Info_init =
   PD_ALARM_TYPE_RED"
  by (rule area_detect_tall_box_right) (simp_all add: Area_Info_init_def)

end
