(* ===== verification/Geometry.thy ===== *)
theory Geometry
  imports Area_Detect
begin

section \<open>Plane geometry of the warning zones (pd/pd.cpp)\<close>

text \<open>
  The intersection tests between a detection box and a zone.  Points have \<open>double\<close> coordinates; every
  arithmetic operation is rounded by itself (no fused multiply-add).  Arrays of points are lists and
  their lengths replace the count parameters.  The proofs are about points whose coordinates are
  single-precision values, as those of the detector are.
\<close>

record SV_POINT2 =
  dX :: rat
  dY :: rat

abbreviation dadd :: "rat \<Rightarrow> rat \<Rightarrow> rat" where "dadd a b \<equiv> f64 (a + b)"
abbreviation dsub :: "rat \<Rightarrow> rat \<Rightarrow> rat" where "dsub a b \<equiv> f64 (a - b)"
abbreviation dmul :: "rat \<Rightarrow> rat \<Rightarrow> rat" where "dmul a b \<equiv> f64 (a * b)"
abbreviation ddiv :: "rat \<Rightarrow> rat \<Rightarrow> rat" where "ddiv a b \<equiv> f64 (a / b)"
abbreviation fadd :: "rat \<Rightarrow> rat \<Rightarrow> rat" where "fadd a b \<equiv> f32 (a + b)"
abbreviation fsub :: "rat \<Rightarrow> rat \<Rightarrow> rat" where "fsub a b \<equiv> f32 (a - b)"
abbreviation fmul :: "rat \<Rightarrow> rat \<Rightarrow> rat" where "fmul a b \<equiv> f32 (a * b)"
abbreviation fdiv :: "rat \<Rightarrow> rat \<Rightarrow> rat" where "fdiv a b \<equiv> f32 (a / b)"

subsection \<open>The tests\<close>

definition pd_Rect2Intersect :: "SV_POINT2 \<Rightarrow> SV_POINT2 \<Rightarrow> SV_POINT2 \<Rightarrow> SV_POINT2 \<Rightarrow> bool" where
  "pd_Rect2Intersect lt1 rb1 lt2 rb2 =
     (let c1x = ddiv (dadd (dX lt1) (dX rb1)) 2; c1y = ddiv (dadd (dY lt1) (dY rb1)) 2;
          c2x = ddiv (dadd (dX lt2) (dX rb2)) 2; c2y = ddiv (dadd (dY lt2) (dY rb2)) 2;
          w1 = dsub (dX rb1) (dX lt1); h1 = dsub (dY rb1) (dY lt1);
          w2 = dsub (dX rb2) (dX lt2); h2 = dsub (dY rb2) (dY lt2)
      in \<bar>dsub c1x c2x\<bar> \<le> dadd (ddiv w1 2) (ddiv w2 2) \<and> \<bar>dsub c1y c2y\<bar> \<le> dadd (ddiv h1 2) (ddiv h2 2))"

definition pd_IntervalOverlap :: "rat \<Rightarrow> rat \<Rightarrow> rat \<Rightarrow> rat \<Rightarrow> bool" where
  "pd_IntervalOverlap x1 x2 x3 x4 =
     (let (x3, x4) = (if x4 < x3 then (x4, x3) else (x3, x4))
      in if x2 < x3 \<or> x4 < x1 then False else True)"

definition pd_RectLineIntersect :: "SV_POINT2 \<Rightarrow> SV_POINT2 \<Rightarrow> SV_POINT2 \<Rightarrow> SV_POINT2 \<Rightarrow> bool" where
  "pd_RectLineIntersect lt rb pa pb =
     (if dY pa = dY pb then pd_IntervalOverlap (dX lt) (dX rb) (dX pa) (dX pb)
      else let (pa, pb) = (if dY pb < dY pa then (pb, pa) else (pa, pb));
        k = ddiv (dsub (dX pb) (dX pa)) (dsub (dY pb) (dY pa));
        pc = (if dY pa < dY lt then \<lparr>dX = dadd (dmul k (dsub (dY lt) (dY pa))) (dX pa), dY = dY lt\<rparr> else pa);
        pd = (if dY rb < dY pb then \<lparr>dX = dadd (dmul k (dsub (dY rb) (dY pa))) (dX pa), dY = dY rb\<rparr> else pb)
      in if dY pc \<le> dY pd then pd_IntervalOverlap (dX lt) (dX rb) (dX pc) (dX pd) else False)"

definition side_of :: "SV_POINT2 \<Rightarrow> SV_POINT2 \<Rightarrow> SV_POINT2 \<Rightarrow> rat" where
  "side_of pa pb pc = dsub (dmul (dsub (dX pb) (dX pa)) (dsub (dY pc) (dY pa)))
     (dmul (dsub (dY pb) (dY pa)) (dsub (dX pc) (dX pa)))"

definition pd_Line2Intersect :: "SV_POINT2 \<Rightarrow> SV_POINT2 \<Rightarrow> SV_POINT2 \<Rightarrow> SV_POINT2 \<Rightarrow> bool" where
  "pd_Line2Intersect pa pb pc pd =
     (if max (dX pa) (dX pb) < min (dX pc) (dX pd) \<or> max (dX pc) (dX pd) < min (dX pa) (dX pb) \<or>
         max (dY pa) (dY pb) < min (dY pc) (dY pd) \<or> max (dY pc) (dY pd) < min (dY pa) (dY pb) then False
      else if 0 \<le> dmul (side_of pa pb pc) (side_of pa pb pd) \<or> 0 \<le> dmul (side_of pc pd pa) (side_of pc pd pb) then False
      else True)"

text \<open>The edge from \<open>p\<close> to \<open>q\<close> against the point.\<close>

definition edge_cross :: "SV_POINT2 \<Rightarrow> SV_POINT2 \<Rightarrow> SV_POINT2 \<Rightarrow> rat" where
  "edge_cross p q pot = dsub (dmul (dsub (dX p) (dX pot)) (dsub (dY q) (dY p)))
     (dmul (dsub (dY p) (dY pot)) (dsub (dX q) (dX p)))"

definition polygon_edges :: "SV_POINT2 list \<Rightarrow> (SV_POINT2 \<times> SV_POINT2) list" where
  "polygon_edges poy = zip poy (rotate1 poy)"

definition pd_PolygonPointIntersect :: "SV_POINT2 list \<Rightarrow> SV_POINT2 \<Rightarrow> bool" where
  "pd_PolygonPointIntersect poy pot = list_all (\<lambda>(p, q). \<not> 0 < edge_cross p q pot) (polygon_edges poy)"

definition pd_Polygon2Intersect :: "SV_POINT2 list \<Rightarrow> SV_POINT2 list \<Rightarrow> bool" where
  "pd_Polygon2Intersect po1 po2 \<longleftrightarrow>
     list_ex (pd_PolygonPointIntersect po1) po2 \<or> list_ex (pd_PolygonPointIntersect po2) po1 \<or>
     list_ex (\<lambda>(p, q). list_ex (\<lambda>(r, s). pd_Line2Intersect p q r s) (polygon_edges po2)) (polygon_edges po1)"

definition inside_ellipse :: "SV_POINT2 \<Rightarrow> rat \<Rightarrow> rat \<Rightarrow> rat \<Rightarrow> rat \<Rightarrow> bool" where
  "inside_ellipse p X Y A_2 B_2 \<longleftrightarrow>
     dadd (dmul (dmul (dsub (dX p) X) (dsub (dX p) X)) B_2) (dmul (dmul (dsub (dY p) Y) (dsub (dY p) Y)) A_2)
       < fmul A_2 B_2"

definition pd_EllipsePolygon2Intersect :: "SV_POINT2 list \<Rightarrow> SV_POINT2 list \<Rightarrow> rat \<Rightarrow> rat \<Rightarrow> bool" where
  "pd_EllipsePolygon2Intersect po1 po2 B1 B2 =
     (let A1 = f32 (ddiv (dsub (dX (po1 ! 3)) (dX (po1 ! 0))) 2); A2 = f32 (ddiv (dsub (dX (po1 ! 2)) (dX (po1 ! 1))) 2);
          A1_2 = fmul A1 A1; A2_2 = fmul A2 A2; B1_2 = fmul B1 B1; B2_2 = fmul B2 B2;
          X1 = f32 (ddiv (dadd (dX (po1 ! 3)) (dX (po1 ! 0))) 2); Y1 = f32 (ddiv (dadd (dY (po1 ! 3)) (dY (po1 ! 0))) 2);
          X2 = f32 (ddiv (dadd (dX (po1 ! 2)) (dX (po1 ! 1))) 2); Y2 = f32 (ddiv (dadd (dY (po1 ! 2)) (dY (po1 ! 1))) 2)
      in list_ex (\<lambda>i. pd_PolygonPointIntersect po2 (po1 ! i)) [0..<4] \<or>
         list_ex (\<lambda>i. let p = po2 ! i; bIn1 = inside_ellipse p X1 Y1 A1_2 B1_2; bIn2 = inside_ellipse p X2 Y2 A2_2 B2_2
           in B1 < 0 \<and> bIn1 \<and> dY p < Y1 \<or> 0 < B2 \<and> bIn2 \<and> Y2 < dY p \<or>
              pd_PolygonPointIntersect po1 p \<and> (0 < B1 \<and> \<not> bIn1 \<or> B2 < 0 \<and> \<not> bIn2)) [0..<4])"

definition eps6 :: rat where "eps6 = f64 (1 / 1000000)"

definition pd_Polygon2Interior :: "rat \<Rightarrow> rat \<Rightarrow> rat \<Rightarrow> rat \<Rightarrow> rat \<Rightarrow> rat \<Rightarrow> rat \<Rightarrow> rat \<Rightarrow> bool" where
  "pd_Polygon2Interior f32XMin1 f32YMin1 f32XMax1 f32YMax1 f32XMin2 f32YMin2 f32XMax2 f32YMax2 =
     (let f32XMin = (if f32XMin2 < f32XMin1 then f32XMin1 else f32XMin2);
          f32YMin = (if f32YMin2 < f32YMin1 then f32YMin1 else f32YMin2);
          f32XMax = (if f32XMax1 < f32XMax2 then f32XMax1 else f32XMax2);
          f32YMax = (if f32YMax1 < f32YMax2 then f32YMax1 else f32YMax2);
          f32InterWidth = f32 (dadd (fsub f32XMax f32XMin) eps6);
          f32InterHeight = f32 (dadd (fsub f32YMax f32YMin) eps6);
          f32InterWidth = (if 0 \<le> f32InterWidth then f32InterWidth else 0);
          f32InterHeight = (if 0 \<le> f32InterHeight then f32InterHeight else 0);
          f32Inter = fmul f32InterWidth f32InterHeight;
          f32Area2 = f32 (dmul (dadd (fsub f32XMax2 f32XMin2) eps6) (dadd (fsub f32YMax2 f32YMin2) eps6))
      in dmul (3 / 4) f32Area2 < f32Inter)"

definition pd_SemiCircleRectIntersect :: "SV_POINT2 \<Rightarrow> rat \<Rightarrow> SV_POINT2 list \<Rightarrow> bool" where
  "pd_SemiCircleRectIntersect center radius pRect =
     (let radius_2 = dmul radius radius;
          rcx = ddiv (dadd (dX (pRect ! 0)) (dX (pRect ! 2))) 2; rcy = ddiv (dadd (dY (pRect ! 0)) (dY (pRect ! 2))) 2;
          width = dsub (dX (pRect ! 2)) (dX (pRect ! 0)); height = dsub (dY (pRect ! 2)) (dY (pRect ! 0))
      in list_ex (\<lambda>i. let dx = dsub (dX (pRect ! i)) (dX center); dy = dsub (dY (pRect ! i)) (dY center)
           in \<not> 0 < dy \<and> dadd (dmul dx dx) (dmul dy dy) \<le> radius_2) [0..<4] \<or>
         dY (pRect ! 0) \<le> dY center \<and>
         (\<bar>dsub (dY center) rcy\<bar> < dadd (ddiv height 2) radius \<and> \<bar>dsub (dX center) rcx\<bar> < ddiv width 2 \<or>
          \<bar>dsub (dX center) rcx\<bar> < dadd (ddiv width 2) radius \<and> \<bar>dsub (dY center) rcy\<bar> < ddiv height 2))"

subsection \<open>Signs of rounded expressions\<close>

text \<open>\<open>far k x\<close>: zero or at least \<open>2 ^ -k\<close> away from it.\<close>

definition far :: "nat \<Rightarrow> rat \<Rightarrow> bool" where
  "far k x \<longleftrightarrow> x = 0 \<or> 2 powi (- int k) \<le> \<bar>x\<bar>"

lemma far_0 [simp]: "far k 0"
  by (simp add: far_def)

lemma f64_powi: "- 1074 \<le> e \<Longrightarrow> f64 (2 powi e) = 2 powi e"
  using rnd_exact [of 1 53 "- 1074" e] by (simp add: f64_def)

lemma f64_far:
  assumes "far k x" and "k \<le> 1074"
  shows "far k (f64 x)" and "sgn (f64 x) = sgn x"
proof -
  have p: "f64 (2 powi (- int k)) = 2 powi (- int k)" using assms(2) by (intro f64_powi) simp
  have pos: "2 powi (- int k) \<le> f64 y" if "2 powi (- int k) \<le> y" for y
    using f64_mono [OF that] by (simp only: p)
  have z: "(0::rat) < 2 powi (- int k)" by simp
  consider "x = 0" | "2 powi (- int k) \<le> x" | "2 powi (- int k) \<le> - x"
    using assms(1) by (auto simp: far_def abs_if split: if_splits)
  then have "far k (f64 x) \<and> sgn (f64 x) = sgn x"
  proof cases
    case 2
    with pos [of x] z have "0 < x" "0 < f64 x" "2 powi (- int k) \<le> f64 x" by linarith+
    then show ?thesis by (simp add: far_def)
  next
    case 3
    with pos [of "- x"] z have "x < 0" "f64 x < 0" "2 powi (- int k) \<le> - f64 x" by (simp_all, linarith+)
    then show ?thesis by (simp add: far_def)
  qed simp
  then show "far k (f64 x)" "sgn (f64 x) = sgn x" by blast+
qed

lemma far_mult: "far j a \<Longrightarrow> far k b \<Longrightarrow> far (j + k) (a * b)"
proof -
  assume f: "far j a" "far k b"
  have e: "(2::rat) powi (- int (j + k)) = 2 powi (- int j) * 2 powi (- int k)"
    using power_int_add [of "2::rat" "- int j" "- int k"] by simp
  have "2 powi (- int j) * 2 powi (- int k) \<le> \<bar>a\<bar> * \<bar>b\<bar>" if "a \<noteq> 0" "b \<noteq> 0"
    using f that by (intro mult_mono) (simp_all add: far_def)
  then show "far (j + k) (a * b)" unfolding far_def abs_mult e by auto
qed

lemma is_f32_grid:
  assumes "is_f32 x"
  shows "\<exists>j. x = of_int j * 2 powi (- 149)"
proof -
  obtain k e where "rnd 24 (- 149) x = of_int k * 2 powi e" and e: "- 149 \<le> e"
    by (rule rnd_form [of 24 "- 149" x]) auto
  then have x: "x = of_int k * 2 powi e" using assms by (simp add: is_f32_def f32_def)
  have "(2::rat) powi e = 2 powi (e + 149) * 2 powi (- 149)"
    using power_int_add [of "2::rat" "e + 149" "- 149"] by simp
  also have "(2::rat) powi (e + 149) = of_int (2 ^ nat (e + 149))" using e by (simp add: power_int_def)
  finally have "x = of_int (k * 2 ^ nat (e + 149)) * 2 powi (- 149)" by (simp add: x)
  then show ?thesis ..
qed

lemma dsub_far:
  assumes "is_f32 x" and "is_f32 y"
  shows "far 149 (dsub x y)" and "sgn (dsub x y) = sgn (x - y)"
proof -
  from is_f32_grid [OF assms(1)] is_f32_grid [OF assms(2)] obtain j l where
    jl: "x - y = of_int (j - l) * 2 powi (- 149)" by (auto simp: left_diff_distrib)
  have "far 149 (x - y)"
  proof (cases "j = l")
    case False
    then have "1 \<le> \<bar>j - l\<bar>" by simp
    then have "(of_int 1 :: rat) \<le> of_int \<bar>j - l\<bar>" by (simp only: of_int_le_iff)
    then show ?thesis unfolding far_def jl abs_mult by (simp add: mult_right_mono [of 1])
  qed (simp add: jl)
  from f64_far [OF this] show "far 149 (dsub x y)" "sgn (dsub x y) = sgn (x - y)" by simp_all
qed

text \<open>The product of two such differences has the exact sign; so has the product of two such products.\<close>

lemma dmul_far:
  assumes "far j a" and "far k b" and "j + k \<le> 1074"
  shows "far (j + k) (dmul a b)" and "sgn (dmul a b) = sgn a * sgn b"
  using f64_far [OF far_mult [OF assms(1,2)] assms(3)] by (simp_all add: sgn_mult)

lemma pos_sgn: "((0::rat) < x) = (sgn x = 1)" and neg_sgn: "((x::rat) < 0) = (sgn x = - 1)"
  by (auto simp: sgn_if)

subsection \<open>Boxes\<close>

text \<open>A box with its corners in the order of the code: top left, bottom left, bottom right, top right.\<close>

definition box :: "rat \<Rightarrow> rat \<Rightarrow> rat \<Rightarrow> rat \<Rightarrow> SV_POINT2 list" where
  "box x1 y1 x2 y2 = [\<lparr>dX = x1, dY = y1\<rparr>, \<lparr>dX = x1, dY = y2\<rparr>, \<lparr>dX = x2, dY = y2\<rparr>, \<lparr>dX = x2, dY = y1\<rparr>]"

definition f32_point :: "SV_POINT2 \<Rightarrow> bool" where
  "f32_point p \<longleftrightarrow> is_f32 (dX p) \<and> is_f32 (dY p)"

lemma polygon_edges_box: "polygon_edges (box x1 y1 x2 y2) =
   [(\<lparr>dX = x1, dY = y1\<rparr>, \<lparr>dX = x1, dY = y2\<rparr>), (\<lparr>dX = x1, dY = y2\<rparr>, \<lparr>dX = x2, dY = y2\<rparr>),
    (\<lparr>dX = x2, dY = y2\<rparr>, \<lparr>dX = x2, dY = y1\<rparr>), (\<lparr>dX = x2, dY = y1\<rparr>, \<lparr>dX = x1, dY = y1\<rparr>)]"
  by (simp add: polygon_edges_def box_def)

lemma sgn_edge_cross:
  assumes "f32_point p" and "f32_point q" and "f32_point t"
  shows "dX q = dX p \<Longrightarrow> sgn (edge_cross p q t) = sgn (dX p - dX t) * sgn (dY q - dY p)"
    and "dY q = dY p \<Longrightarrow> sgn (edge_cross p q t) = - (sgn (dY p - dY t) * sgn (dX q - dX p))"
proof -
  note f = assms [unfolded f32_point_def]
  have m: "sgn (dmul (dsub a b) (dsub c d)) = sgn (a - b) * sgn (c - d)"
    if "is_f32 a" "is_f32 b" "is_f32 c" "is_f32 d" for a b c d
    using dmul_far(2) [OF dsub_far(1) [OF that(1,2)] dsub_far(1) [OF that(3,4)]] dsub_far(2) that by simp
  show "sgn (edge_cross p q t) = sgn (dX p - dX t) * sgn (dY q - dY p)" if "dX q = dX p"
    using m f by (simp add: edge_cross_def that)
  show "sgn (edge_cross p q t) = - (sgn (dY p - dY t) * sgn (dX q - dX p))" if "dY q = dY p"
    using m f by (simp add: edge_cross_def that)
qed

lemma point_in_box:
  assumes "is_f32 x1" "is_f32 y1" "is_f32 x2" "is_f32 y2" "x1 < x2" "y1 < y2" "f32_point t"
  shows "pd_PolygonPointIntersect (box x1 y1 x2 y2) t \<longleftrightarrow> x1 \<le> dX t \<and> dX t \<le> x2 \<and> y1 \<le> dY t \<and> dY t \<le> y2"
proof -
  have p: "f32_point \<lparr>dX = u, dY = v\<rparr>" if "is_f32 u" "is_f32 v" for u v using that by (simp add: f32_point_def)
  have s: "sgn (x2 - x1) = 1" "sgn (x1 - x2) = - 1" "sgn (y2 - y1) = 1" "sgn (y1 - y2) = - 1"
    using assms by (simp_all add: sgn_if)
  note t = assms(7)
  have "sgn (edge_cross \<lparr>dX = x1, dY = y1\<rparr> \<lparr>dX = x1, dY = y2\<rparr> t) = sgn (x1 - dX t)"
    "sgn (edge_cross \<lparr>dX = x1, dY = y2\<rparr> \<lparr>dX = x2, dY = y2\<rparr> t) = - sgn (y2 - dY t)"
    "sgn (edge_cross \<lparr>dX = x2, dY = y2\<rparr> \<lparr>dX = x2, dY = y1\<rparr> t) = - sgn (x2 - dX t)"
    "sgn (edge_cross \<lparr>dX = x2, dY = y1\<rparr> \<lparr>dX = x1, dY = y1\<rparr> t) = sgn (y1 - dY t)"
    using sgn_edge_cross [OF p p t] assms(1-4) s by simp_all
  then show ?thesis
    unfolding pd_PolygonPointIntersect_def polygon_edges_box
    by (simp add: pos_sgn) (auto simp: sgn_if)
qed

lemma sgn_side_of:
  assumes "f32_point a" and "f32_point b" and "f32_point c"
  shows "dY b = dY a \<Longrightarrow> far 298 (side_of a b c) \<and> sgn (side_of a b c) = sgn (dX b - dX a) * sgn (dY c - dY a)"
    and "dX b = dX a \<Longrightarrow> far 298 (side_of a b c) \<and> sgn (side_of a b c) = - (sgn (dY b - dY a) * sgn (dX c - dX a))"
proof -
  note f = assms [unfolded f32_point_def]
  have m: "far 298 (dmul (dsub s t) (dsub u v)) \<and> sgn (dmul (dsub s t) (dsub u v)) = sgn (s - t) * sgn (u - v)"
    if "is_f32 s" "is_f32 t" "is_f32 u" "is_f32 v" for s t u v
    using dmul_far [OF dsub_far(1) [OF that(1,2)] dsub_far(1) [OF that(3,4)]] dsub_far(2) that by simp
  show "far 298 (side_of a b c) \<and> sgn (side_of a b c) = sgn (dX b - dX a) * sgn (dY c - dY a)" if "dY b = dY a"
    using m f by (simp add: side_of_def that)
  show "far 298 (side_of a b c) \<and> sgn (side_of a b c) = - (sgn (dY b - dY a) * sgn (dX c - dX a))" if "dX b = dX a"
    using m [of "dY b" "dY a" "dX c" "dX a"] f by (simp add: side_of_def that far_def)
qed

lemma Line2Intersect_sym: "pd_Line2Intersect a b c d = pd_Line2Intersect c d a b"
  unfolding pd_Line2Intersect_def by auto

text \<open>A horizontal and a vertical segment that cross inside.\<close>

lemma Line2Intersect_cross:
  assumes f: "f32_point a" "f32_point b" "f32_point c" "f32_point d"
    and hv: "dY b = dY a" "dX d = dX c"
    and x: "dX a < dX c \<and> dX c < dX b \<or> dX b < dX c \<and> dX c < dX a"
    and y: "dY c < dY a \<and> dY a < dY d \<or> dY d < dY a \<and> dY a < dY c"
  shows "pd_Line2Intersect a b c d"
proof -
  note s1 = sgn_side_of(1) [OF f(1,2,3) hv(1)] sgn_side_of(1) [OF f(1,2,4) hv(1)]
  note s2 = sgn_side_of(2) [OF f(3,4,1) hv(2)] sgn_side_of(2) [OF f(3,4,2) hv(2)]
  have "sgn (dmul (side_of a b c) (side_of a b d)) = sgn (side_of a b c) * sgn (side_of a b d)"
    "sgn (dmul (side_of c d a) (side_of c d b)) = sgn (side_of c d a) * sgn (side_of c d b)"
    using s1 s2 dmul_far(2) [of 298 _ 298] by auto
  moreover have "sgn (side_of a b c) * sgn (side_of a b d) = - 1" "sgn (side_of c d a) * sgn (side_of c d b) = - 1"
    using s1 s2 x y by (auto simp: sgn_if)
  ultimately have "dmul (side_of a b c) (side_of a b d) < 0" "dmul (side_of c d a) (side_of c d b) < 0"
    by (simp_all add: neg_sgn)
  then show ?thesis using x y hv by (auto simp: pd_Line2Intersect_def min_def max_def)
qed

definition boxes_touch :: "rat \<Rightarrow> rat \<Rightarrow> rat \<Rightarrow> rat \<Rightarrow> rat \<Rightarrow> rat \<Rightarrow> rat \<Rightarrow> rat \<Rightarrow> bool" where
  "boxes_touch a1 b1 a2 b2 c1 d1 c2 d2 \<longleftrightarrow> a1 \<le> c2 \<and> c1 \<le> a2 \<and> b1 \<le> d2 \<and> d1 \<le> b2"

lemma boxes_intersect_iff:
  assumes A: "is_f32 a1" "is_f32 b1" "is_f32 a2" "is_f32 b2" "a1 < a2" "b1 < b2"
    and C: "is_f32 c1" "is_f32 d1" "is_f32 c2" "is_f32 d2" "c1 < c2" "d1 < d2"
  shows "pd_Polygon2Intersect (box a1 b1 a2 b2) (box c1 d1 c2 d2) \<longleftrightarrow> boxes_touch a1 b1 a2 b2 c1 d1 c2 d2"
proof -
  have p: "f32_point \<lparr>dX = u, dY = v\<rparr>" if "is_f32 u" "is_f32 v" for u v using that by (simp add: f32_point_def)
  note inA = point_in_box [OF A] and inC = point_in_box [OF C]
  let ?in1 = "list_ex (pd_PolygonPointIntersect (box a1 b1 a2 b2)) (box c1 d1 c2 d2)"
  let ?in2 = "list_ex (pd_PolygonPointIntersect (box c1 d1 c2 d2)) (box a1 b1 a2 b2)"
  let ?cross = "list_ex (\<lambda>(p, q). list_ex (\<lambda>(r, s). pd_Line2Intersect p q r s) (polygon_edges (box c1 d1 c2 d2)))
      (polygon_edges (box a1 b1 a2 b2))"
  have 1: "?in1 \<longleftrightarrow> (\<exists>x\<in>{c1, c2}. a1 \<le> x \<and> x \<le> a2) \<and> (\<exists>y\<in>{d1, d2}. b1 \<le> y \<and> y \<le> b2)"
    by (subst (2) box_def) (use C in \<open>auto simp: inA p\<close>)
  have 2: "?in2 \<longleftrightarrow> (\<exists>x\<in>{a1, a2}. c1 \<le> x \<and> x \<le> c2) \<and> (\<exists>y\<in>{b1, b2}. d1 \<le> y \<and> y \<le> d2)"
    by (subst (2) box_def) (use A in \<open>auto simp: inC p\<close>)
  have 3: "?cross \<Longrightarrow> boxes_touch a1 b1 a2 b2 c1 d1 c2 d2"
    unfolding polygon_edges_box using A C
    by (auto simp: pd_Line2Intersect_def boxes_touch_def not_less min_def max_def split: if_splits)
  have 4: ?cross if "boxes_touch a1 b1 a2 b2 c1 d1 c2 d2" "\<not> ?in1" "\<not> ?in2"
  proof -
    from that A C consider "a1 < c1" "c1 < a2" "d1 < b1" "b1 < d2" | "c1 < a1" "a1 < c2" "b1 < d1" "d1 < b2"
      unfolding 1 2 boxes_touch_def by force
    then show ?cross
    proof cases
      case 1
      have "pd_Line2Intersect \<lparr>dX = a2, dY = b1\<rparr> \<lparr>dX = a1, dY = b1\<rparr> \<lparr>dX = c1, dY = d1\<rparr> \<lparr>dX = c1, dY = d2\<rparr>"
        by (rule Line2Intersect_cross) (use 1 A C in \<open>auto simp: p\<close>)
      then show ?cross unfolding polygon_edges_box by simp
    next
      case 2
      have "pd_Line2Intersect \<lparr>dX = c2, dY = d1\<rparr> \<lparr>dX = c1, dY = d1\<rparr> \<lparr>dX = a1, dY = b1\<rparr> \<lparr>dX = a1, dY = b2\<rparr>"
        by (rule Line2Intersect_cross) (use 2 A C in \<open>auto simp: p\<close>)
      then have "pd_Line2Intersect \<lparr>dX = a1, dY = b1\<rparr> \<lparr>dX = a1, dY = b2\<rparr> \<lparr>dX = c2, dY = d1\<rparr> \<lparr>dX = c1, dY = d1\<rparr>"
        by (simp only: Line2Intersect_sym)
      then show ?cross unfolding polygon_edges_box by simp
    qed
  qed
  have 5: "?in1 \<or> ?in2 \<Longrightarrow> boxes_touch a1 b1 a2 b2 c1 d1 c2 d2"
    unfolding 1 2 boxes_touch_def using A C by auto
  show ?thesis unfolding pd_Polygon2Intersect_def using 3 4 5 by blast
qed

lemma Polygon2Intersect_sym: "pd_Polygon2Intersect po1 po2 = pd_Polygon2Intersect po2 po1"
proof -
  have "(\<exists>e \<in> E. \<exists>g \<in> G. pd_Line2Intersect (fst e) (snd e) (fst g) (snd g)) =
      (\<exists>g \<in> G. \<exists>e \<in> E. pd_Line2Intersect (fst g) (snd g) (fst e) (snd e))" for E G
    by (subst Line2Intersect_sym) blast
  then show ?thesis unfolding pd_Polygon2Intersect_def list_ex_iff split_beta by blast
qed

subsection \<open>Intervals\<close>

lemma IntervalOverlap_iff:
  "x1 \<le> x2 \<Longrightarrow> pd_IntervalOverlap x1 x2 x3 x4 \<longleftrightarrow> (\<exists>t. x1 \<le> t \<and> t \<le> x2 \<and> min x3 x4 \<le> t \<and> t \<le> max x3 x4)"
proof -
  assume le: "x1 \<le> x2"
  have "pd_IntervalOverlap x1 x2 x3 x4 \<longleftrightarrow> min x3 x4 \<le> x2 \<and> x1 \<le> max x3 x4"
    by (auto simp: pd_IntervalOverlap_def min_def max_def)
  also have "\<dots> \<longleftrightarrow> (\<exists>t. x1 \<le> t \<and> t \<le> x2 \<and> min x3 x4 \<le> t \<and> t \<le> max x3 x4)"
  proof
    assume "min x3 x4 \<le> x2 \<and> x1 \<le> max x3 x4"
    with le show "\<exists>t. x1 \<le> t \<and> t \<le> x2 \<and> min x3 x4 \<le> t \<and> t \<le> max x3 x4"
      by (intro exI [of _ "max x1 (min x3 x4)"]) (auto simp: max_def min_def)
  qed (metis order_trans)
  finally show ?thesis .
qed

subsection \<open>Circles grow with their radius\<close>

lemma SemiCircle_mono:
  assumes "0 \<le> r" and "r \<le> r'" and "pd_SemiCircleRectIntersect center r pRect"
  shows "pd_SemiCircleRectIntersect center r' pRect"
proof -
  have "dmul r r \<le> dmul r' r'" using assms by (intro f64_mono mult_mono) auto
  moreover have "dadd w r \<le> dadd w r'" for w using assms by (intro f64_mono) auto
  ultimately show ?thesis
    using assms(3) unfolding pd_SemiCircleRectIntersect_def Let_def list_ex_iff
    by (meson order_trans order.strict_trans2)
qed

subsection \<open>The hollow\<close>

lemma f64_error: "\<bar>f64 x - x\<bar> \<le> \<bar>x\<bar> / 9007199254740992 + 1 / 2 ^ 1075"
proof (cases "x = 0")
  case False
  have "\<bar>rnd 53 (- 1074) x - x\<bar> \<le> 2 powi ulp_exp 53 (- 1074) x / 2" by (rule rnd_error)
  moreover have "(2::rat) powi ulp_exp 53 (- 1074) x / 2 \<le> \<bar>x\<bar> / 9007199254740992 + 1 / 2 ^ 1075"
  proof (cases "- 1074 \<le> ilog2 \<bar>x\<bar> - 52")
    case True
    then have "ulp_exp 53 (- 1074) x = ilog2 \<bar>x\<bar> - 52" using False by (simp add: ulp_exp_def)
    then have "(2::rat) powi ulp_exp 53 (- 1074) x = 2 powi ilog2 \<bar>x\<bar> / 2 ^ 52"
      by (simp add: power_int_diff)
    moreover have "(2::rat) powi ilog2 \<bar>x\<bar> \<le> \<bar>x\<bar>" using False by (intro ilog2_bounds) simp
    ultimately show ?thesis by simp
  next
    case no: False
    then have "ulp_exp 53 (- 1074) x = - 1074" using False by (simp add: ulp_exp_def)
    then show ?thesis by (simp add: power_int_minus)
  qed
  ultimately show ?thesis unfolding f64_def by linarith
qed simp

text \<open>For values of ordinary size both roundings are within a millionth.\<close>

lemma round_close:
  assumes "1 / 1000000000000000 \<le> x"
  shows "x * (999999 / 1000000) \<le> f32 x" "f32 x \<le> x * (1000001 / 1000000)"
    "x * (999999 / 1000000) \<le> f64 x" "f64 x \<le> x * (1000001 / 1000000)"
proof -
  have "(1::rat) / 2 ^ 150 \<le> 1 / 1000000000000000 / 10000000" by simp
  also have "\<dots> \<le> x / 10000000" using assms by (intro divide_right_mono) auto
  finally have "\<bar>f32 x - x\<bar> \<le> \<bar>x\<bar> / 16777216 + x / 10000000" using f32_error [of x] by linarith
  moreover have x: "0 < x" by (rule less_le_trans [OF _ assms]) simp
  ultimately have "\<bar>f32 x - x\<bar> \<le> x / 1000000" by simp
  then show "x * (999999 / 1000000) \<le> f32 x" "f32 x \<le> x * (1000001 / 1000000)"
    unfolding abs_le_iff by simp_all
  have "(1::rat) / 2 ^ 1075 \<le> 1 / 2 ^ 150" by (intro divide_left_mono power_increasing) simp_all
  also have "\<dots> \<le> 1 / 1000000000000000 / 10000000" by simp
  also have "\<dots> \<le> x / 10000000" using assms by (intro divide_right_mono) auto
  finally have "\<bar>f64 x - x\<bar> \<le> \<bar>x\<bar> / 9007199254740992 + x / 10000000" using f64_error [of x] by linarith
  with x have "\<bar>f64 x - x\<bar> \<le> x / 1000000" by simp
  then show "x * (999999 / 1000000) \<le> f64 x" "f64 x \<le> x * (1000001 / 1000000)"
    unfolding abs_le_iff by simp_all
qed

lemma eps6_range: "999 / 1000000000 \<le> eps6" "eps6 \<le> 1001 / 1000000000"
  using round_close(3,4) [of "1 / 1000000"] by (simp_all add: eps6_def)

lemma Interior_inside:
  assumes f: "is_f32 c1" "is_f32 d1" "is_f32 c2" "is_f32 d2" and le: "c1 \<le> c2" "d1 \<le> d2"
    and inside: "a1 \<le> c1" "b1 \<le> d1" "c2 \<le> a2" "d2 \<le> b2" and size: "c2 - c1 \<le> 1" "d2 - d1 \<le> 1"
  shows "pd_Polygon2Interior a1 b1 a2 b2 c1 d1 c2 d2"
proof -
  define u where "u = dadd (fsub c2 c1) eps6"
  define v where "v = dadd (fsub d2 d1) eps6"
  have big: "1 / 2000000 \<le> dadd (fsub y x) eps6" if "x \<le> y" for x y
  proof -
    have "eps6 \<le> fsub y x + eps6" using that f32_nonneg [of "y - x"] by simp
    then have "f64 eps6 \<le> dadd (fsub y x) eps6" by (rule f64_mono)
    moreover have "f64 eps6 = eps6" by (simp add: eps6_def)
    ultimately show ?thesis using eps6_range by linarith
  qed
  have uv: "1 / 2000000 \<le> u" "1 / 2000000 \<le> v" using big le by (simp_all add: u_def v_def)
  have "1 / 2000000 * (1 / 2000000) \<le> u * v" using uv by (intro mult_mono) auto
  then have p: "1 / 4000000000000 \<le> u * v" by simp
  have uf: "u * (999999 / 1000000) \<le> f32 u" "v * (999999 / 1000000) \<le> f32 v"
    by (rule round_close(1), use uv in linarith)+
  have pos: "0 \<le> u" "0 \<le> v" "0 \<le> f32 u" "0 \<le> f32 v"
  proof -
    show "0 \<le> u" "0 \<le> v" by (rule order_trans [OF _ uv(1)], simp, rule order_trans [OF _ uv(2)], simp)
    then show "0 \<le> f32 u" "0 \<le> f32 v" by (simp_all add: f32_nonneg)
  qed
  have "(u * v) * (99 / 100) \<le> (u * v) * (999999 / 1000000 * (999999 / 1000000))"
    using pos by (intro mult_left_mono mult_nonneg_nonneg) auto
  also have "\<dots> = (u * (999999 / 1000000)) * (v * (999999 / 1000000))" by (simp only: mult_ac)
  also have "\<dots> \<le> f32 u * f32 v" using uf pos by (intro mult_mono) auto
  finally have prod: "(u * v) * (99 / 100) \<le> f32 u * f32 v" .
  have "1 / 1000000000000000 \<le> f32 u * f32 v" using prod p by linarith
  from round_close(1) [OF this] have inter: "(u * v) * (98 / 100) \<le> fmul (f32 u) (f32 v)"
    using prod p by linarith
  have "1 / 1000000000000000 \<le> u * v" using p by linarith
  note d1 = round_close(3,4) [OF this]
  have "1 / 1000000000000000 \<le> dmul u v" using d1 p by linarith
  note d2 = round_close(1,2) [OF this]
  have "f32 (dmul u v) \<le> (u * v) * (101 / 100)" using d1 d2 p by linarith
  moreover have "1 / 1000000000000000 \<le> 3 / 4 * f32 (dmul u v)" using d1 d2 p by linarith
  note round_close(4) [OF this]
  ultimately have "dmul (3 / 4) (f32 (dmul u v)) \<le> (u * v) * (80 / 100)" using p by linarith
  also have "\<dots> < (u * v) * (98 / 100)" using p by linarith
  also have "\<dots> \<le> fmul (f32 u) (f32 v)" by (rule inter)
  finally have "dmul (3 / 4) (f32 (dmul u v)) < fmul (f32 u) (f32 v)" .
  then show ?thesis
    using inside pos unfolding pd_Polygon2Interior_def Let_def u_def v_def by (auto simp: not_less dest: order.antisym)
qed

lemma Interior_apart:
  assumes f: "is_f32 a1" "is_f32 b1" "is_f32 a2" "is_f32 b2" "is_f32 c1" "is_f32 d1" "is_f32 c2" "is_f32 d2"
    and le: "c1 \<le> c2" "d1 \<le> d2"
    and gap: "a2 + 1 / 500000 \<le> c1 \<or> c2 + 1 / 500000 \<le> a1 \<or> b2 + 1 / 500000 \<le> d1 \<or> d2 + 1 / 500000 \<le> b1"
  shows "\<not> pd_Polygon2Interior a1 b1 a2 b2 c1 d1 c2 d2"
proof -
  have neg: "f32 (dadd (fsub x y) eps6) < 0" if "x + 1 / 500000 \<le> y" for x y
  proof -
    have "fsub x y \<le> f32 (- (1 / 500000))" using that by (intro f32_mono) simp
    also have "\<dots> \<le> - (1 / 600000)" using round_close(1) [of "1 / 500000"] by simp
    finally have "fsub x y + eps6 \<le> - (1 / 2000000)" using eps6_range by linarith
    then have "dadd (fsub x y) eps6 \<le> f64 (- (1 / 2000000))" by (rule f64_mono)
    also have "\<dots> \<le> - (1 / 3000000)" using round_close(3) [of "1 / 2000000"] by simp
    finally have "f32 (dadd (fsub x y) eps6) \<le> f32 (- (1 / 3000000))" by (rule f32_mono)
    also have "\<dots> < 0" using round_close(1) [of "1 / 3000000"] by simp
    finally show ?thesis .
  qed
  have w: "f32 (dadd (fsub (if a2 < c2 then a2 else c2) (if c1 < a1 then a1 else c1)) eps6) < 0 \<or>
      f32 (dadd (fsub (if b2 < d2 then b2 else d2) (if d1 < b1 then b1 else d1)) eps6) < 0"
    using gap by (elim disjE) (auto intro!: neg)
  have "0 \<le> fsub c2 c1 + eps6" "0 \<le> fsub d2 d1 + eps6"
    using le eps6_range f32_nonneg [of "c2 - c1"] f32_nonneg [of "d2 - d1"] by linarith+
  then have "0 \<le> dmul (3 / 4) (f32 (dmul (dadd (fsub c2 c1) eps6) (dadd (fsub d2 d1) eps6)))"
    by (intro f64_nonneg mult_nonneg_nonneg f32_nonneg) auto
  with w show ?thesis unfolding pd_Polygon2Interior_def Let_def by (auto simp: not_less)
qed

end
