(* ===== verification/Detection.thy ===== *)
theory Detection
  imports Floats
begin

section \<open>What the detector returns (include/pds_alg.h)\<close>

text \<open>
  The detection library is outside the repository; its result types are in its header.  Coordinates are
  \<open>float\<close> values relative to a unit square.  Classes the code does not name are \<open>E_CLS_OTHER\<close>.
\<close>

datatype EAlgObjectClass = E_CLS_PERSON | E_CLS_HEAD | E_CLS_CAR | E_CLS_MANHOLE | E_CLS_PERSON_HAT
  | E_CLS_PALLET | E_SPEED_ZONE | E_END_SPEED_ZONE | E_CLS_PERSON_HAT_RED | E_CLS_PERSON_HAT_YELLOW
  | E_CLS_PERSON_HAT_WHITE | E_CLS_PERSON_HAT_BLUE | E_HAT_RED | E_HAT_YELLOW | E_HAT_WHITE | E_HAT_BLUE
  | E_CLS_BEAR | E_CLS_RESERVE1 | E_CLS_OTHER int

record STAlgResult =
  classes :: EAlgObjectClass
  fX1 :: rat
  fY1 :: rat
  fX2 :: rat
  fY2 :: rat
  fConfidence :: rat

end
