(* ===== verification/Sonix_Link.thy ===== *)
theory Sonix_Link
  imports Crc Area_Detect
begin

section \<open>The serial link to the Sonix display board (pd/pd.cpp)\<close>

text \<open>
  \<open>uart_receive\<close> cuts the byte stream into frames: header \<open>0xff 0xbb\<close> (detection area) or
  \<open>0xff 0xcc\<close> (pallet parameters), a length byte that counts the whole frame, the payload and the
  checksum, low byte first; \<open>0xff 0xdd\<close> asks for the version.  \<open>pd_ProcessSonixFrame\<close> checks the
  frame and hands it on.  The receive buffer is the list of the bytes of the frame in progress
  (\<open>uFrameBytes\<close> is its length).  Calls that leave the module are values of type \<open>effect\<close>, in
  order; what they answer (the configuration service, the pallet library, \<open>pthread_create\<close>) is the
  parameter \<open>reply\<close>.  Log output is left out.
\<close>

subsection \<open>State, calls and answers\<close>

record STAlgParams =
  u32CaliLine :: int
  u32TurnoffTime :: int
  u32FlowFrameInterval :: int
  u32Range1 :: int
  u32Range2 :: int
  u32Range3 :: int
  fFLowPauseDuration :: rat
  fFlowRunDuration :: rat
  fPalletDetectSensity :: rat

record sonix =
  Area_Info_Get :: "Area_Info list"
  g_stPalletDetectParams :: STAlgParams
  g_bPalletParamsReady :: bool
  g_bFlowPalletMode :: bool
  g_bRestartScheduled :: bool
  s32SerialFd :: int

datatype effect = Serial_Write "byte list" | CONFIG_SetAlgParam EPdsModel | SaveParams STAlgParams
  | Restart_Thread

record reply =
  SaveParams_ok :: bool
  CONFIG_ReloadFile_ok :: bool
  CONFIG_GetAlgParam :: "EPdsModel option"
  CONFIG_SetAlgParam_ok :: bool
  pthread_create_ok :: bool

definition PD_CONFIG_MODEL_BSD :: EPdsModel where "PD_CONFIG_MODEL_BSD = E_PDS_PC"
definition PD_CONFIG_MODEL_FLOW_PALLET :: EPdsModel where "PD_CONFIG_MODEL_FLOW_PALLET = E_PDS_BUTT"

datatype PD_MODEL_ACK_STATUS = PD_MODEL_ACK_SAVED | PD_MODEL_ACK_NO_CHANGE
  | PD_MODEL_ACK_INVALID_MODE | PD_MODEL_ACK_CONFIG_ERROR

primrec ack_code :: "PD_MODEL_ACK_STATUS \<Rightarrow> byte" where
  "ack_code PD_MODEL_ACK_SAVED = 0"
| "ack_code PD_MODEL_ACK_NO_CHANGE = 1"
| "ack_code PD_MODEL_ACK_INVALID_MODE = 2"
| "ack_code PD_MODEL_ACK_CONFIG_ERROR = 3"

text \<open>A 16-bit checksum as its two bytes, and two bytes as the number \<open>(hi << 8) + lo\<close>.\<close>

definition lo_byte :: "16 word \<Rightarrow> byte" where "lo_byte w = ucast w"
definition hi_byte :: "16 word \<Rightarrow> byte" where "hi_byte w = ucast (drop_bit 8 w)"
definition u16_of :: "byte \<Rightarrow> byte \<Rightarrow> 16 word" where "u16_of lo hi = push_bit 8 (ucast hi) OR ucast lo"
definition le16 :: "byte \<Rightarrow> byte \<Rightarrow> int" where "le16 lo hi = uint hi * 256 + uint lo"

subsection \<open>Commands and answers to the board\<close>

definition sendcmd2sonix :: "byte \<Rightarrow> byte \<Rightarrow> effect list" where
  "sendcmd2sonix CH CMD = [Serial_Write [0xff, 0xbb, CH, CMD]]"

text \<open>\<open>version\<close> is a NUL-terminated string of the build; the buffer has fifty bytes.\<close>

definition sendversion2sonix :: "byte list \<Rightarrow> effect list" where
  "sendversion2sonix version =
     [Serial_Write (take 50 ([0xff, 0xdd] @ version @ replicate 48 0))]"

definition pd_SetPalletAlarmRange :: "byte \<Rightarrow> STAlgParams \<Rightarrow> STAlgParams" where
  "pd_SetPalletAlarmRange u8RateRange p =
     p\<lparr>u32Range1 := 10 * uint u8RateRange, u32Range2 := 20 * uint u8RateRange,
       u32Range3 := 30 * uint u8RateRange\<rparr>"

definition pd_SendModelAck :: "byte \<Rightarrow> PD_MODEL_ACK_STATUS \<Rightarrow> sonix \<Rightarrow> effect list" where
  "pd_SendModelAck u8Mode u8Status s =
     (let u16Crc = crc16_Gen [8, 0, u8Mode, ack_code u8Status]
      in if s32SerialFd s > 0 then
           [Serial_Write [0xff, 0xcc, 8, 0, u8Mode, ack_code u8Status, lo_byte u16Crc, hi_byte u16Crc]]
         else [])"

definition pd_ScheduleAlgRestart :: "reply \<Rightarrow> sonix \<Rightarrow> sonix \<times> effect list" where
  "pd_ScheduleAlgRestart env s =
     (if g_bRestartScheduled s then (s, [])
      else if pthread_create_ok env then (s\<lparr>g_bRestartScheduled := True\<rparr>, [Restart_Thread])
      else (s\<lparr>g_bRestartScheduled := False\<rparr>, []))"

definition pd_PersistModelMode ::
  "reply \<Rightarrow> byte \<Rightarrow> sonix \<Rightarrow> PD_MODEL_ACK_STATUS \<times> effect list" where
  "pd_PersistModelMode env u8Mode s =
     (if u8Mode \<noteq> 0 \<and> u8Mode \<noteq> 1 then (PD_MODEL_ACK_INVALID_MODE, [])
      else let s32DesiredModel = (if u8Mode = 0 then PD_CONFIG_MODEL_BSD else PD_CONFIG_MODEL_FLOW_PALLET)
      in if \<not> CONFIG_ReloadFile_ok env then (PD_MODEL_ACK_CONFIG_ERROR, [])
      else case CONFIG_GetAlgParam env of None \<Rightarrow> (PD_MODEL_ACK_CONFIG_ERROR, [])
      | Some enPdsModel \<Rightarrow>
          if enPdsModel = s32DesiredModel then
            let s32ActiveModel = (if g_bFlowPalletMode s then PD_CONFIG_MODEL_FLOW_PALLET
                                  else PD_CONFIG_MODEL_BSD)
            in (if s32ActiveModel = s32DesiredModel then PD_MODEL_ACK_NO_CHANGE else PD_MODEL_ACK_SAVED, [])
          else if \<not> CONFIG_SetAlgParam_ok env then
            (PD_MODEL_ACK_CONFIG_ERROR, [CONFIG_SetAlgParam s32DesiredModel])
          else (PD_MODEL_ACK_SAVED, [CONFIG_SetAlgParam s32DesiredModel]))"

subsection \<open>Frames\<close>

text \<open>The coordinates are \<open>short\<close>; the products are computed in \<open>int\<close>.\<close>

definition pd_HandleAreaFrame :: "byte list \<Rightarrow> sonix \<Rightarrow> sonix" where
  "pd_HandleAreaFrame f s =
     (if length f < 22 then s
      else let u8Ch = unat (f ! 3) in
        if 4 \<le> u8Ch then s
        else let
          top_y = s16 (le16 (f ! 12) (f ! 13)); bottom_y = s16 (le16 (f ! 18) (f ! 19));
          band = (\<lambda>rate. s16 (s32 (top_y + tdiv (s32 (s32 (bottom_y - top_y) * rate)) 12)));
          A = (Area_Info_Get s ! u8Ch)\<lparr>
            line_top_x1 := s16 (le16 (f ! 4) (f ! 5)), line_top_x2 := s16 (le16 (f ! 6) (f ! 7)),
            line_bottom_x1 := s16 (le16 (f ! 8) (f ! 9)), line_bottom_x2 := s16 (le16 (f ! 10) (f ! 11)),
            line_top_y := top_y, line_bottom_y := bottom_y,
            line_second_y := band (le16 (f ! 14) (f ! 15)), line_third_y := band (le16 (f ! 16) (f ! 17))\<rparr>
        in s\<lparr>Area_Info_Get := (Area_Info_Get s)[u8Ch := (get_line_info A)\<lparr>recive_flag := 1\<rparr>]\<rparr>)"

definition pallet_params :: "byte list \<Rightarrow> STAlgParams \<Rightarrow> STAlgParams" where
  "pallet_params f p =
     (pd_SetPalletAlarmRange (f ! 8) (p\<lparr>
        u32CaliLine := u32 (rtrunc (f32 (f32 (f32 (of_int (le16 (f ! 4) (f ! 5))) / 600) * 352))),
        u32TurnoffTime := uint (f ! 6), u32FlowFrameInterval := uint (f ! 7)\<rparr>))\<lparr>
      fFLowPauseDuration := of_int (uint (f ! 9)), fFlowRunDuration := of_int (uint (f ! 10)),
      fPalletDetectSensity := f32 (of_int (uint (f ! 11)) / 100)\<rparr>"

definition pd_HandlePalletFrame :: "reply \<Rightarrow> byte list \<Rightarrow> sonix \<Rightarrow> sonix \<times> effect list" where
  "pd_HandlePalletFrame env f s =
     (if (length f \<noteq> 14 \<and> length f \<noteq> 15) \<or> f ! 3 \<noteq> 0 then (s, [])
      else let
        p = (if g_bPalletParamsReady s then pallet_params f (g_stPalletDetectParams s)
             else g_stPalletDetectParams s);
        s1 = s\<lparr>g_stPalletDetectParams := p\<rparr>;
        e1 = (if g_bPalletParamsReady s then [SaveParams p] else [])
      in if g_bPalletParamsReady s \<and> \<not> SaveParams_ok env then
           (s1, e1 @ (if length f = 15 then pd_SendModelAck (f ! 12) PD_MODEL_ACK_CONFIG_ERROR s1 else []))
         else if length f = 14 then (s1, e1)
         else let
           (u8Status, e2) = pd_PersistModelMode env (f ! 12) s1;
           e3 = pd_SendModelAck (f ! 12) u8Status s1;
           (s2, e4) = (if u8Status = PD_MODEL_ACK_SAVED then pd_ScheduleAlgRestart env s1 else (s1, []))
         in (s2, e1 @ e2 @ e3 @ e4))"

definition pd_ProcessSonixFrame :: "reply \<Rightarrow> byte list \<Rightarrow> sonix \<Rightarrow> sonix \<times> effect list" where
  "pd_ProcessSonixFrame env f s =
     (if length f < 6 \<or> unat (f ! 2) \<noteq> length f then (s, [])
      else let
        u16Crc = crc16_Gen (take (length f - 4) (drop 2 f));
        u16FrameCrc = u16_of (f ! (length f - 2)) (f ! (length f - 1))
      in if u16Crc \<noteq> u16FrameCrc then (s, [])
         else if f ! 0 = 0xff \<and> f ! 1 = 0xbb then (pd_HandleAreaFrame f s, [])
         else if f ! 0 = 0xff \<and> f ! 1 = 0xcc then pd_HandlePalletFrame env f s
         else (s, []))"

subsection \<open>Cutting the stream\<close>

datatype uart_event = Version_Request | Sonix_Frame "byte list"

text \<open>One received byte: the buffer after it and the event it completes.\<close>

definition uart_byte :: "byte list \<Rightarrow> byte \<Rightarrow> byte list \<times> uart_event list" where
  "uart_byte au8Frame u8Byte =
     (if au8Frame = [] \<and> u8Byte \<noteq> 0xff then ([], [])
      else let buf = au8Frame @ [u8Byte]; uFrameBytes = length buf in
        if uFrameBytes = 2 \<and> buf ! 1 = 0xdd then ([], [Version_Request])
        else if uFrameBytes = 2 \<and> buf ! 1 \<noteq> 0xbb \<and> buf ! 1 \<noteq> 0xcc then
          (if u8Byte = 0xff then take 1 buf else [], [])
        else if uFrameBytes = 3 \<and> unat (buf ! 2) < 6 then ([], [])
        else if 3 \<le> uFrameBytes \<and> uFrameBytes = unat (buf ! 2) then ([], [Sonix_Frame buf])
        else (buf, []))"

fun uart_bytes :: "byte list \<Rightarrow> byte list \<Rightarrow> byte list \<times> uart_event list" where
  "uart_bytes buf [] = (buf, [])"
| "uart_bytes buf (b # bs) =
     (let (buf1, ev1) = uart_byte buf b; (buf2, ev2) = uart_bytes buf1 bs in (buf2, ev1 @ ev2))"

primrec uart_event_step :: "byte list \<Rightarrow> reply \<Rightarrow> uart_event \<Rightarrow> sonix \<Rightarrow> sonix \<times> effect list" where
  "uart_event_step version env Version_Request s = (s, sendversion2sonix version)"
| "uart_event_step version env (Sonix_Frame f) s = pd_ProcessSonixFrame env f s"

text \<open>The receiver's loop body: one \<open>read\<close>, whose bytes are cut and handled one event after the other.
  Events do not touch the buffer.  \<open>env n\<close> are the answers the \<open>n\<close>-th event of the chunk meets.\<close>

fun uart_events :: "byte list \<Rightarrow> (nat \<Rightarrow> reply) \<Rightarrow> uart_event list \<Rightarrow> sonix \<Rightarrow> sonix \<times> effect list" where
  "uart_events version env [] s = (s, [])"
| "uart_events version env (e # es) s =
     (let (s1, o1) = uart_event_step version (env 0) e s;
          (s2, o2) = uart_events version (\<lambda>n. env (Suc n)) es s1 in (s2, o1 @ o2))"

definition uart_receive ::
  "byte list \<Rightarrow> (nat \<Rightarrow> reply) \<Rightarrow> byte list \<Rightarrow> byte list \<times> sonix \<Rightarrow> (byte list \<times> sonix) \<times> effect list" where
  "uart_receive version env au8ReadBuf st =
     (let (buf, es) = uart_bytes (fst st) au8ReadBuf; (s, out) = uart_events version env es (snd st)
      in ((buf, s), out))"

subsection \<open>The receive buffer\<close>

definition frame_wf :: "byte list \<Rightarrow> bool" where
  "frame_wf f \<longleftrightarrow> 6 \<le> length f \<and> f ! 0 = 0xff \<and> (f ! 1 = 0xbb \<or> f ! 1 = 0xcc) \<and> unat (f ! 2) = length f"

definition buf_ok :: "byte list \<Rightarrow> bool" where
  "buf_ok buf \<longleftrightarrow> (1 \<le> length buf \<longrightarrow> buf ! 0 = 0xff) \<and>
     (2 \<le> length buf \<longrightarrow> buf ! 1 = 0xbb \<or> buf ! 1 = 0xcc) \<and>
     (3 \<le> length buf \<longrightarrow> 6 \<le> unat (buf ! 2) \<and> length buf < unat (buf ! 2))"

lemma byte_less: "unat (b :: byte) < 256"
  using unsigned_less [of b] by simp

lemma buf_ok_length: "buf_ok buf \<Longrightarrow> length buf < 255"
  using byte_less [of "buf ! 2"] by (cases "3 \<le> length buf") (auto simp: buf_ok_def)

lemma frame_wf_length: "frame_wf f \<Longrightarrow> length f < 256"
  using byte_less [of "f ! 2"] by (simp add: frame_wf_def)

lemma uart_byte_ok:
  assumes ok: "buf_ok buf" and u: "uart_byte buf b = (buf', es)"
  shows "buf_ok buf' \<and> (\<forall>f. Sonix_Frame f \<in> set es \<longrightarrow> frame_wf f)"
proof -
  consider "length buf = 0" | "length buf = 1" | "length buf = 2" | "3 \<le> length buf" by linarith
  then show ?thesis
  proof cases
    case 1
    then show ?thesis using u by (auto simp: uart_byte_def buf_ok_def split: if_splits)
  next
    case 2
    then obtain x where x: "buf = [x]" by (cases buf) auto
    show ?thesis using u ok by (auto simp: uart_byte_def buf_ok_def x Let_def split: if_splits)
  next
    case 3
    then obtain x y where x: "buf = [x, y]" by (auto simp: length_Suc_conv numeral_2_eq_2)
    show ?thesis using u ok by (auto simp: uart_byte_def buf_ok_def frame_wf_def x Let_def split: if_splits)
  next
    case 4
    then have nth: "(buf @ [b]) ! 0 = buf ! 0" "(buf @ [b]) ! 1 = buf ! 1" "(buf @ [b]) ! 2 = buf ! 2"
      by (auto simp: nth_append)
    from 4 have "buf \<noteq> []" by auto
    with u 4 ok show ?thesis
      by (auto simp: uart_byte_def Let_def nth [simplified] buf_ok_def frame_wf_def split: if_splits)
  qed
qed

lemma uart_bytes_ok:
  "buf_ok buf \<Longrightarrow> uart_bytes buf bs = (buf', es) \<Longrightarrow>
   buf_ok buf' \<and> (\<forall>f. Sonix_Frame f \<in> set es \<longrightarrow> frame_wf f)"
proof (induction bs arbitrary: buf buf' es)
  case (Cons b bs)
  obtain buf1 ev1 where 1: "uart_byte buf b = (buf1, ev1)" by fastforce
  obtain buf2 ev2 where 2: "uart_bytes buf1 bs = (buf2, ev2)" by fastforce
  from uart_byte_ok [OF Cons.prems(1) 1] Cons.IH [OF _ 2] Cons.prems(2) 1 2 show ?case by auto
qed simp

lemma uart_bytes_append:
  "uart_bytes buf (xs @ ys) =
     (let (buf1, ev1) = uart_bytes buf xs; (buf2, ev2) = uart_bytes buf1 ys in (buf2, ev1 @ ev2))"
  by (induction xs arbitrary: buf) (auto simp: Let_def split: prod.split)

subsection \<open>Frames come out as they were sent\<close>

lemma uart_byte_prefix:
  assumes wf: "frame_wf f" and n: "n < length f"
  shows "uart_byte (take n f) (f ! n) =
    (if Suc n = length f then ([], [Sonix_Frame f]) else (take (Suc n) f, []))"
proof -
  have t: "take n f @ [f ! n] = take (Suc n) f" using n by (simp add: take_Suc_conv_app_nth)
  have f0: "take n f = [] \<longleftrightarrow> n = 0" using n by auto
  have i: "take (Suc n) f ! i = f ! i" if "i \<le> n" for i using that by simp
  consider "n = 0" | "n = 1" | "n = 2" | "3 \<le> n" by linarith
  then show ?thesis
  proof cases
    case 1
    then show ?thesis using wf n unfolding uart_byte_def Let_def t f0 frame_wf_def by auto
  next
    case 2
    then show ?thesis using wf n i [of 1] unfolding uart_byte_def Let_def t f0 frame_wf_def by auto
  next
    case 3
    then show ?thesis using wf n i [of 2] unfolding uart_byte_def Let_def t f0 frame_wf_def by auto
  next
    case 4
    then show ?thesis using wf n i [of 2] unfolding uart_byte_def Let_def t f0 frame_wf_def by auto
  qed
qed

lemma uart_bytes_frame:
  assumes wf: "frame_wf f" and n: "n < length f"
  shows "uart_bytes (take n f) (drop n f) = ([], [Sonix_Frame f])"
  using n
proof (induction "length f - n" arbitrary: n)
  case (Suc d)
  have d: "drop n f = f ! n # drop (Suc n) f" using Suc.prems by (simp add: Cons_nth_drop_Suc)
  show ?case
  proof (cases "Suc n = length f")
    case True
    then show ?thesis by (simp add: d uart_byte_prefix [OF wf Suc.prems])
  next
    case False
    then have "uart_bytes (take (Suc n) f) (drop (Suc n) f) = ([], [Sonix_Frame f])"
      using Suc by (intro Suc.hyps(1)) auto
    with False show ?thesis by (simp add: d uart_byte_prefix [OF wf Suc.prems])
  qed
qed simp

lemma uart_bytes_noise: "0xff \<notin> set bs \<Longrightarrow> uart_bytes [] bs = ([], [])"
  by (induction bs) (auto simp: uart_byte_def)

lemma uart_bytes_stream:
  "(\<And>n f. (n, f) \<in> set nfs \<Longrightarrow> 0xff \<notin> set n \<and> frame_wf f) \<Longrightarrow>
   uart_bytes [] (concat (map (\<lambda>(n, f). n @ f) nfs)) = ([], map (Sonix_Frame \<circ> snd) nfs)"
proof (induction nfs)
  case (Cons nf nfs)
  obtain n f where nf: "nf = (n, f)" by fastforce
  have wf: "0xff \<notin> set n" "frame_wf f" using Cons.prems nf by auto
  then have "uart_bytes [] f = ([], [Sonix_Frame f])"
    using uart_bytes_frame [of f 0] by (cases f) (auto simp: frame_wf_def simp del: uart_bytes.simps)
  moreover have "uart_bytes [] (concat (map (\<lambda>(n, f). n @ f) nfs)) = ([], map (Sonix_Frame \<circ> snd) nfs)"
    by (rule Cons.IH) (use Cons.prems in auto)
  ultimately show ?case using wf by (simp add: nf uart_bytes_append uart_bytes_noise)
qed simp

text \<open>A frame as the board builds it: header, length, payload, checksum of length and payload.\<close>

definition mk_frame :: "byte \<Rightarrow> byte list \<Rightarrow> byte list" where
  "mk_frame h p = (let body = of_nat (length p + 5) # p; c = crc16_Gen body
     in [0xff, h] @ body @ [lo_byte c, hi_byte c])"

lemma u16_of_bytes: "u16_of (lo_byte w) (hi_byte w) = w"
  unfolding u16_of_def lo_byte_def hi_byte_def
  by (rule bit_word_eqI) (auto simp: bit_simps dest: bit_imp_le_length)

lemma u16_of_inj: "u16_of a b = u16_of c d \<Longrightarrow> a = c \<and> b = d"
proof -
  assume eq: "u16_of a b = u16_of c d"
  have "a = c"
  proof (rule bit_word_eqI)
    fix n assume "n < LENGTH(8)"
    then show "bit a n = bit c n"
      using arg_cong [OF eq, of "\<lambda>w. bit w n"] by (simp add: u16_of_def bit_simps)
  qed
  moreover have "b = d"
  proof (rule bit_word_eqI)
    fix n assume "n < LENGTH(8)"
    then show "bit b n = bit d n"
      using arg_cong [OF eq, of "\<lambda>w. bit w (n + 8)"]
      by (auto simp: u16_of_def bit_simps dest: bit_imp_le_length)
  qed
  ultimately show ?thesis by simp
qed

lemma mk_frame_list:
  "mk_frame h p = [0xff, h, of_nat (length p + 5)] @ p @
     [lo_byte (crc16_Gen (of_nat (length p + 5) # p)), hi_byte (crc16_Gen (of_nat (length p + 5) # p))]"
  by (simp add: mk_frame_def Let_def)

lemma unat_small: "n < 256 \<Longrightarrow> unat (of_nat n :: byte) = n"
  by (simp add: unat_of_nat take_bit_nat_def)

lemma mk_frame_simps:
  shows "length (mk_frame h p) = length p + 5" "mk_frame h p ! 0 = 0xff" "mk_frame h p ! 1 = h"
    "mk_frame h p ! 2 = of_nat (length p + 5)"
    "i < length p \<Longrightarrow> mk_frame h p ! (i + 3) = p ! i"
    "mk_frame h p ! (length p + 3) = lo_byte (crc16_Gen (of_nat (length p + 5) # p))"
    "mk_frame h p ! (length p + 4) = hi_byte (crc16_Gen (of_nat (length p + 5) # p))"
    "take (length p + 1) (drop 2 (mk_frame h p)) = of_nat (length p + 5) # p"
  by (simp_all add: mk_frame_list nth_append)

text \<open>A received payload and checksum, of the length the frame says.\<close>

lemma process_frame:
  assumes n: "length p \<le> 250" "0 < length p"
  shows "pd_ProcessSonixFrame env ([0xff, h, of_nat (length p + 5)] @ p @ [lo, hi]) s =
    (if crc16_Gen (of_nat (length p + 5) # p) \<noteq> u16_of lo hi then (s, [])
     else let f = [0xff, h, of_nat (length p + 5)] @ p @ [lo, hi] in
       if h = 0xbb then (pd_HandleAreaFrame f s, [])
       else if h = 0xcc then pd_HandlePalletFrame env f s else (s, []))"
proof -
  let ?f = "[0xff, h, of_nat (length p + 5)] @ p @ [lo, hi]"
  have "unat (?f ! 2) = length ?f" using n unat_small [of "length p + 5"] by simp
  moreover have "take (length ?f - 4) (drop 2 ?f) = of_nat (length p + 5) # p" by simp
  moreover have "?f ! (length ?f - 2) = lo" "?f ! (length ?f - 1) = hi" by (simp_all add: nth_append)
  moreover have "\<not> length ?f < 6" "?f ! 0 = 0xff" "?f ! 1 = h" using n by simp_all
  ultimately show ?thesis unfolding pd_ProcessSonixFrame_def Let_def by (simp only: if_True if_False simp_thms)
qed

lemma mk_frame_wf:
  "h = 0xbb \<or> h = 0xcc \<Longrightarrow> 0 < length p \<Longrightarrow> length p \<le> 250 \<Longrightarrow> frame_wf (mk_frame h p)"
  using unat_small [of "length p + 5"] by (cases p) (auto simp: frame_wf_def mk_frame_list nth_append)

lemma crc_two_bytes_differ:
  assumes "length d = length d'" "length d \<le> 2" "d \<noteq> d'" "d \<noteq> []"
  shows "crc16_Gen (zs @ d @ ys) \<noteq> crc16_Gen (zs @ d' @ ys)"
proof -
  have "foldl crc_step c d \<noteq> foldl crc_step c d'" for c
  proof -
    consider a b where "d = [a]" "d' = [b]" | a1 a2 b1 b2 where "d = [a1, a2]" "d' = [b1, b2]"
      using assms by (cases d; cases d'; cases "tl d"; cases "tl d'") auto
    then show ?thesis using assms(3) by cases (auto simp: crc_step_inj_byte dest: crc_step2_inj)
  qed
  moreover have "zs @ d @ ys \<noteq> []" "zs @ d' @ ys \<noteq> []" using assms by auto
  ultimately show ?thesis by (simp add: crc16_Gen_eq_iff foldl_crc_inj del: append_is_Nil_conv)
qed

subsection \<open>Area frames\<close>

lemma uint_bytes: "uint (w :: 16 word) = uint (hi_byte w) * 256 + uint (lo_byte w)"
proof -
  have "uint (lo_byte w) = uint w mod 256"
    by (simp add: lo_byte_def unsigned_ucast_eq take_bit_eq_mod)
  moreover have "uint (hi_byte w) = uint w div 256"
  proof -
    have "take_bit 16 (uint w) = uint w" using uint_lt2p [of w] by (simp add: take_bit_int_eq_self)
    then have "uint (hi_byte w) = take_bit 8 (drop_bit 8 (uint w))"
      by (simp add: hi_byte_def unsigned_ucast_eq unsigned_drop_bit_eq)
    also have "\<dots> = uint w div 256"
    proof -
      have "uint w < 65536" using uint_lt2p [of w] by simp
      then have "uint w div 256 < 256" by linarith
      moreover have "0 \<le> uint w div 256" by (simp add: pos_imp_zdiv_nonneg_iff)
      ultimately show ?thesis by (simp add: drop_bit_eq_div take_bit_eq_mod mod_pos_pos_trivial)
    qed
    finally show ?thesis .
  qed
  ultimately show ?thesis by (simp add: mult.commute)
qed

lemma le16_bytes: "0 \<le> x \<Longrightarrow> x < 65536 \<Longrightarrow> le16 (lo_byte (of_int x)) (hi_byte (of_int x)) = x"
  using uint_bytes [of "of_int x"] by (simp add: le16_def uint_word_of_int)

definition area_payload ::
  "byte \<Rightarrow> int \<Rightarrow> int \<Rightarrow> int \<Rightarrow> int \<Rightarrow> int \<Rightarrow> int \<Rightarrow> int \<Rightarrow> int \<Rightarrow> byte list" where
  "area_payload ch tx1 tx2 bx1 bx2 ty r2 r3 by' =
     ch # concat (map (\<lambda>x. [lo_byte (of_int x), hi_byte (of_int x)]) [tx1, tx2, bx1, bx2, ty, r2, r3, by'])"

definition area_of :: "int \<Rightarrow> int \<Rightarrow> int \<Rightarrow> int \<Rightarrow> int \<Rightarrow> int \<Rightarrow> int \<Rightarrow> int \<Rightarrow> Area_Info" where
  "area_of tx1 tx2 bx1 bx2 ty r2 r3 by' = (get_line_info (Area_Info_zero\<lparr>line_top_x1 := tx1, line_top_x2 := tx2,
     line_bottom_x1 := bx1, line_bottom_x2 := bx2, line_top_y := ty, line_bottom_y := by',
     line_second_y := ty + (by' - ty) * r2 div 12, line_third_y := ty + (by' - ty) * r3 div 12\<rparr>))\<lparr>recive_flag := 1\<rparr>"

lemma band_ok:
  assumes "0 \<le> ty" "ty < by'" "by' \<le> 2047" "0 \<le> r" "r \<le> 12"
  shows "s16 (s32 (ty + tdiv (s32 (s32 (by' - ty) * r)) 12)) = ty + (by' - ty) * r div 12"
    and "ty \<le> ty + (by' - ty) * r div 12" "ty + (by' - ty) * r div 12 \<le> by'"
proof -
  have m: "0 \<le> (by' - ty) * r" "(by' - ty) * r \<le> (by' - ty) * 12"
    by (use assms in simp) (use assms in \<open>intro mult_left_mono; simp\<close>)
  then have d: "0 \<le> (by' - ty) * r div 12" "(by' - ty) * r div 12 \<le> by' - ty"
    using zdiv_mono1 [of "(by' - ty) * r" "(by' - ty) * 12" 12] by auto
  have "s32 (by' - ty) = by' - ty" using assms by (simp add: s32_id)
  moreover have "s32 ((by' - ty) * r) = (by' - ty) * r" 
  proof -
    have "(by' - ty) * 12 \<le> 24564" using assms by simp
    then have "(by' - ty) * r \<le> 24564" using m(2) by (rule order_trans [rotated])
    then show ?thesis by (intro s32_id) (use m(1) in linarith)+
  qed
  moreover have "tdiv ((by' - ty) * r) 12 = (by' - ty) * r div 12" using m by (simp add: tdiv_nonneg)
  ultimately show "s16 (s32 (ty + tdiv (s32 (s32 (by' - ty) * r)) 12)) = ty + (by' - ty) * r div 12"
    using d assms by (simp add: s32_id s16_id)
  show "ty \<le> ty + (by' - ty) * r div 12" "ty + (by' - ty) * r div 12 \<le> by'" using d by auto
qed

lemma HandleArea_payload:
  assumes ch: "unat ch < 4" and c: "{tx1, tx2, bx1, bx2, ty, by'} \<subseteq> {0..2047}" and y: "ty < by'"
    and r: "0 \<le> r2" "r2 \<le> 12" "0 \<le> r3" "r3 \<le> 12"
    and f: "f = [0xff, 0xbb, n] @ area_payload ch tx1 tx2 bx1 bx2 ty r2 r3 by' @ [lo, hi]"
  shows "pd_HandleAreaFrame f s =
    s\<lparr>Area_Info_Get := (Area_Info_Get s)[unat ch := area_of tx1 tx2 bx1 bx2 ty r2 r3 by']\<rparr>"
proof -
  have len: "length f = 22" by (simp add: f area_payload_def)
  have nth: "f ! 3 = ch" "le16 (f ! 4) (f ! 5) = tx1" "le16 (f ! 6) (f ! 7) = tx2" "le16 (f ! 8) (f ! 9) = bx1"
    "le16 (f ! 10) (f ! 11) = bx2" "le16 (f ! 12) (f ! 13) = ty" "le16 (f ! 14) (f ! 15) = r2"
    "le16 (f ! 16) (f ! 17) = r3" "le16 (f ! 18) (f ! 19) = by'"
    using c r by (simp_all add: f area_payload_def le16_bytes)
  have s: "s16 x = x" if "x \<in> {0..2047}" for x using that by (simp add: s16_id)
  have A: "(get_line_info (A\<lparr>line_top_x1 := tx1, line_top_x2 := tx2, line_bottom_x1 := bx1, line_bottom_x2 := bx2,
      line_top_y := ty, line_bottom_y := by', line_second_y := y2, line_third_y := y3\<rparr>))\<lparr>recive_flag := 1\<rparr> =
    (get_line_info (Area_Info_zero\<lparr>line_top_x1 := tx1, line_top_x2 := tx2, line_bottom_x1 := bx1, line_bottom_x2 := bx2,
      line_top_y := ty, line_bottom_y := by', line_second_y := y2, line_third_y := y3\<rparr>))\<lparr>recive_flag := 1\<rparr>"
    for A :: Area_Info and y2 y3
    by (cases A) (simp add: get_line_info_def Area_Info_zero_def Let_def)
  have b: "s16 (s32 (ty + tdiv (s32 (s32 (by' - ty) * r2)) 12)) = ty + (by' - ty) * r2 div 12"
    "s16 (s32 (ty + tdiv (s32 (s32 (by' - ty) * r3)) 12)) = ty + (by' - ty) * r3 div 12"
    using c y r by (auto intro!: band_ok)
  have s': "s16 tx1 = tx1" "s16 tx2 = tx2" "s16 bx1 = bx1" "s16 bx2 = bx2" "s16 ty = ty" "s16 by' = by'"
    using c s by auto
  show ?thesis unfolding pd_HandleAreaFrame_def Let_def nth len s' b
    by (subst A) (use ch in \<open>simp add: area_of_def\<close>)
qed

subsection \<open>Restarts\<close>

definition restarts :: "effect list \<Rightarrow> nat" where
  "restarts es = length (filter (\<lambda>e. e = Restart_Thread) es)"

lemma restarts_simps [simp]:
  "restarts [] = 0" "restarts (xs @ ys) = restarts xs + restarts ys"
  "restarts (e # es) = (if e = Restart_Thread then 1 else 0) + restarts es"
  by (simp_all add: restarts_def)

lemma ack_restarts [simp]: "restarts (pd_SendModelAck m st s) = 0"
  by (simp add: pd_SendModelAck_def Let_def)

lemma Persist_restarts: "pd_PersistModelMode env m s = (st, es) \<Longrightarrow> restarts es = 0"
  by (auto simp: pd_PersistModelMode_def Let_def split: if_splits option.splits)

lemma Pallet_restarts:
  assumes "pd_HandlePalletFrame env f s = (s', es)"
  shows "restarts es + of_bool (g_bRestartScheduled s) = of_bool (g_bRestartScheduled s')"
  using assms
  by (auto simp: pd_HandlePalletFrame_def pd_ScheduleAlgRestart_def Let_def
      split: if_splits prod.splits dest!: Persist_restarts)

lemma event_restarts:
  "uart_event_step v env e s = (s', es) \<Longrightarrow>
   restarts es + of_bool (g_bRestartScheduled s) = of_bool (g_bRestartScheduled s')"
  using Pallet_restarts [of env "case e of Sonix_Frame f \<Rightarrow> f | Version_Request \<Rightarrow> []" s s' es]
  by (cases e)
    (auto simp: sendversion2sonix_def pd_ProcessSonixFrame_def Let_def pd_HandleAreaFrame_def of_bool_def
      split: if_splits)

lemma events_restarts:
  "uart_events v env evs s = (s', es) \<Longrightarrow>
   restarts es + of_bool (g_bRestartScheduled s) = of_bool (g_bRestartScheduled s')"
proof (induction evs arbitrary: env s s' es)
  case (Cons e evs)
  obtain s1 o1 where 1: "uart_event_step v (env 0) e s = (s1, o1)" by fastforce
  obtain s2 o2 where 2: "uart_events v (\<lambda>n. env (Suc n)) evs s1 = (s2, o2)" by fastforce
  have "es = o1 @ o2" "s' = s2" using Cons.prems by (simp_all add: 1 2)
  with event_restarts [OF 1] Cons.IH [OF 2] show ?case by simp
qed simp

subsection \<open>Properties\<close>

definition sonix_sample :: sonix where
  "sonix_sample = \<lparr>Area_Info_Get = replicate 4 Area_Info_zero,
    g_stPalletDetectParams = \<lparr>u32CaliLine = 0, u32TurnoffTime = 0, u32FlowFrameInterval = 0, u32Range1 = 0,
      u32Range2 = 0, u32Range3 = 0, fFLowPauseDuration = 0, fFlowRunDuration = 0, fPalletDetectSensity = 0\<rparr>,
    g_bPalletParamsReady = False, g_bFlowPalletMode = False, g_bRestartScheduled = False, s32SerialFd = 3\<rparr>"

definition reply_sample :: reply where
  "reply_sample = \<lparr>SaveParams_ok = True, CONFIG_ReloadFile_ok = True, CONFIG_GetAlgParam = Some E_PDS_PC,
     CONFIG_SetAlgParam_ok = True, pthread_create_ok = True\<rparr>"

text \<open>C10: whatever bytes arrive on the serial line, in whatever portions, the receive buffer of 255 bytes
  is never overrun and only frames with a known header whose length byte is their real length, at least
  six, are handed on.\<close>

theorem uart_receiver_safe:
  "length (fst (uart_bytes [] bs)) < 255 \<and>
   list_all (\<lambda>e. case e of Version_Request \<Rightarrow> True | Sonix_Frame f \<Rightarrow>
     6 \<le> length f \<and> length f \<le> 255 \<and> f ! 0 = 0xff \<and> (f ! 1 = 0xbb \<or> f ! 1 = 0xcc) \<and> unat (f ! 2) = length f)
     (snd (uart_bytes [] bs))"
proof -
  obtain buf es where u: "uart_bytes [] bs = (buf, es)" by fastforce
  have "buf_ok []" by (simp add: buf_ok_def)
  note ok = uart_bytes_ok [OF this u]
  have "case e of Version_Request \<Rightarrow> True | Sonix_Frame f \<Rightarrow>
     6 \<le> length f \<and> length f \<le> 255 \<and> f ! 0 = 0xff \<and> (f ! 1 = 0xbb \<or> f ! 1 = 0xcc) \<and> unat (f ! 2) = length f"
    if "e \<in> set es" for e
  proof (cases e)
    case (Sonix_Frame f)
    then have "frame_wf f" using ok that by simp
    then show ?thesis using frame_wf_length [of f] by (simp add: Sonix_Frame frame_wf_def)
  qed simp
  then show ?thesis using ok buf_ok_length [of buf] by (simp add: u list_all_iff)
qed

text \<open>C11: frames built by the sender and separated by any bytes other than 0xff are recognised exactly,
  in order, and leave the receiver idle.\<close>

theorem uart_stream_roundtrip:
  assumes "\<forall>(noise, h, p) \<in> set xs. 0xff \<notin> set noise \<and> (h = 0xbb \<or> h = 0xcc) \<and> 0 < length p \<and> length p \<le> 250"
  shows "uart_bytes [] (concat (map (\<lambda>(noise, h, p). noise @ mk_frame h p) xs)) =
    ([], map (\<lambda>(noise, h, p). Sonix_Frame (mk_frame h p)) xs)"
proof -
  let ?g = "\<lambda>(noise, h, p). (noise, mk_frame h p)"
  have "0xff \<notin> set n \<and> frame_wf f" if "(n, f) \<in> set (map ?g xs)" for n f
  proof -
    from that obtain h p where "(n, h, p) \<in> set xs" "f = mk_frame h p" by auto
    with assms show ?thesis by (auto intro: mk_frame_wf)
  qed
  from uart_bytes_stream [of "map ?g xs", OF this] show ?thesis
    by (simp add: case_prod_unfold comp_def)
qed

theorem uart_stream_roundtrip_witness:
  "uart_bytes [] ([1, 2] @ mk_frame 0xcc [0, 1, 0] @ [7] @ mk_frame 0xbb [3]) =
    ([], [Sonix_Frame (mk_frame 0xcc [0, 1, 0]), Sonix_Frame (mk_frame 0xbb [3])])"
  using uart_stream_roundtrip [of "[([1, 2], 0xcc, [0, 1, 0]), ([7], 0xbb, [3])]"] by simp



text \<open>C13: an area frame sets the area of its channel and of no other to exactly the coordinates that were
  sent, with the yellow and the red band at the given twelfths of its height, ordered inside it, its sides
  computed and its received flag set.\<close>

theorem area_frame_roundtrip:
  assumes "unat ch < 4" and "{tx1, tx2, bx1, bx2, ty, by'} \<subseteq> {0..2047}" and "ty < by'"
    and "0 \<le> r2" and "r2 \<le> r3" and "r3 \<le> 12" and "length (Area_Info_Get s) = 4"
  shows "let s' = fst (pd_ProcessSonixFrame env (mk_frame 0xbb (area_payload ch tx1 tx2 bx1 bx2 ty r2 r3 by')) s);
             A = Area_Info_Get s' ! unat ch
         in s' = s\<lparr>Area_Info_Get := (Area_Info_Get s)[unat ch := A]\<rparr> \<and> A = area_of tx1 tx2 bx1 bx2 ty r2 r3 by' \<and>
            area_wf A \<and> recive_flag A = 1 \<and> line_info A = line_info (get_line_info A) \<and>
            ty \<le> line_second_y A \<and> line_second_y A \<le> line_third_y A \<and> line_third_y A \<le> by'"
proof -
  let ?p = "area_payload ch tx1 tx2 bx1 bx2 ty r2 r3 by'"
  have len: "length ?p = 17" by (simp add: area_payload_def)
  have e: "pd_ProcessSonixFrame env (mk_frame 0xbb ?p) s =
      (s\<lparr>Area_Info_Get := (Area_Info_Get s)[unat ch := area_of tx1 tx2 bx1 bx2 ty r2 r3 by']\<rparr>, [])"
    unfolding mk_frame_list
    using assms len HandleArea_payload [OF assms(1-3) assms(4) _ _ assms(6) refl]
    by (subst process_frame) (simp_all add: u16_of_bytes Let_def)
  let ?A = "area_of tx1 tx2 bx1 bx2 ty r2 r3 by'"
  have "(by' - ty) * r2 div 12 \<le> (by' - ty) * r3 div 12"
    using assms by (intro zdiv_mono1 mult_left_mono) auto
  then have "line_second_y ?A \<le> line_third_y ?A" by (simp add: area_of_def)
  moreover have "area_wf ?A" using assms by (simp add: area_of_def area_wf_def)
  moreover have "ty \<le> line_second_y ?A"
    using band_ok(2) [of ty by' r2] assms by (simp add: area_of_def)
  moreover have "line_third_y ?A \<le> by'"
    using band_ok(3) [of ty by' r3] assms by (simp add: area_of_def)
  moreover have "recive_flag ?A = 1" "line_info ?A = line_info (get_line_info ?A)"
    by (simp_all add: area_of_def get_line_info_def Let_def)
  moreover have "(Area_Info_Get s)[unat ch := ?A] ! unat ch = ?A" using assms by simp
  ultimately show ?thesis unfolding e Let_def fst_conv sonix.simps by simp
qed

theorem area_frame_roundtrip_witness:
  "line_third_y (Area_Info_Get (fst (pd_ProcessSonixFrame reply_sample
       (mk_frame 0xbb (area_payload 2 390 640 165 865 180 4 8 580)) sonix_sample)) ! unat (2 :: byte)) \<le> 580"
  by (rule area_frame_roundtrip [of 2 390 640 165 865 180 580 4 8 sonix_sample reply_sample, unfolded Let_def,
      THEN conjunct2, THEN conjunct2, THEN conjunct2, THEN conjunct2, THEN conjunct2, THEN conjunct2, THEN conjunct2])
    (simp_all add: sonix_sample_def)

text \<open> the acknowledgement of a mode request is itself a frame the receiver of this protocol accepts: it is
  built with the length and checksum every frame has, and carries source 0, the mode and the status.\<close>

theorem model_ack_is_frame:
  "pd_SendModelAck m st s =
     (if 0 < s32SerialFd s then [Serial_Write (mk_frame 0xcc [0, m, ack_code st])] else []) \<and>
   uart_bytes [] (mk_frame 0xcc [0, m, ack_code st]) = ([], [Sonix_Frame (mk_frame 0xcc [0, m, ack_code st])])"
proof -
  let ?f = "mk_frame 0xcc [0, m, ack_code st]"
  have "frame_wf ?f" by (rule mk_frame_wf) simp_all
  then have "uart_bytes [] ?f = ([], [Sonix_Frame ?f])"
    using uart_bytes_frame [of ?f 0] by (simp add: mk_frame_list del: uart_bytes.simps)
  then show ?thesis by (simp add: pd_SendModelAck_def mk_frame_list Let_def del: uart_bytes.simps)
qed

text \<open> whatever frames arrive, the process is scheduled for a restart at most once, and not again when it
  already was.\<close>

theorem restart_at_most_once:
  "restarts (snd (uart_events v env evs s)) \<le> (if g_bRestartScheduled s then 0 else 1)"
  using events_restarts [of v env evs s] by (cases "uart_events v env evs s") (auto simp: of_bool_def split: if_splits)

text \<open>C17: the stored model changes only for a fifteen-byte frame that asks for mode 0 or 1 while the stored
  model is another one, and to the model asked for; a restart is scheduled only after the status
  "saved" has been written to the board (when the line is open).\<close>

theorem pallet_frame_model_safety:
  assumes "pd_HandlePalletFrame env f s = (s', es)"
  shows "(\<forall>m. CONFIG_SetAlgParam m \<in> set es \<longrightarrow> length f = 15 \<and>
       (f ! 12 = 0 \<and> m = PD_CONFIG_MODEL_BSD \<or> f ! 12 = 1 \<and> m = PD_CONFIG_MODEL_FLOW_PALLET) \<and>
       CONFIG_GetAlgParam env \<noteq> Some m) \<and>
    (Restart_Thread \<in> set es \<longrightarrow> length f = 15 \<and> \<not> g_bRestartScheduled s \<and>
       (\<exists>pre. es = pre @ pd_SendModelAck (f ! 12) PD_MODEL_ACK_SAVED s @ [Restart_Thread] \<and> Restart_Thread \<notin> set pre))"
proof -
  have ack: "x \<in> set (pd_SendModelAck m st t) \<Longrightarrow> \<exists>b. x = Serial_Write b" for x m st t
    by (auto simp: pd_SendModelAck_def Let_def split: if_splits)
  have fd: "pd_SendModelAck m st (s\<lparr>g_stPalletDetectParams := p\<rparr>) = pd_SendModelAck m st s" for m st p
    by (simp add: pd_SendModelAck_def)
  have persist: "(CONFIG_SetAlgParam x \<in> set e \<longrightarrow>
      (m = 0 \<and> x = PD_CONFIG_MODEL_BSD \<or> m = 1 \<and> x = PD_CONFIG_MODEL_FLOW_PALLET) \<and> CONFIG_GetAlgParam env \<noteq> Some x) \<and>
      Restart_Thread \<notin> set e" if "pd_PersistModelMode env m t = (st, e)" for m t st e x
    using that by (auto simp: pd_PersistModelMode_def Let_def split: if_splits option.splits)
  have sched: "Restart_Thread \<in> set e \<longrightarrow> e = [Restart_Thread] \<and> \<not> g_bRestartScheduled t"
    "CONFIG_SetAlgParam x \<notin> set e" if "pd_ScheduleAlgRestart env t = (t', e)" for t t' e x
    using that by (auto simp: pd_ScheduleAlgRestart_def split: if_splits)
  define p where "p = (if g_bPalletParamsReady s then pallet_params f (g_stPalletDetectParams s)
             else g_stPalletDetectParams s)"
  define e1 where "e1 = (if g_bPalletParamsReady s then [SaveParams p] else [])"
  have e1: "CONFIG_SetAlgParam x \<notin> set e1" "Restart_Thread \<notin> set e1" for x by (simp_all add: e1_def)
  obtain st e2 where 2: "pd_PersistModelMode env (f ! 12) (s\<lparr>g_stPalletDetectParams := p\<rparr>) = (st, e2)" by fastforce
  obtain s2 e4 where 4: "pd_ScheduleAlgRestart env (s\<lparr>g_stPalletDetectParams := p\<rparr>) = (s2, e4)" by fastforce
  consider "es = e1 \<or> es = [] \<or> es = e1 @ pd_SendModelAck (f ! 12) PD_MODEL_ACK_CONFIG_ERROR s"
    | "length f = 15" "st \<noteq> PD_MODEL_ACK_SAVED" "es = e1 @ e2 @ pd_SendModelAck (f ! 12) st s"
    | "length f = 15" "st = PD_MODEL_ACK_SAVED" "es = e1 @ e2 @ pd_SendModelAck (f ! 12) st s @ e4"
    using assms unfolding pd_HandlePalletFrame_def Let_def p_def [symmetric] e1_def [symmetric] 2 4 fd
    by (auto split: if_splits)
  then show ?thesis
  proof cases
    case 1
    then show ?thesis using e1 ack by fastforce
  next
    case 2
    then show ?thesis using e1 ack persist [OF \<open>pd_PersistModelMode _ _ _ = _\<close>] by fastforce
  next
    case 3
    note q = persist [OF 2] sched [OF 4]
    show ?thesis
    proof (intro conjI allI impI)
      fix m assume "CONFIG_SetAlgParam m \<in> set es"
      then have "CONFIG_SetAlgParam m \<in> set e2" using 3 e1 q(3) by (auto dest: ack)
      then show "length f = 15" "f ! 12 = 0 \<and> m = PD_CONFIG_MODEL_BSD \<or> f ! 12 = 1 \<and> m = PD_CONFIG_MODEL_FLOW_PALLET"
        "CONFIG_GetAlgParam env \<noteq> Some m" using q(1) 3 by auto
    next
      assume "Restart_Thread \<in> set es"
      then have "Restart_Thread \<in> set e4" using 3 e1 q(1) by (auto dest: ack)
      then have e4: "e4 = [Restart_Thread]" "\<not> g_bRestartScheduled s" using q(2) by auto
      show "length f = 15" "\<not> g_bRestartScheduled s" using 3 e4 by auto
      have "es = (e1 @ e2) @ pd_SendModelAck (f ! 12) PD_MODEL_ACK_SAVED s @ [Restart_Thread]"
        using 3 e4 by simp
      moreover have "Restart_Thread \<notin> set (e1 @ e2)" using e1 q(1) by simp
      ultimately show "\<exists>pre. es = pre @ pd_SendModelAck (f ! 12) PD_MODEL_ACK_SAVED s @ [Restart_Thread] \<and>
          Restart_Thread \<notin> set pre" by blast
    qed
  qed
qed

theorem pallet_frame_model_safety_witness:
  "let f = mk_frame 0xcc ([0] @ replicate 8 0 @ [1]); es = snd (pd_HandlePalletFrame reply_sample f sonix_sample)
   in Restart_Thread \<in> set es \<and>
     (\<exists>pre. es = pre @ pd_SendModelAck (f ! 12) PD_MODEL_ACK_SAVED sonix_sample @ [Restart_Thread])"
proof -
  define f where "f = mk_frame 0xcc ([0] @ replicate 8 0 @ [1])"
  have f: "length f = 15" "f ! 3 = 0" "f ! 12 = 1" by (simp_all add: f_def mk_frame_list nth_append)
  have "Restart_Thread \<in> set (snd (pd_HandlePalletFrame reply_sample f sonix_sample))"
    by (simp add: pd_HandlePalletFrame_def f reply_sample_def sonix_sample_def pd_PersistModelMode_def
        PD_CONFIG_MODEL_BSD_def PD_CONFIG_MODEL_FLOW_PALLET_def pd_ScheduleAlgRestart_def Let_def)
  with pallet_frame_model_safety [of reply_sample f sonix_sample "fst (pd_HandlePalletFrame reply_sample f sonix_sample)"
      "snd (pd_HandlePalletFrame reply_sample f sonix_sample)"]
  show ?thesis unfolding Let_def f_def [symmetric] by auto
qed

end
