(* ===== verification/Alarm.thy ===== *)
theory Alarm
  imports Sonix_Link "HOL-Library.Sublist" Ring_Queue Frame_Pipeline
begin

section \<open>Alarms and the monitor thread (pd/pd.cpp)\<close>

text \<open>
  The relay output (\<open>pd_Alarm_Out_test\<close> in the detection thread and the countdown in
  \<open>mpp_vpss_Monitor\<close>), the timed output \<open>pd_Alarm_Out\<close>, the three sound players and the decisions
  around them.  The relay is written by two threads without a lock: besides the whole operations there
  is a step relation whose steps are the single reads and writes of the shared variables, and the
  safety of the relay is proved for every interleaving of those.  The players are instances of one
  contract (locale \<open>preempting_player\<close>).
\<close>

subsection \<open>The relay\<close>

datatype alarm_effect = BOARD_SetAlarmOut int | Kill_Alg | Sonix_Cmd nat sonix_cmd
  | ALARM_PlayAlarm int int bool | avAlarm_Start int int | avAlarm_Stop | ALARM_PlayAudio_Shelter
  | ALG_AlarmOut_Switch bool

record PD_ALARM_NOTICE =
  enMode :: PD_ALARM_TYPE
  bPerson :: bool
  bCar :: bool
  s32Chn :: int
  u8DisplayMode :: int

definition DISPLAY_QUAD1 :: int where "DISPLAY_QUAD1 = 3"
definition DISPLAY_QUAD4 :: int where "DISPLAY_QUAD4 = 6"

definition pd_IsCh4InQuadView :: "PD_ALARM_NOTICE \<Rightarrow> bool" where
  "pd_IsCh4InQuadView n \<longleftrightarrow>
     s32Chn n = 3 \<and> DISPLAY_QUAD1 \<le> u8DisplayMode n \<and> u8DisplayMode n \<le> DISPLAY_QUAD4"

definition has_alarm_out :: "board \<Rightarrow> bool" where
  "has_alarm_out b \<longleftrightarrow> b \<in> {ADA32V2, ADA32V3, ADA32IR, ADA32N1, ADA47V1, ADA32C4}"

text \<open>\<open>up\<close>: the output is active high (\<open>TRIGGER_UP\<close>); \<open>err\<close>: what \<open>BOARD_SetAlarmOut\<close> answers.\<close>

definition pd_Alarm_Out_Reset :: "board \<Rightarrow> bool \<Rightarrow> sv_ret \<Rightarrow> sv_ret \<times> alarm_effect list" where
  "pd_Alarm_Out_Reset b up err =
     (if has_alarm_out b then (err, [BOARD_SetAlarmOut (if up then 0 else 1)]) else (SV_SUCCESS, []))"

definition pd_Alarm_Out_Enable :: "board \<Rightarrow> bool \<Rightarrow> sv_ret \<Rightarrow> PD_ALARM_TYPE \<Rightarrow> sv_ret \<times> alarm_effect list" where
  "pd_Alarm_Out_Enable b up err enAlarmType =
     (if enAlarmType \<noteq> PD_ALARM_TYPE_RED then pd_Alarm_Out_Reset b up err
      else if has_alarm_out b then (err, [BOARD_SetAlarmOut (if up then 1 else 0)]) else (SV_SUCCESS, []))"

definition pd_Alarm_Out_Init :: "board \<Rightarrow> bool \<Rightarrow> bool \<Rightarrow> sv_ret \<Rightarrow> sv_ret \<times> alarm_effect list" where
  "pd_Alarm_Out_Init b ftc up err =
     (let e = (if ftc then snd (pd_Alarm_Out_Enable b up err PD_ALARM_TYPE_RED) else []);
          (r, e') = pd_Alarm_Out_Reset b up err in (r, e @ e'))"

record relay =
  alarm_out_flag :: int
  alarm_out_lock :: bool
  cnt :: int

definition drives_relay :: "bool list \<Rightarrow> PD_ALARM_NOTICE \<Rightarrow> bool" where
  "drives_relay ALARM_OUTPUT_EN n \<longleftrightarrow> enMode n = PD_ALARM_TYPE_RED \<and> 0 \<le> s32Chn n \<and> s32Chn n < 4 \<and>
     ALARM_OUTPUT_EN ! nat (s32Chn n) \<and> \<not> pd_IsCh4InQuadView n"

definition pd_Alarm_Out_test ::
  "board \<Rightarrow> bool \<Rightarrow> bool list \<Rightarrow> PD_ALARM_NOTICE \<Rightarrow> relay \<Rightarrow> relay \<times> alarm_effect list" where
  "pd_Alarm_Out_test b up ALARM_OUTPUT_EN n r =
     (if drives_relay ALARM_OUTPUT_EN n then
        (r\<lparr>alarm_out_lock := True, cnt := 20, alarm_out_flag := 5\<rparr>,
         if \<not> alarm_out_lock r then snd (pd_Alarm_Out_Enable b up SV_SUCCESS PD_ALARM_TYPE_RED) else [])
      else let r1 = r\<lparr>cnt := u16 (cnt r - 1)\<rparr> in
        if alarm_out_lock r1 \<and> cnt r1 = 0 then
          (r1\<lparr>alarm_out_lock := False, alarm_out_flag := 0\<rparr>, snd (pd_Alarm_Out_Reset b up SV_SUCCESS))
        else (r1, []))"

text \<open>The countdown in the monitor's loop.\<close>

definition monitor_relay :: "board \<Rightarrow> bool \<Rightarrow> relay \<Rightarrow> relay \<times> alarm_effect list" where
  "monitor_relay b up r =
     (if 0 < alarm_out_flag r then
        let r1 = r\<lparr>alarm_out_flag := alarm_out_flag r - 1\<rparr> in
        if alarm_out_flag r1 = 0 then (r1\<lparr>alarm_out_lock := False\<rparr>, snd (pd_Alarm_Out_Reset b up SV_SUCCESS))
        else (r1, [])
      else (r, []))"

subsection \<open>The monitor\<close>

text \<open>\<open>search_CH\<close> looks for a substring; strings have no NUL characters.\<close>

fun match_count :: "string \<Rightarrow> string \<Rightarrow> nat" where
  "match_count (x # xs) (y # ys) = (if x = y then Suc (match_count xs ys) else 0)"
| "match_count _ _ = 0"

fun search_from :: "nat \<Rightarrow> string \<Rightarrow> string \<Rightarrow> int" where
  "search_from j [] sub = - 1"
| "search_from j (c # cs) sub =
     (if sub \<noteq> [] \<and> c = hd sub \<and> match_count (c # cs) sub = length sub then int j
      else search_from (Suc j) cs sub)"

definition search_CH :: "string \<Rightarrow> string \<Rightarrow> int" where
  "search_CH src sub = search_from 0 src sub"

record monitor =
  s32time_out :: int
  CH :: nat

text \<open>One round of the loop: \<open>ls\<close> is the answer of the \<open>ls\<close> command, \<open>None\<close> when it failed.\<close>

definition mpp_vpss_Monitor ::
  "board \<Rightarrow> bool \<Rightarrow> string option \<Rightarrow> string \<Rightarrow> Area_Info list \<Rightarrow> monitor \<times> relay \<Rightarrow>
   (monitor \<times> relay) \<times> alarm_effect list" where
  "mpp_vpss_Monitor b up ls v4l2_node areas st =
     (let (m, r) = st; m1 = m\<lparr>s32time_out := s32 (s32time_out m + 1)\<rparr>;
        e1 = (if 100 < s32time_out m1 then [Kill_Alg] else []);
        e2 = (case ls of None \<Rightarrow> [Kill_Alg] | Some buf \<Rightarrow> if search_CH buf v4l2_node = - 1 then [Kill_Alg] else []);
        e3 = (if recive_flag (areas ! CH m1) = 0 then [Sonix_Cmd (CH m1) CMD_AREA_INFO] else []);
        m2 = m1\<lparr>CH := (CH m1 + 1) mod 4\<rparr>;
        (r', e4) = monitor_relay b up r
      in ((m2, r'), e1 @ e2 @ e3 @ e4))"

subsection \<open>The timed output\<close>

record alarm_cfg =
  s32PdAlarmOutInterval :: int
  bPdAlarmOutGreen :: bool
  bPdAlarmOutYellow :: bool
  bPdAlarmOutRed :: bool

text \<open>The statics of \<open>pd_Alarm_Out\<close>; times in milliseconds.\<close>

record alarm_out =
  bTrigger :: bool
  ao_tvStart :: int
  ao_tvNow :: int
  lmode :: PD_ALARM_TYPE
  st_bStop :: bool

definition alarm_interval :: "alarm_cfg \<Rightarrow> int" where
  "alarm_interval p = (if 0 < s32PdAlarmOutInterval p then s32PdAlarmOutInterval p else 2000)"

definition alarm_out_skipped :: "alarm_cfg \<Rightarrow> PD_ALARM_NOTICE \<Rightarrow> bool" where
  "alarm_out_skipped p n \<longleftrightarrow> pd_IsCh4InQuadView n \<or> s32PdAlarmOutInterval p = 0 \<or>
     enMode n = PD_ALARM_TYPE_GREEN \<and> \<not> bPdAlarmOutGreen p \<or>
     enMode n = PD_ALARM_TYPE_YELLOW \<and> \<not> bPdAlarmOutYellow p \<or>
     enMode n = PD_ALARM_TYPE_RED \<and> \<not> bPdAlarmOutRed p \<or> enMode n = PD_ALARM_TYPE_NULL"

text \<open>Up to the loop: \<open>Some\<close> the interval when the loop is entered.\<close>

definition pd_Alarm_Out_enter :: "board \<Rightarrow> bool \<Rightarrow> alarm_cfg \<Rightarrow> int \<Rightarrow> PD_ALARM_NOTICE \<Rightarrow> alarm_out \<Rightarrow>
    alarm_out \<times> alarm_effect list \<times> int option" where
  "pd_Alarm_Out_enter b up p now n s =
     (if alarm_out_skipped p n then (s\<lparr>st_bStop := True\<rparr>, [], None)
      else let s1 = s\<lparr>st_bStop := False, lmode := enMode n\<rparr> in
        if bTrigger s1 then (s1\<lparr>ao_tvStart := now\<rparr>, [], None)
        else (s1\<lparr>bTrigger := True, ao_tvStart := now, ao_tvNow := now\<rparr>,
              snd (pd_Alarm_Out_Enable b up SV_SUCCESS (enMode n)), Some (alarm_interval p)))"

definition pd_Alarm_Out_loop :: "board \<Rightarrow> bool \<Rightarrow> bool \<Rightarrow> int \<Rightarrow> int \<Rightarrow> nat \<Rightarrow> alarm_out \<Rightarrow>
    (alarm_out \<times> nat option) \<times> alarm_effect list" where
  "pd_Alarm_Out_loop b ftc up s32Interval now i s =
     (if ao_tvNow s - ao_tvStart s < s32Interval \<or> \<not> st_bStop s then
        let i' = (i + 1) mod 10;
          pwm = (case lmode s of PD_ALARM_TYPE_GREEN \<Rightarrow> 3 | PD_ALARM_TYPE_YELLOW \<Rightarrow> 6 | _ \<Rightarrow> 10)
        in ((s\<lparr>ao_tvNow := now\<rparr>, Some i'),
            if ftc then (if i' < pwm then snd (pd_Alarm_Out_Enable b up SV_SUCCESS (lmode s))
                         else snd (pd_Alarm_Out_Reset b up SV_SUCCESS)) else [])
      else ((s\<lparr>bTrigger := False\<rparr>, None), snd (pd_Alarm_Out_Reset b up SV_SUCCESS)))"

subsection \<open>The sound players\<close>

text \<open>The statics \<open>mode\<close> and \<open>bPlay\<close> of a player.  A call is its admission, the playing (outside) and
  what it does afterwards.  The first component of an admission says whether it plays.\<close>

record player =
  mode :: int
  bPlay :: bool

definition pd_Audio_Play_enter :: "bool \<Rightarrow> PD_ALARM_NOTICE \<Rightarrow> player \<Rightarrow> bool \<times> player \<times> alarm_effect list" where
  "pd_Audio_Play_enter luis n s =
     (if enMode n = PD_ALARM_TYPE_NULL \<or> bPlay s \<and> alarm_code (enMode n) \<le> mode s then (False, s, [])
      else (True, s\<lparr>bPlay := True, mode := alarm_code (enMode n)\<rparr>,
            [ALARM_PlayAlarm (s32Chn n) (alarm_code (enMode n)) (\<not> (luis \<and> bCar n))]))"

definition pd_Audio_Play_leave :: "PD_ALARM_NOTICE \<Rightarrow> player \<Rightarrow> player" where
  "pd_Audio_Play_leave n s = (if mode s = alarm_code (enMode n) then s\<lparr>bPlay := False\<rparr> else s)"

record av_player =
  av :: player
  av_tvStart :: int

definition pd_avAlarmer_enter :: "alarm_cfg \<Rightarrow> int \<Rightarrow> int \<Rightarrow> PD_ALARM_NOTICE \<Rightarrow> av_player \<Rightarrow>
    bool \<times> av_player \<times> alarm_effect list" where
  "pd_avAlarmer_enter p enAudioType now n s =
     (let en = alarm_code (enMode n) in
      if enMode n = PD_ALARM_TYPE_NULL \<or> s32PdAlarmOutInterval p = 0 then (False, s, [])
      else if bPlay (av s) \<and> en \<le> mode (av s) then
        (False, if mode (av s) = en then s\<lparr>av_tvStart := now\<rparr> else s, [])
      else (True, s\<lparr>av := \<lparr>mode = en, bPlay = True\<rparr>, av_tvStart := now\<rparr>,
            [avAlarm_Start (if en = 1 then 1 else if en = 2 then 3 else if en = 3 then 5 else 0)
               ((enAudioType - 1) * 3 + (en - 1) + 1)]))"

text \<open>The wait: \<open>None\<close> while it goes on, else whether the call ends here by pre-emption.\<close>

definition pd_avAlarmer_wait :: "alarm_cfg \<Rightarrow> int \<Rightarrow> PD_ALARM_NOTICE \<Rightarrow> av_player \<Rightarrow> bool option" where
  "pd_avAlarmer_wait p now n s =
     (if now - av_tvStart s < alarm_interval p then
        if mode (av s) < alarm_code (enMode n) then Some True else None
      else Some False)"

definition pd_avAlarmer_leave :: "PD_ALARM_NOTICE \<Rightarrow> av_player \<Rightarrow> av_player \<times> alarm_effect list" where
  "pd_avAlarmer_leave n s =
     (if alarm_code (enMode n) \<le> mode (av s) then (s\<lparr>av := (av s)\<lparr>bPlay := False\<rparr>\<rparr>, [avAlarm_Stop]) else (s, []))"

definition pd_Audio_Shelter_enter :: "PD_ALARM_NOTICE \<Rightarrow> player \<Rightarrow> bool \<times> player \<times> alarm_effect list" where
  "pd_Audio_Shelter_enter n s =
     (if enMode n = PD_ALARM_TYPE_NULL \<or> bPlay s \<and> alarm_code (enMode n) \<le> mode s then (False, s, [])
      else (True, s\<lparr>bPlay := True, mode := alarm_code (enMode n)\<rparr>, [ALARM_PlayAudio_Shelter]))"

definition pd_Audio_Shelter_leave :: "PD_ALARM_NOTICE \<Rightarrow> player \<Rightarrow> player" where
  "pd_Audio_Shelter_leave n s = (if mode s = alarm_code (enMode n) then s\<lparr>bPlay := False\<rparr> else s)"

text \<open>\<open>pd_Alarm_Post\<close>: the relay at once, the sound by a worker thread (second component).\<close>

definition pd_Alarm_Post :: "board \<Rightarrow> bool \<Rightarrow> bool \<Rightarrow> bool list \<Rightarrow> PD_ALARM_NOTICE \<Rightarrow> relay \<Rightarrow>
    (relay \<times> alarm_effect list) \<times> PD_ALARM_NOTICE option" where
  "pd_Alarm_Post b bKeyAuth up en n r =
     (if b = ADA32SDK \<and> \<not> bKeyAuth \<or> b = ADA47V1 then ((r, []), None)
      else (pd_Alarm_Out_test b up en n r, Some n))"

text \<open>\<open>pd_Shelter_Post\<close> queues the shelter sound and the timed output.\<close>

definition pd_Shelter_Post :: "board \<Rightarrow> bool \<Rightarrow> PD_ALARM_NOTICE \<Rightarrow> (PD_ALARM_NOTICE \<times> PD_ALARM_NOTICE) option" where
  "pd_Shelter_Post b bKeyAuth n = (if b = ADA32SDK \<and> \<not> bKeyAuth then None else Some (n, n))"

subsection \<open>Decisions\<close>

datatype PD_ROI = PD_ROI_RED | PD_ROI_YELLOW | PD_ROI_GREEN | PD_ROI_BLUE | PD_ROI_BUTT

primrec enRoiToAlarm :: "PD_ROI \<Rightarrow> PD_ALARM_TYPE" where
  "enRoiToAlarm PD_ROI_RED = PD_ALARM_TYPE_RED"
| "enRoiToAlarm PD_ROI_YELLOW = PD_ALARM_TYPE_YELLOW"
| "enRoiToAlarm PD_ROI_GREEN = PD_ALARM_TYPE_GREEN"
| "enRoiToAlarm PD_ROI_BLUE = PD_ALARM_TYPE_NULL"
| "enRoiToAlarm PD_ROI_BUTT = PD_ALARM_TYPE_NULL"

datatype TRIGGER_TYPE = TRIGGER_UP | TRIGGER_DOWN

text \<open>The two alarm inputs: the GPIO pin (inverted; it keeps its default 1 when it cannot be read) and the
  microcontroller's \<open>bAlarmIn\<close> (0 when it cannot be read).\<close>

definition bAlarmInDetection :: "bool \<Rightarrow> TRIGGER_TYPE \<Rightarrow> int option \<Rightarrow> int option \<Rightarrow> bool" where
  "bAlarmInDetection bPdAlarmIn enTrigger gpio mcu =
     (if \<not> bPdAlarmIn then True
      else let u8IoIn1 = (case gpio of None \<Rightarrow> 1 | Some v \<Rightarrow> v); u8IoIn2 = (case mcu of None \<Rightarrow> 0 | Some v \<Rightarrow> v);
        bHighLevelInput = (\<not> (u8IoIn1 = 1 \<and> u8IoIn2 = 0))
      in \<not> (enTrigger = TRIGGER_UP \<and> \<not> bHighLevelInput) \<and> \<not> (enTrigger = TRIGGER_DOWN \<and> bHighLevelInput))"

subsection \<open>The relay, one access at a time\<close>

text \<open>
  Program points of the two threads.  \<open>M_Dec n\<close>: the counter was read as \<open>n\<close> and \<open>n - 1\<close> is about to be
  written; the read and the write are separate accesses.
\<close>

datatype a_pc = A_Idle | A_Enable | A_Lock | A_Set | A_Reset | A_Unlock | A_Clear
datatype m_pc = M_Idle | M_Dec int | M_Test | M_Reset | M_Unlock

record shared = relay +
  relay_on :: bool
  a_at :: a_pc
  m_at :: m_pc

inductive relay_step :: "shared \<Rightarrow> shared \<Rightarrow> bool" where
  red: "a_at s = A_Idle \<Longrightarrow> relay_step s (s\<lparr>a_at := if alarm_out_lock s then A_Set else A_Enable\<rparr>)"
| enable: "a_at s = A_Enable \<Longrightarrow> relay_step s (s\<lparr>relay_on := True, a_at := A_Lock\<rparr>)"
| lock: "a_at s = A_Lock \<Longrightarrow> relay_step s (s\<lparr>alarm_out_lock := True, a_at := A_Set\<rparr>)"
| set: "a_at s = A_Set \<Longrightarrow> relay_step s (s\<lparr>cnt := 20, alarm_out_flag := 5, a_at := A_Idle\<rparr>)"
| quiet: "a_at s = A_Idle \<Longrightarrow> relay_step s (s\<lparr>cnt := u16 (cnt s - 1),
    a_at := if alarm_out_lock s \<and> u16 (cnt s - 1) = 0 then A_Reset else A_Idle\<rparr>)"
| reset: "a_at s = A_Reset \<Longrightarrow> relay_step s (s\<lparr>relay_on := False, a_at := A_Unlock\<rparr>)"
| unlock: "a_at s = A_Unlock \<Longrightarrow> relay_step s (s\<lparr>alarm_out_lock := False, a_at := A_Clear\<rparr>)"
| clear: "a_at s = A_Clear \<Longrightarrow> relay_step s (s\<lparr>alarm_out_flag := 0, a_at := A_Idle\<rparr>)"
| tick: "m_at s = M_Idle \<Longrightarrow> 0 < alarm_out_flag s \<Longrightarrow> relay_step s (s\<lparr>m_at := M_Dec (alarm_out_flag s)\<rparr>)"
| dec: "m_at s = M_Dec n \<Longrightarrow> relay_step s (s\<lparr>alarm_out_flag := n - 1, m_at := M_Test\<rparr>)"
| test: "m_at s = M_Test \<Longrightarrow> relay_step s (s\<lparr>m_at := if alarm_out_flag s = 0 then M_Reset else M_Idle\<rparr>)"
| m_reset: "m_at s = M_Reset \<Longrightarrow> relay_step s (s\<lparr>relay_on := False, m_at := M_Unlock\<rparr>)"
| m_unlock: "m_at s = M_Unlock \<Longrightarrow> relay_step s (s\<lparr>alarm_out_lock := False, m_at := M_Idle\<rparr>)"

definition relay_init :: shared where
  "relay_init = \<lparr>alarm_out_flag = 0, alarm_out_lock = False, cnt = 20, relay_on = False,
     a_at = A_Idle, m_at = M_Idle\<rparr>"

definition relay_inv :: "shared \<Rightarrow> bool" where
  "relay_inv s \<longleftrightarrow> 0 \<le> alarm_out_flag s \<and> alarm_out_flag s \<le> 5 \<and>
     (case m_at s of M_Dec n \<Rightarrow> 1 \<le> n \<and> n \<le> 5 | _ \<Rightarrow> True) \<and>
     (a_at s = A_Unlock \<or> a_at s = A_Clear \<longrightarrow> \<not> relay_on s) \<and>
     (relay_on s \<longrightarrow> 0 < alarm_out_flag s \<or> a_at s \<in> {A_Lock, A_Set, A_Reset} \<or> m_at s \<in> {M_Test, M_Reset})"

lemma relay_inv_step: "relay_step s t \<Longrightarrow> relay_inv s \<Longrightarrow> relay_inv t"
  by (induction rule: relay_step.induct) (auto simp: relay_inv_def split: m_pc.splits if_splits)

lemma relay_inv_reach:
  assumes "relay_step\<^sup>*\<^sup>* relay_init s"
  shows "relay_inv s"
  using assms
proof (induction rule: rtranclp_induct)
  case base
  show ?case by (simp add: relay_inv_def relay_init_def)
next
  case (step s t)
  then show ?case using relay_inv_step by blast
qed

text \<open>A thread that is not interrupted does what the operation does.\<close>

definition relay_of :: "shared \<Rightarrow> relay" where "relay_of s = relay.truncate s"

definition on_after :: "bool \<Rightarrow> bool \<Rightarrow> alarm_effect list \<Rightarrow> bool" where
  "on_after up on es = foldl (\<lambda>o' e. case e of BOARD_SetAlarmOut v \<Rightarrow> v = (if up then 1 else 0) | _ \<Rightarrow> o') on es"

lemma on_after_simps [simp]:
  "on_after up on [] = on" "on_after up on [BOARD_SetAlarmOut v] = (v = (if up then 1 else 0))"
  by (simp_all add: on_after_def)

lemmas relay_out_defs = pd_Alarm_Out_Enable_def pd_Alarm_Out_Reset_def

lemma step_then: "relay_step s t \<Longrightarrow> relay_step\<^sup>*\<^sup>* t u \<Longrightarrow> relay_step\<^sup>*\<^sup>* s u"
  by (rule converse_rtranclp_into_rtranclp)

lemma alarm_test_steps:
  assumes a: "a_at s = A_Idle" and b: "has_alarm_out b"
  shows "\<exists>t. relay_step\<^sup>*\<^sup>* s t \<and> a_at t = A_Idle \<and> m_at t = m_at s \<and>
    relay_of t = fst (pd_Alarm_Out_test b up en n (relay_of s)) \<and>
    relay_on t = on_after up (relay_on s) (snd (pd_Alarm_Out_test b up en n (relay_of s)))"
proof (cases "drives_relay en n")
  case True
  let ?t = "s\<lparr>alarm_out_lock := True, cnt := 20, alarm_out_flag := 5, relay_on := alarm_out_lock s \<longrightarrow> relay_on s\<rparr>"
  have "relay_step\<^sup>*\<^sup>* s ?t"
  proof (cases "alarm_out_lock s")
    case True
    show ?thesis
      by (rule step_then [OF red [OF a]], rule step_then [OF set], use True in simp)
        (use a True in \<open>cases s; simp\<close>)
  next
    case False
    show ?thesis
      by (rule step_then [OF red [OF a]], rule step_then [OF enable], use False in simp,
          rule step_then [OF lock], simp, rule step_then [OF set], simp) (use a False in \<open>cases s; simp\<close>)
  qed
  with True a b show ?thesis
    by (intro exI [of _ ?t])
      (auto simp: pd_Alarm_Out_test_def relay_out_defs relay_of_def relay.defs)
next
  case False
  show ?thesis
  proof (cases "alarm_out_lock s \<and> u16 (cnt s - 1) = 0")
    case True
    let ?t = "s\<lparr>cnt := 0, alarm_out_lock := False, alarm_out_flag := 0, relay_on := False\<rparr>"
    have "relay_step\<^sup>*\<^sup>* s ?t"
      by (rule step_then [OF quiet [OF a]], rule step_then [OF reset], use True in simp,
          rule step_then [OF unlock], simp, rule step_then [OF clear], simp) (use a True in \<open>cases s; simp\<close>)
    with True False a b show ?thesis
      by (intro exI [of _ ?t])
        (auto simp: pd_Alarm_Out_test_def relay_out_defs relay_of_def relay.defs)
  next
    case no: False
    let ?t = "s\<lparr>cnt := u16 (cnt s - 1)\<rparr>"
    have "?t = s\<lparr>cnt := u16 (cnt s - 1), a_at := if alarm_out_lock s \<and> u16 (cnt s - 1) = 0 then A_Reset else A_Idle\<rparr>"
      using no a by (cases s) auto
    then have "relay_step s ?t" using quiet [OF a] by (simp only:)
    then have "relay_step\<^sup>*\<^sup>* s ?t" ..
    with no False a show ?thesis
      by (intro exI [of _ ?t]) (auto simp: pd_Alarm_Out_test_def Let_def relay_of_def relay.defs)
  qed
qed

lemma monitor_steps:
  assumes m: "m_at s = M_Idle" and b: "has_alarm_out b"
  shows "\<exists>t. relay_step\<^sup>*\<^sup>* s t \<and> m_at t = M_Idle \<and> a_at t = a_at s \<and>
    relay_of t = fst (monitor_relay b up (relay_of s)) \<and>
    relay_on t = on_after up (relay_on s) (snd (monitor_relay b up (relay_of s)))"
proof (cases "0 < alarm_out_flag s")
  case False
  then show ?thesis using m by (intro exI [of _ s]) (auto simp: monitor_relay_def relay_of_def relay.defs)
next
  case True
  let ?d = "s\<lparr>alarm_out_flag := alarm_out_flag s - 1\<rparr>"
  show ?thesis
  proof (cases "alarm_out_flag s - 1 = 0")
    case z: True
    let ?t = "s\<lparr>alarm_out_flag := 0, relay_on := False, alarm_out_lock := False\<rparr>"
    have "relay_step\<^sup>*\<^sup>* s ?t"
      by (rule step_then [OF tick [OF m True]], rule step_then [OF dec], simp, rule step_then [OF test], simp,
          rule step_then [OF m_reset], use z in simp, rule step_then [OF m_unlock], simp) (use m z in \<open>cases s; simp\<close>)
    with True z m b show ?thesis
      by (intro exI [of _ ?t])
        (auto simp: monitor_relay_def relay_out_defs relay_of_def relay.defs)
  next
    case nz: False
    have "relay_step\<^sup>*\<^sup>* s ?d"
      by (rule step_then [OF tick [OF m True]], rule step_then [OF dec], simp, rule step_then [OF test], simp)
        (use m nz in \<open>cases s; simp\<close>)
    with True nz m show ?thesis
      by (intro exI [of _ ?d]) (auto simp: monitor_relay_def Let_def relay_of_def relay.defs)
  qed
qed

fun monitor_rounds :: "nat \<Rightarrow> board \<Rightarrow> bool \<Rightarrow> relay \<Rightarrow> relay \<times> alarm_effect list" where
  "monitor_rounds 0 b up r = (r, [])"
| "monitor_rounds (Suc k) b up r =
     (let (r1, e1) = monitor_relay b up r; (r2, e2) = monitor_rounds k b up r1 in (r2, e1 @ e2))"

lemma monitor_rounds_off:
  "0 < alarm_out_flag r \<Longrightarrow> alarm_out_flag r \<le> int k \<Longrightarrow> has_alarm_out b \<Longrightarrow>
   BOARD_SetAlarmOut (if up then 0 else 1) \<in> set (snd (monitor_rounds k b up r))"
proof (induction k arbitrary: r)
  case (Suc k)
  show ?case
  proof (cases "alarm_out_flag r = 1")
    case True
    then show ?thesis using Suc.prems(3) by (auto simp: monitor_relay_def relay_out_defs Let_def split: prod.split)
  next
    case False
    then have "monitor_relay b up r = (r\<lparr>alarm_out_flag := alarm_out_flag r - 1\<rparr>, [])"
      using Suc.prems by (simp add: monitor_relay_def Let_def)
    with Suc.IH [of "r\<lparr>alarm_out_flag := alarm_out_flag r - 1\<rparr>"] Suc.prems False show ?thesis
      by (auto split: prod.split)
  qed
qed simp

subsection \<open>The contract of the sound players\<close>

text \<open>
  A player admits an alarm unless one of the same or a higher level is playing; a call that ends clears
  the busy flag when its own level is still the current one.  \<open>level 0\<close> is no alarm.
\<close>

datatype 'n play_event = Enter 'n | Leave 'n

fun play_run :: "('n \<Rightarrow> 's \<Rightarrow> bool \<times> 's) \<Rightarrow> ('n \<Rightarrow> 's \<Rightarrow> 's) \<Rightarrow> 'n play_event list \<Rightarrow> 'n list \<times> 's \<Rightarrow>
    'n list \<times> 's" where
  "play_run enter leave [] st = st"
| "play_run enter leave (Enter n # es) (playing, s) =
     (let (b, s') = enter n s in play_run enter leave es (if b then n # playing else playing, s'))"
| "play_run enter leave (Leave n # es) (playing, s) =
     (if n \<in> set playing then play_run enter leave es (remove1 n playing, leave n s)
      else play_run enter leave es (playing, s))"

locale preempting_player =
  fixes enter :: "'n \<Rightarrow> 's \<Rightarrow> bool \<times> 's" and leave :: "'n \<Rightarrow> 's \<Rightarrow> 's"
    and busy :: "'s \<Rightarrow> bool" and current :: "'s \<Rightarrow> int" and level :: "'n \<Rightarrow> int" and off :: "'n \<Rightarrow> bool"
  assumes admitted: "enter n s = (True, s') \<Longrightarrow> busy s' \<and> current s' = level n"
    and refused: "enter n s = (False, s') \<Longrightarrow> busy s' = busy s \<and> current s' = current s"
    and refuses: "enter n s = (False, s') \<Longrightarrow> off n \<or> busy s \<and> level n \<le> current s"
    and accepts: "enter n s = (True, s') \<Longrightarrow> \<not> (busy s \<and> level n \<le> current s)"
    and left_own: "current s = level n \<Longrightarrow> \<not> busy (leave n s)"
    and left_other: "busy (leave n s) \<Longrightarrow> busy s \<and> current (leave n s) = current s"
begin

definition held :: "'n list \<times> 's \<Rightarrow> bool" where
  "held st \<longleftrightarrow> (busy (snd st) \<longrightarrow> current (snd st) \<in> level ` set (fst st))"

lemma held_enter: "held (playing, s) \<Longrightarrow> enter n s = (b, s') \<Longrightarrow> held (if b then n # playing else playing, s')"
  using admitted [of n s s'] refused [of n s s'] by (cases b) (auto simp: held_def)

lemma held_leave:
  assumes "held (playing, s)"
  shows "held (remove1 n playing, leave n s)"
proof (cases "busy (leave n s)")
  case True
  then have b: "busy s" "current (leave n s) = current s" using left_other by auto
  then obtain m where m: "m \<in> set playing" "current s = level m" using assms by (auto simp: held_def)
  have "level n \<noteq> current s" using left_own [of s n] True by auto
  with m have "m \<noteq> n" by auto
  with m b show ?thesis by (auto simp: held_def)
qed (simp add: held_def)

lemma held_run: "held st \<Longrightarrow> held (play_run enter leave es st)"
proof (induction es arbitrary: st)
  case (Cons e es)
  obtain playing s where st: "st = (playing, s)" by fastforce
  show ?case
  proof (cases e)
    case (Enter n)
    obtain b s' where e: "enter n s = (b, s')" by fastforce
    from held_enter [OF Cons.prems [unfolded st] e] Cons.IH show ?thesis by (simp add: st Enter e)
  next
    case (Leave n)
    from held_leave [OF Cons.prems [unfolded st]] Cons.prems Cons.IH show ?thesis by (simp add: st Leave)
  qed
qed simp

text \<open>When nothing plays, no alarm is held back; while something plays, only what is not above it is.\<close>

lemma never_stuck:
  assumes "held st" and "play_run enter leave es st = (playing, s)" and "enter n s = (False, s')"
  shows "off n \<or> (\<exists>m \<in> set playing. level n \<le> level m)"
  using held_run [OF assms(1), of es] refuses [OF assms(3)] by (auto simp: assms(2) held_def)

end

interpretation audio: preempting_player
  "\<lambda>n s. (fst (pd_Audio_Play_enter luis n s), fst (snd (pd_Audio_Play_enter luis n s)))" pd_Audio_Play_leave
  bPlay mode "\<lambda>n. alarm_code (enMode n)" "\<lambda>n. enMode n = PD_ALARM_TYPE_NULL" for luis
  by unfold_locales (auto simp: pd_Audio_Play_enter_def pd_Audio_Play_leave_def split: if_splits)

interpretation shelter: preempting_player
  "\<lambda>n s. (fst (pd_Audio_Shelter_enter n s), fst (snd (pd_Audio_Shelter_enter n s)))" pd_Audio_Shelter_leave
  bPlay mode "\<lambda>n. alarm_code (enMode n)" "\<lambda>n. enMode n = PD_ALARM_TYPE_NULL"
  by unfold_locales (auto simp: pd_Audio_Shelter_enter_def pd_Audio_Shelter_leave_def split: if_splits)

interpretation alarmer: preempting_player
  "\<lambda>n s. (fst (pd_avAlarmer_enter p a now n s), fst (snd (pd_avAlarmer_enter p a now n s)))"
  "\<lambda>n s. fst (pd_avAlarmer_leave n s)" "\<lambda>s. bPlay (av s)" "\<lambda>s. mode (av s)" "\<lambda>n. alarm_code (enMode n)"
  "\<lambda>n. enMode n = PD_ALARM_TYPE_NULL \<or> s32PdAlarmOutInterval p = 0" for p a now
  by unfold_locales (auto simp: pd_avAlarmer_enter_def pd_avAlarmer_leave_def Let_def split: if_splits)

subsection \<open>Searching\<close>

lemma match_count_eq: "(match_count xs ys = length ys) = prefix ys xs"
  by (induction xs ys rule: match_count.induct) auto

lemma match_count_le: "match_count xs ys \<le> length ys"
  by (induction xs ys rule: match_count.induct) auto

lemma search_from_none: "(search_from j src sub = - 1) = (sub = [] \<or> \<not> sublist sub src)"
proof (induction src arbitrary: j)
  case (Cons c cs)
  have "prefix sub (c # cs) \<Longrightarrow> sub \<noteq> [] \<Longrightarrow> c = hd sub" by (cases sub) auto
  then show ?case using Cons by (auto simp: match_count_eq sublist_Cons_right)
qed simp

lemma search_from_some:
  "search_from j src sub = int k \<Longrightarrow> j \<le> k \<and> prefix sub (drop (k - j) src) \<and>
     (\<forall>i < k - j. \<not> prefix sub (drop i src))"
proof (induction src arbitrary: j)
  case (Cons c cs)
  show ?case
  proof (cases "sub \<noteq> [] \<and> c = hd sub \<and> match_count (c # cs) sub = length sub")
    case True
    then show ?thesis using Cons.prems by (auto simp: match_count_eq)
  next
    case False
    then have r: "search_from (Suc j) cs sub = int k" using Cons.prems by (simp only: search_from.simps if_False)
    from Cons.IH [OF r] have ih: "Suc j \<le> k" "prefix sub (drop (k - Suc j) cs)"
      "\<forall>i < k - Suc j. \<not> prefix sub (drop i cs)" by auto
    have "sub \<noteq> []"
      using r search_from_none [of "Suc j" cs sub] by auto
    then have np: "\<not> prefix sub (c # cs)" using False by (cases sub) (auto simp: match_count_eq)
    have "k - j = Suc (k - Suc j)" using ih(1) by simp
    then show ?thesis using ih np by (auto simp: less_Suc_eq_0_disj)
  qed
qed simp

subsection \<open>Properties\<close>


definition red_notice :: PD_ALARM_NOTICE where
  "red_notice = \<lparr>enMode = PD_ALARM_TYPE_RED, bPerson = True, bCar = False, s32Chn = 0, u8DisplayMode = 0\<rparr>"




text \<open> the unsynchronised accesses can lose a red alarm: there is an interleaving after which a red
  notice has just been handled in full, yet the relay is off.\<close>

theorem relay_race_loses_alarm:
  "\<exists>s. relay_step\<^sup>*\<^sup>* relay_init s \<and> a_at s = A_Idle \<and> m_at s = M_Idle \<and>
     cnt s = 20 \<and> alarm_out_flag s = 5 \<and> \<not> relay_on s"
proof -
  let ?s = "\<lambda>f l c o' a m. \<lparr>alarm_out_flag = f, alarm_out_lock = l, cnt = c, relay_on = o', a_at = a, m_at = m\<rparr>"
  have "relay_step\<^sup>*\<^sup>* (?s 0 False 20 False A_Idle M_Idle) (?s 5 True 20 True A_Idle M_Idle)"
    by (rule step_then [OF red], simp, rule step_then [OF enable], simp, rule step_then [OF lock], simp,
        rule step_then [OF set], simp) simp
  moreover have "relay_step\<^sup>*\<^sup>* (?s f True 20 True A_Idle M_Idle) (?s (f - 1) True 20 True A_Idle M_Idle)"
    if "1 < f" for f :: int
    by (rule step_then [OF tick], simp, use that in simp, rule step_then [OF dec], simp, rule step_then [OF test], simp)
      (use that in simp)
  from this [of 5] this [of 4] this [of 3] this [of 2]
  have "relay_step\<^sup>*\<^sup>* (?s 5 True 20 True A_Idle M_Idle) (?s 1 True 20 True A_Idle M_Idle)" by simp
  moreover have "relay_step\<^sup>*\<^sup>* (?s 1 True 20 True A_Idle M_Idle) (?s 5 False 20 False A_Idle M_Idle)"
    by (rule step_then [OF tick], simp, simp, rule step_then [OF dec], simp, rule step_then [OF test], simp,
        rule step_then [OF m_reset], simp, rule step_then [OF red], simp, rule step_then [OF set], simp,
        rule step_then [OF m_unlock], simp) simp
  ultimately have "relay_step\<^sup>*\<^sup>* relay_init (?s 5 False 20 False A_Idle M_Idle)"
    unfolding relay_init_def by (meson rtranclp_trans)
  then show ?thesis by (intro exI [of _ "?s 5 False 20 False A_Idle M_Idle"]) simp
qed

text \<open> no alarm sound is held back without cause: through any sequence of calls entering and leaving the
  player, a call is refused only when it is no alarm or when a call of its level or above is playing.\<close>

theorem audio_never_stuck:
  assumes "play_run (\<lambda>n s. (fst (pd_Audio_Play_enter luis n s), fst (snd (pd_Audio_Play_enter luis n s))))
      pd_Audio_Play_leave es ([], \<lparr>mode = - 1, bPlay = False\<rparr>) = (playing, s)"
    and "\<not> fst (pd_Audio_Play_enter luis n s)"
  shows "enMode n = PD_ALARM_TYPE_NULL \<or> (\<exists>m \<in> set playing. alarm_code (enMode n) \<le> alarm_code (enMode m))"
proof -
  have "audio.held ([], \<lparr>mode = - 1, bPlay = False\<rparr>)" by (simp add: audio.held_def)
  from audio.never_stuck [OF this assms(1)] assms(2) show ?thesis by blast
qed

theorem audio_never_stuck_witness:
  "\<not> fst (pd_Audio_Play_enter False red_notice \<lparr>mode = 3, bPlay = True\<rparr>) \<and>
   (\<exists>m \<in> set [red_notice]. alarm_code (enMode red_notice) \<le> alarm_code (enMode m))"
proof -
  have r: "play_run (\<lambda>n s. (fst (pd_Audio_Play_enter False n s), fst (snd (pd_Audio_Play_enter False n s))))
      pd_Audio_Play_leave [Enter red_notice] ([], \<lparr>mode = - 1, bPlay = False\<rparr>) =
    ([red_notice], \<lparr>mode = 3, bPlay = True\<rparr>)"
    by (simp add: pd_Audio_Play_enter_def red_notice_def)
  have n: "\<not> fst (pd_Audio_Play_enter False red_notice \<lparr>mode = 3, bPlay = True\<rparr>)"
    by (simp add: pd_Audio_Play_enter_def red_notice_def)
  from audio_never_stuck [OF r n] n show ?thesis by (simp add: red_notice_def)
qed

text \<open> the monitor's search for the camera node finds the first occurrence of a non-empty name and
  answers -1 exactly when there is none.\<close>

theorem search_CH_first:
  "(search_CH src sub = - 1 \<longleftrightarrow> sub = [] \<or> \<not> sublist sub src) \<and>
   (search_CH src sub = int k \<longrightarrow> prefix sub (drop k src) \<and> (\<forall>i<k. \<not> prefix sub (drop i src)))"
  using search_from_none [of 0 src sub] search_from_some [of 0 src sub k] by (simp add: search_CH_def)

theorem search_CH_first_witness:
  "prefix ''dev'' (drop 1 ''/dev/video0'')"
proof -
  have "search_CH ''/dev/video0'' ''dev'' = int 1" by (simp add: search_CH_def)
  then show ?thesis using search_CH_first [of "''/dev/video0''" "''dev''" 1] by blast
qed

end
