(* ===== verification/Roi.thy ===== *)
theory Roi
  imports Geometry Detection Alarm
begin

section \<open>Warning zones (pd/pd.cpp)\<close>

text \<open>
  \<open>pd_CheckRoiRect\<close> and the layouts it dispatches to: three zones stacked (\<open>Vertical\<close>), side by side
  (\<open>Horizontal\<close>), half discs, zones with elliptic edges, a drawing board (an external routine, the
  parameter \<open>ROI_BOARD_Detect\<close>) and the hollow, a region in which detections are dropped.  The board the
  code is built for picks the parameters of a channel; on some boards a channel has none and the code
  reads through a null pointer: result \<open>Null_Deref\<close>.  \<open>ALG_MAX_CHN\<close> is a platform constant.
\<close>

datatype CFG_PDROI = CFG_PDROI_BOTTOM | CFG_PDROI_LEFT | CFG_PDROI_RIGHT | CFG_PDROI_SEMICIRCLE
  | CFG_PDROI_ELLIPSE | CFG_PDROI_DRAWBOARD | CFG_PDROI_OTHER

record CFG_PDS_PARAM =
  bPdTestMode :: bool
  astPdCalibrationPoints :: "SV_POINT2 list"
  bPdRoiRed :: bool
  bPdRoiYellow :: bool
  bPdRoiGreen :: bool
  fEllipseB :: "rat list"
  enRoiStyle :: CFG_PDROI
  enPdHollow :: int
  bDetectBottom :: bool

record CFG_ALG =
  stAlgCh1 :: CFG_PDS_PARAM
  stAlgCh2 :: CFG_PDS_PARAM
  stAlgCh3 :: CFG_PDS_PARAM

datatype roi_result = Roi PD_ROI | Roi_Err sv_ret | Null_Deref | No_Value

text \<open>The \<open>#if\<close> ladder every function of this part starts with.\<close>

definition pds_param :: "board \<Rightarrow> int \<Rightarrow> CFG_ALG \<Rightarrow> CFG_PDS_PARAM option" where
  "pds_param b chn c =
     (if b = ADA42V1 \<or> b = ADA42PTZV1 then
        (if chn = 0 then Some (stAlgCh1 c) else if chn = 1 then Some (stAlgCh2 c)
         else if chn = 2 then Some (stAlgCh3 c) else None)
      else if b = ADA32IR then
        (if chn = 0 then Some (stAlgCh2 c) else if chn = 1 then Some (stAlgCh1 c)
         else if chn = 2 then Some (stAlgCh3 c) else Some (stAlgCh2 c))
      else Some (stAlgCh2 c))"

definition with_param :: "int \<Rightarrow> board \<Rightarrow> int \<Rightarrow> CFG_ALG \<Rightarrow> (CFG_PDS_PARAM \<Rightarrow> PD_ROI) \<Rightarrow> roi_result" where
  "with_param ALG_MAX_CHN b chn c f =
     (if ALG_MAX_CHN \<le> chn then Roi_Err ERR_ILLEGAL_PARAM
      else case pds_param b chn c of None \<Rightarrow> Null_Deref | Some p \<Rightarrow> Roi (f p))"

definition roi_default :: "CFG_PDS_PARAM \<Rightarrow> PD_ROI" where
  "roi_default p = (if bPdTestMode p then PD_ROI_BLUE else PD_ROI_BUTT)"

text \<open>The first zone that is enabled and hit, in the order red, yellow, green.\<close>

definition roi_select :: "CFG_PDS_PARAM \<Rightarrow> bool \<Rightarrow> bool \<Rightarrow> bool \<Rightarrow> PD_ROI" where
  "roi_select p red yellow green =
     (if bPdRoiRed p \<and> red then PD_ROI_RED
      else if bPdRoiYellow p \<and> yellow then PD_ROI_YELLOW
      else if bPdRoiGreen p \<and> green then PD_ROI_GREEN
      else roi_default p)"

definition dest_box :: "STAlgResult \<Rightarrow> SV_POINT2 list" where
  "dest_box r = [\<lparr>dX = fX1 r, dY = fY1 r\<rparr>, \<lparr>dX = fX1 r, dY = fY2 r\<rparr>, \<lparr>dX = fX2 r, dY = fY2 r\<rparr>, \<lparr>dX = fX2 r, dY = fY1 r\<rparr>]"

subsection \<open>Layouts\<close>

definition vertical_zone :: "CFG_PDS_PARAM \<Rightarrow> nat \<Rightarrow> SV_POINT2 list" where
  "vertical_zone p k = (let P = astPdCalibrationPoints p in [P ! k, P ! (k + 1), P ! (k + 5), P ! (k + 4)])"

definition pd_CheckRoiVerticalLayout :: "CFG_PDS_PARAM \<Rightarrow> STAlgResult \<Rightarrow> PD_ROI" where
  "pd_CheckRoiVerticalLayout p pstRect =
     (let hit = (\<lambda>k. pd_Polygon2Intersect (vertical_zone p k) (dest_box pstRect))
      in roi_select p (hit 2) (hit 1) (hit 0))"

definition horizontal_zone :: "CFG_PDS_PARAM \<Rightarrow> nat \<Rightarrow> SV_POINT2 list" where
  "horizontal_zone p k = (let P = astPdCalibrationPoints p in [P ! k, P ! (k + 4), P ! (k + 5), P ! (k + 1)])"

definition pd_CheckRoiHorizontalLayout :: "CFG_PDS_PARAM \<Rightarrow> STAlgResult \<Rightarrow> bool \<Rightarrow> PD_ROI" where
  "pd_CheckRoiHorizontalLayout p pstRect bLeftRed =
     (let green = horizontal_zone p (if bLeftRed then 2 else 0); yellow = horizontal_zone p 1;
          red = horizontal_zone p (if bLeftRed then 0 else 2);
          hit = (\<lambda>z. pd_Polygon2Intersect z (dest_box pstRect))
      in roi_select p (hit red) (hit yellow) (hit green))"

definition pd_CheckRoiSemiCircleLayout :: "CFG_PDS_PARAM \<Rightarrow> STAlgResult \<Rightarrow> PD_ROI" where
  "pd_CheckRoiSemiCircleLayout p r =
     (let eps = ddiv 1080 1920; P = astPdCalibrationPoints p;
          stRectDest = [\<lparr>dX = fX1 r, dY = dmul (fY1 r) eps\<rparr>, \<lparr>dX = fX1 r, dY = dmul (fY2 r) eps\<rparr>,
                        \<lparr>dX = fX2 r, dY = dmul (fY2 r) eps\<rparr>, \<lparr>dX = fX2 r, dY = dmul (fY1 r) eps\<rparr>];
          stCenter = \<lparr>dX = dX (P ! 0), dY = dmul (dY (P ! 0)) eps\<rparr>;
          radius = (\<lambda>k. dsub (dX (P ! 0)) (dX (P ! k)));
          hit = (\<lambda>k. pd_SemiCircleRectIntersect stCenter (radius k) stRectDest)
      in roi_select p (hit 3) (hit 2) (hit 1))"

definition pd_CheckRoiEllipseLayout :: "CFG_PDS_PARAM \<Rightarrow> STAlgResult \<Rightarrow> PD_ROI" where
  "pd_CheckRoiEllipseLayout p pstRect =
     (let E = fEllipseB p; hit = (\<lambda>k b0 b1. pd_EllipsePolygon2Intersect (vertical_zone p k) (dest_box pstRect) b0 b1)
      in roi_select p (hit 2 (E ! 2) 0) (hit 1 (E ! 1) (E ! 2)) (hit 0 (E ! 0) (E ! 1)))"

definition pd_CheckRoiDrawBoardLayout ::
  "(SV_POINT2 \<Rightarrow> SV_POINT2 \<Rightarrow> int) \<Rightarrow> CFG_PDS_PARAM \<Rightarrow> STAlgResult \<Rightarrow> PD_ROI" where
  "pd_CheckRoiDrawBoardLayout ROI_BOARD_Detect p r =
     (let s32Result = ROI_BOARD_Detect \<lparr>dX = fX1 r, dY = fY1 r\<rparr> \<lparr>dX = fX2 r, dY = fY2 r\<rparr>
      in if s32Result = 1 then PD_ROI_GREEN else if s32Result = 2 then PD_ROI_YELLOW
         else if s32Result = 3 then PD_ROI_RED else roi_default p)"

text \<open>The hollow is the bounding box of four points, kept in \<open>float\<close>.\<close>

fun hollow_bounds :: "SV_POINT2 list \<Rightarrow> rat \<times> rat \<times> rat \<times> rat \<Rightarrow> rat \<times> rat \<times> rat \<times> rat" where
  "hollow_bounds [] b = b"
| "hollow_bounds (q # qs) (xmin, xmax, ymin, ymax) =
     hollow_bounds qs (f32 (if xmin < dX q then xmin else dX q), f32 (if dX q < xmax then xmax else dX q),
                       f32 (if ymin < dY q then ymin else dY q), f32 (if dY q < ymax then ymax else dY q))"

definition pd_CheckRoiHollow :: "CFG_PDS_PARAM \<Rightarrow> STAlgResult \<Rightarrow> PD_ROI \<Rightarrow> PD_ROI" where
  "pd_CheckRoiHollow p r enInRoi =
     (let P = astPdCalibrationPoints p; q = P ! 8;
          (xmin, xmax, ymin, ymax) =
            hollow_bounds [P ! 8, P ! 9, P ! 10, P ! 11] (f32 (dX q), f32 (dX q), f32 (dY q), f32 (dY q))
      in if pd_Polygon2Interior xmin ymin xmax ymax (f32 (fX1 r)) (f32 (fY1 r)) (f32 (fX2 r)) (f32 (fY2 r))
         then PD_ROI_BUTT else enInRoi)"

subsection \<open>The dispatcher\<close>

definition detect_part :: "board \<Rightarrow> CFG_PDS_PARAM \<Rightarrow> STAlgResult \<Rightarrow> STAlgResult" where
  "detect_part b p r =
     (if b = ADA32V2 \<and> bDetectBottom p then r\<lparr>fY1 := f32 (dsub (fY2 r) (f64 (4 / 1000)))\<rparr> else r)"

definition pd_CheckRoiRect :: "(SV_POINT2 \<Rightarrow> SV_POINT2 \<Rightarrow> int) \<Rightarrow> int \<Rightarrow> board \<Rightarrow> CFG_ALG \<Rightarrow> int \<Rightarrow>
    STAlgResult \<Rightarrow> roi_result" where
  "pd_CheckRoiRect ROI_BOARD_Detect ALG_MAX_CHN b c chn pstRect =
     (if ALG_MAX_CHN \<le> chn then Roi_Err ERR_ILLEGAL_PARAM
      else case pds_param b chn c of None \<Rightarrow> Null_Deref
      | Some p \<Rightarrow>
        let r = detect_part b p pstRect; on = with_param ALG_MAX_CHN b chn c;
          enRoi = (case enRoiStyle p of
              CFG_PDROI_BOTTOM \<Rightarrow> on (\<lambda>p. pd_CheckRoiVerticalLayout p r)
            | CFG_PDROI_LEFT \<Rightarrow> on (\<lambda>p. pd_CheckRoiHorizontalLayout p r True)
            | CFG_PDROI_RIGHT \<Rightarrow> on (\<lambda>p. pd_CheckRoiHorizontalLayout p r False)
            | CFG_PDROI_SEMICIRCLE \<Rightarrow> on (\<lambda>p. pd_CheckRoiSemiCircleLayout p r)
            | CFG_PDROI_ELLIPSE \<Rightarrow> on (\<lambda>p. pd_CheckRoiEllipseLayout p r)
            | CFG_PDROI_DRAWBOARD \<Rightarrow>
                if b = ADA47V1 then No_Value else on (\<lambda>p. pd_CheckRoiDrawBoardLayout ROI_BOARD_Detect p r)
            | CFG_PDROI_OTHER \<Rightarrow> Roi PD_ROI_BUTT)
        in if enRoiStyle p \<noteq> CFG_PDROI_DRAWBOARD \<and> enPdHollow (stAlgCh2 c) = 1 then
             (case enRoi of Roi e \<Rightarrow> on (\<lambda>p. pd_CheckRoiHollow p r e) | x \<Rightarrow> x)
           else enRoi)"

subsection \<open>Lemmas\<close>

lemma with_param_Some: "chn < ALG_MAX_CHN \<Longrightarrow> pds_param b chn c = Some p \<Longrightarrow>
   with_param ALG_MAX_CHN b chn c f = Roi (f p)"
  by (simp add: with_param_def)

text \<open>The zone levels, ordered by severity: the level is the worst enabled zone hit.\<close>

lemma roi_select_worst:
  "enRoiToAlarm (roi_select p red yellow green) =
   Max (insert PD_ALARM_TYPE_NULL ({l. l = PD_ALARM_TYPE_RED \<and> bPdRoiRed p \<and> red} \<union>
     {l. l = PD_ALARM_TYPE_YELLOW \<and> bPdRoiYellow p \<and> yellow} \<union> {l. l = PD_ALARM_TYPE_GREEN \<and> bPdRoiGreen p \<and> green}))"
proof -
  have s: "{l :: PD_ALARM_TYPE. l = a \<and> P \<and> Q} = (if P \<and> Q then {a} else {})" for a P Q by auto
  show ?thesis
    unfolding s by (auto simp: roi_select_def roi_default_def less_eq_PD_ALARM_TYPE_def max_def)
qed

lemma dest_box_box: "dest_box r = box (fX1 r) (fY1 r) (fX2 r) (fY2 r)"
  by (simp add: dest_box_def box_def)

subsection \<open>Properties\<close>

text \<open> for two upright boxes with single-precision corners the polygon test is exact in spite of the
  rounding of its arithmetic: it answers true just when the boxes have a point in common, be it an edge
  or a corner, and also when they cross without containing a corner of each other.\<close>

theorem polygon_test_exact_on_boxes:
  assumes "is_f32 a1" "is_f32 b1" "is_f32 a2" "is_f32 b2" "a1 < a2" "b1 < b2"
    and "is_f32 c1" "is_f32 d1" "is_f32 c2" "is_f32 d2" "c1 < c2" "d1 < d2"
  shows "pd_Polygon2Intersect (box a1 b1 a2 b2) (box c1 d1 c2 d2) \<longleftrightarrow>
    (\<exists>x y. a1 \<le> x \<and> x \<le> a2 \<and> b1 \<le> y \<and> y \<le> b2 \<and> c1 \<le> x \<and> x \<le> c2 \<and> d1 \<le> y \<and> y \<le> d2)"
proof -
  have "boxes_touch a1 b1 a2 b2 c1 d1 c2 d2 \<longleftrightarrow>
      (\<exists>x y. a1 \<le> x \<and> x \<le> a2 \<and> b1 \<le> y \<and> y \<le> b2 \<and> c1 \<le> x \<and> x \<le> c2 \<and> d1 \<le> y \<and> y \<le> d2)" (is "?t \<longleftrightarrow> ?e")
  proof
    assume ?t
    with assms show ?e
      by (intro exI [of _ "max a1 c1"] exI [of _ "max b1 d1"]) (auto simp: boxes_touch_def)
  next
    assume ?e
    then show ?t by (auto simp: boxes_touch_def)
  qed
  then show ?thesis using boxes_intersect_iff [OF assms] by simp
qed

theorem polygon_test_exact_on_boxes_witness:
  "pd_Polygon2Intersect (box 0 (1 / 4) 1 (1 / 2)) (box (1 / 4) 0 (1 / 2) 1)"
proof -
  have "\<exists>x y. (0::rat) \<le> x \<and> x \<le> 1 \<and> 1 / 4 \<le> y \<and> y \<le> (1 / 2 :: rat) \<and> 1 / 4 \<le> x \<and> x \<le> 1 / 2 \<and> 0 \<le> y \<and> y \<le> 1"
    by (intro exI [of _ "1 / 4"]) simp
  then show ?thesis
    by (subst polygon_test_exact_on_boxes) simp_all
qed

text \<open> when the three stacked zones are upright boxes, the vertical layout reports the first of red,
  yellow, green that is enabled and that the detection box touches, and otherwise blue or nothing
  depending on the test mode.\<close>

theorem vertical_layout_boxes:
  assumes P: "take 8 (astPdCalibrationPoints p) = map (\<lambda>y. \<lparr>dX = l, dY = y\<rparr>) [y0, y1, y2, y3] @ map (\<lambda>y. \<lparr>dX = r, dY = y\<rparr>) [y0, y1, y2, y3]"
    and z: "is_f32 l" "is_f32 r" "is_f32 y0" "is_f32 y1" "is_f32 y2" "is_f32 y3" "l < r" "y0 < y1" "y1 < y2" "y2 < y3"
    and d: "is_f32 (fX1 t)" "is_f32 (fY1 t)" "is_f32 (fX2 t)" "is_f32 (fY2 t)" "fX1 t < fX2 t" "fY1 t < fY2 t"
  shows "pd_CheckRoiVerticalLayout p t =
    (if bPdRoiRed p \<and> boxes_touch l y2 r y3 (fX1 t) (fY1 t) (fX2 t) (fY2 t) then PD_ROI_RED
     else if bPdRoiYellow p \<and> boxes_touch l y1 r y2 (fX1 t) (fY1 t) (fX2 t) (fY2 t) then PD_ROI_YELLOW
     else if bPdRoiGreen p \<and> boxes_touch l y0 r y1 (fX1 t) (fY1 t) (fX2 t) (fY2 t) then PD_ROI_GREEN
     else if bPdTestMode p then PD_ROI_BLUE else PD_ROI_BUTT)"
proof -
  have nth: "astPdCalibrationPoints p ! k = take 8 (astPdCalibrationPoints p) ! k" if "k < 8" for k
    using that by simp
  have "vertical_zone p 0 = box l y0 r y1" "vertical_zone p 1 = box l y1 r y2" "vertical_zone p 2 = box l y2 r y3"
    by (simp_all add: vertical_zone_def box_def nth P Let_def)
  then show ?thesis
    using boxes_intersect_iff [OF _ _ _ _ _ _ d] z
    by (simp add: pd_CheckRoiVerticalLayout_def Let_def dest_box_box roi_select_def roi_default_def)
qed

definition sample_pds :: CFG_PDS_PARAM where
  "sample_pds = \<lparr>bPdTestMode = False,
     astPdCalibrationPoints = map (\<lambda>y. \<lparr>dX = 1 / 4, dY = y\<rparr>) [1 / 4, 1 / 2, 3 / 4, 1] @
       map (\<lambda>y. \<lparr>dX = 3 / 4, dY = y\<rparr>) [1 / 4, 1 / 2, 3 / 4, 1] @
       [\<lparr>dX = 0, dY = 0\<rparr>, \<lparr>dX = 0, dY = 1 / 2\<rparr>, \<lparr>dX = 1 / 2, dY = 1 / 2\<rparr>, \<lparr>dX = 1 / 2, dY = 0\<rparr>],
     bPdRoiRed = True, bPdRoiYellow = True, bPdRoiGreen = True, fEllipseB = [0, 0, 0],
     enRoiStyle = CFG_PDROI_BOTTOM, enPdHollow = 0, bDetectBottom = False\<rparr>"

definition sample_rect :: "rat \<Rightarrow> rat \<Rightarrow> rat \<Rightarrow> rat \<Rightarrow> STAlgResult" where
  "sample_rect x1 y1 x2 y2 = \<lparr>classes = E_CLS_PERSON, fX1 = x1, fY1 = y1, fX2 = x2, fY2 = y2, fConfidence = 1\<rparr>"

theorem vertical_layout_boxes_witness:
  "pd_CheckRoiVerticalLayout sample_pds (sample_rect (1 / 8) (1 / 4) (3 / 8) (5 / 8)) = PD_ROI_YELLOW"
  by (subst vertical_layout_boxes [of _ "1 / 4" "1 / 4" "1 / 2" "3 / 4" 1 "3 / 4"])
    (simp_all add: sample_pds_def sample_rect_def boxes_touch_def)

text \<open> the half discs are nested whatever the rounding: with the calibration points in order, a box that
  hits the red disc also hits the yellow and the green one, so switching the red zone off never silences
  it but lowers it to yellow, and switching both off to green.\<close>

theorem semicircle_zones_nested:
  assumes "dX (astPdCalibrationPoints p ! 1) \<le> dX (astPdCalibrationPoints p ! 2)"
    and "dX (astPdCalibrationPoints p ! 2) \<le> dX (astPdCalibrationPoints p ! 3)"
    and "dX (astPdCalibrationPoints p ! 3) \<le> dX (astPdCalibrationPoints p ! 0)"
    and "bPdRoiYellow p" and "bPdRoiGreen p" and "pd_CheckRoiSemiCircleLayout p r = PD_ROI_RED"
  shows "pd_CheckRoiSemiCircleLayout (p\<lparr>bPdRoiRed := False\<rparr>) r = PD_ROI_YELLOW \<and>
    pd_CheckRoiSemiCircleLayout (p\<lparr>bPdRoiRed := False, bPdRoiYellow := False\<rparr>) r = PD_ROI_GREEN"
proof -
  define P where "P = astPdCalibrationPoints p"
  have r: "0 \<le> dsub (dX (P ! 0)) (dX (P ! 3))" "dsub (dX (P ! 0)) (dX (P ! 3)) \<le> dsub (dX (P ! 0)) (dX (P ! 2))"
    "dsub (dX (P ! 0)) (dX (P ! 2)) \<le> dsub (dX (P ! 0)) (dX (P ! 1))"
    using assms(1-3) by (auto simp: P_def intro!: f64_nonneg f64_mono)
  note m = SemiCircle_mono [OF r(1) r(2)] SemiCircle_mono [OF order_trans [OF r(1) r(2)] r(3)]
  show ?thesis
    using assms(4-6) m
    by (auto simp: pd_CheckRoiSemiCircleLayout_def Let_def P_def roi_select_def roi_default_def split: if_splits)
qed

lemma SemiCircle_corner:
  assumes "dX (R ! 1) = dX c" and "dY (R ! 1) = dY c"
  shows "pd_SemiCircleRectIntersect c r R"
proof -
  have "0 \<le> dmul r r" by (intro f64_nonneg) simp
  then show ?thesis
    unfolding pd_SemiCircleRectIntersect_def Let_def list_ex_iff using assms
    by (intro disjI1 bexI [of _ 1]) simp_all
qed

theorem semicircle_zones_nested_witness:
  "let p = sample_pds\<lparr>astPdCalibrationPoints := [\<lparr>dX = 1 / 2, dY = 1\<rparr>, \<lparr>dX = 0, dY = 1\<rparr>, \<lparr>dX = 1 / 8, dY = 1\<rparr>, \<lparr>dX = 1 / 4, dY = 1\<rparr>]\<rparr>
   in pd_CheckRoiSemiCircleLayout (p\<lparr>bPdRoiRed := False\<rparr>) (sample_rect (1 / 2) (3 / 4) (5 / 8) 1) = PD_ROI_YELLOW"
proof -
  let ?P = "[\<lparr>dX = 1 / 2, dY = 1\<rparr>, \<lparr>dX = 0, dY = 1\<rparr>, \<lparr>dX = 1 / 8, dY = 1\<rparr>, \<lparr>dX = 1 / 4, dY = 1\<rparr>]"
  have "pd_CheckRoiSemiCircleLayout (sample_pds\<lparr>astPdCalibrationPoints := ?P\<rparr>) (sample_rect (1 / 2) (3 / 4) (5 / 8) 1) = PD_ROI_RED"
    unfolding pd_CheckRoiSemiCircleLayout_def Let_def roi_select_def
    by (subst SemiCircle_corner) (simp_all add: sample_rect_def sample_pds_def)
  with semicircle_zones_nested [of "sample_pds\<lparr>astPdCalibrationPoints := ?P\<rparr>" "sample_rect (1 / 2) (3 / 4) (5 / 8) 1"]
  show ?thesis by (simp add: sample_pds_def Let_def)
qed

text \<open> a detection box inside the hollow is dropped and one that is at least two millionths of the picture
  away from it on some side keeps its level.\<close>

theorem hollow_inside_and_apart:
  assumes P: "drop 8 (astPdCalibrationPoints p) = box a1 b1 a2 b2" and "is_f32 a1" "is_f32 b1" "is_f32 a2" "is_f32 b2"
    and "a1 \<le> a2" "b1 \<le> b2" and d: "is_f32 (fX1 t)" "is_f32 (fY1 t)" "is_f32 (fX2 t)" "is_f32 (fY2 t)"
    and "fX1 t \<le> fX2 t" "fY1 t \<le> fY2 t" "fX2 t - fX1 t \<le> 1" "fY2 t - fY1 t \<le> 1"
  shows "(a1 \<le> fX1 t \<and> b1 \<le> fY1 t \<and> fX2 t \<le> a2 \<and> fY2 t \<le> b2 \<longrightarrow> pd_CheckRoiHollow p t e = PD_ROI_BUTT) \<and>
    (a2 + 1 / 500000 \<le> fX1 t \<or> fX2 t + 1 / 500000 \<le> a1 \<or> b2 + 1 / 500000 \<le> fY1 t \<or> fY2 t + 1 / 500000 \<le> b1 \<longrightarrow>
       pd_CheckRoiHollow p t e = e)"
proof -
  have i: "f32 v = v" if "is_f32 v" for v using that by (simp add: is_f32_def)
  have len: "length (astPdCalibrationPoints p) = 12"
  proof -
    have "length (drop 8 (astPdCalibrationPoints p)) = 4" by (simp add: P box_def)
    then show ?thesis by simp
  qed
  have nth: "astPdCalibrationPoints p ! (8 + k) = box a1 b1 a2 b2 ! k" if "k < 4" for k
    using that len by (simp flip: P)
  have "astPdCalibrationPoints p ! 8 = \<lparr>dX = a1, dY = b1\<rparr>" "astPdCalibrationPoints p ! 9 = \<lparr>dX = a1, dY = b2\<rparr>"
    "astPdCalibrationPoints p ! 10 = \<lparr>dX = a2, dY = b2\<rparr>" "astPdCalibrationPoints p ! 11 = \<lparr>dX = a2, dY = b1\<rparr>"
    using nth [of 0] nth [of 1] nth [of 2] nth [of 3] by (simp_all add: box_def)
  then have "pd_CheckRoiHollow p t e = (if pd_Polygon2Interior a1 b1 a2 b2 (fX1 t) (fY1 t) (fX2 t) (fY2 t) then PD_ROI_BUTT else e)"
    using assms(2-7) by (auto simp: pd_CheckRoiHollow_def Let_def i d)
  then show ?thesis
    using Interior_inside [OF d] Interior_apart [OF assms(2-5) d] assms by auto
qed

theorem hollow_inside_and_apart_witness:
  "pd_CheckRoiHollow sample_pds (sample_rect (1 / 8) (1 / 8) (1 / 4) (1 / 4)) PD_ROI_RED = PD_ROI_BUTT"
proof -
  have "drop 8 (astPdCalibrationPoints sample_pds) = box 0 0 (1 / 2) (1 / 2)" by (simp add: sample_pds_def box_def)
  from hollow_inside_and_apart [OF this, of "sample_rect (1 / 8) (1 / 8) (1 / 4) (1 / 4)" PD_ROI_RED]
  show ?thesis by (simp add: sample_rect_def)
qed

text \<open>The hollow flag of a parameter set is read by the dispatcher only.\<close>

lemma hollow_flag_unread [simp]:
  "pd_CheckRoiVerticalLayout (p\<lparr>enPdHollow := h\<rparr>) t = pd_CheckRoiVerticalLayout p t"
  "pd_CheckRoiHorizontalLayout (p\<lparr>enPdHollow := h\<rparr>) t left = pd_CheckRoiHorizontalLayout p t left"
  "pd_CheckRoiSemiCircleLayout (p\<lparr>enPdHollow := h\<rparr>) t = pd_CheckRoiSemiCircleLayout p t"
  "pd_CheckRoiEllipseLayout (p\<lparr>enPdHollow := h\<rparr>) t = pd_CheckRoiEllipseLayout p t"
  "pd_CheckRoiDrawBoardLayout R (p\<lparr>enPdHollow := h\<rparr>) t = pd_CheckRoiDrawBoardLayout R p t"
  "pd_CheckRoiHollow (p\<lparr>enPdHollow := h\<rparr>) t e = pd_CheckRoiHollow p t e"
  "detect_part b (p\<lparr>enPdHollow := h\<rparr>) t = detect_part b p t"
proof -
  have f: "astPdCalibrationPoints (p\<lparr>enPdHollow := h\<rparr>) = astPdCalibrationPoints p" "bPdRoiRed (p\<lparr>enPdHollow := h\<rparr>) = bPdRoiRed p"
    "bPdRoiYellow (p\<lparr>enPdHollow := h\<rparr>) = bPdRoiYellow p" "bPdRoiGreen (p\<lparr>enPdHollow := h\<rparr>) = bPdRoiGreen p"
    "bPdTestMode (p\<lparr>enPdHollow := h\<rparr>) = bPdTestMode p" "fEllipseB (p\<lparr>enPdHollow := h\<rparr>) = fEllipseB p"
    "bDetectBottom (p\<lparr>enPdHollow := h\<rparr>) = bDetectBottom p" by simp_all
  then have s: "roi_select (p\<lparr>enPdHollow := h\<rparr>) = roi_select p" "vertical_zone (p\<lparr>enPdHollow := h\<rparr>) = vertical_zone p"
    "horizontal_zone (p\<lparr>enPdHollow := h\<rparr>) = horizontal_zone p" "roi_default (p\<lparr>enPdHollow := h\<rparr>) = roi_default p"
    by (simp_all only: roi_select_def [abs_def] vertical_zone_def [abs_def] horizontal_zone_def [abs_def] roi_default_def)
  show "pd_CheckRoiVerticalLayout (p\<lparr>enPdHollow := h\<rparr>) t = pd_CheckRoiVerticalLayout p t"
    by (simp only: pd_CheckRoiVerticalLayout_def s)
  show "pd_CheckRoiHorizontalLayout (p\<lparr>enPdHollow := h\<rparr>) t left = pd_CheckRoiHorizontalLayout p t left"
    by (simp only: pd_CheckRoiHorizontalLayout_def s)
  show "pd_CheckRoiSemiCircleLayout (p\<lparr>enPdHollow := h\<rparr>) t = pd_CheckRoiSemiCircleLayout p t"
    by (simp only: pd_CheckRoiSemiCircleLayout_def s f)
  show "pd_CheckRoiEllipseLayout (p\<lparr>enPdHollow := h\<rparr>) t = pd_CheckRoiEllipseLayout p t"
    by (simp only: pd_CheckRoiEllipseLayout_def s f)
  show "pd_CheckRoiDrawBoardLayout R (p\<lparr>enPdHollow := h\<rparr>) t = pd_CheckRoiDrawBoardLayout R p t"
    by (simp only: pd_CheckRoiDrawBoardLayout_def s)
  show "pd_CheckRoiHollow (p\<lparr>enPdHollow := h\<rparr>) t e = pd_CheckRoiHollow p t e"
    by (simp only: pd_CheckRoiHollow_def f)
  show "detect_part b (p\<lparr>enPdHollow := h\<rparr>) t = detect_part b p t"
    by (simp only: detect_part_def f)
qed

definition set_hollow13 :: "CFG_ALG \<Rightarrow> int \<Rightarrow> int \<Rightarrow> CFG_ALG" where
  "set_hollow13 c h h' = c\<lparr>stAlgCh1 := (stAlgCh1 c)\<lparr>enPdHollow := h\<rparr>, stAlgCh3 := (stAlgCh3 c)\<lparr>enPdHollow := h'\<rparr>\<rparr>"

lemma pds_param_cases:
  "(\<forall>c. pds_param b chn c = None) \<or> (\<forall>c. pds_param b chn c = Some (stAlgCh1 c)) \<or>
   (\<forall>c. pds_param b chn c = Some (stAlgCh2 c)) \<or> (\<forall>c. pds_param b chn c = Some (stAlgCh3 c))"
  by (cases "b = ADA42V1 \<or> b = ADA42PTZV1"; cases "b = ADA32IR"; cases "chn = 0"; cases "chn = 1"; cases "chn = 2")
    (simp_all add: pds_param_def)

lemma set_hollow13_sel:
  "stAlgCh1 (set_hollow13 c h h') = (stAlgCh1 c)\<lparr>enPdHollow := h\<rparr>" "stAlgCh2 (set_hollow13 c h h') = stAlgCh2 c"
  "stAlgCh3 (set_hollow13 c h h') = (stAlgCh3 c)\<lparr>enPdHollow := h'\<rparr>"
  by (simp_all add: set_hollow13_def)

lemma set_hollow13_param:
  "pds_param b chn (set_hollow13 c h h') = None \<longleftrightarrow> pds_param b chn c = None"
  "pds_param b chn c = Some p \<Longrightarrow> \<exists>g. pds_param b chn (set_hollow13 c h h') = Some (p\<lparr>enPdHollow := g\<rparr>)"
  "stAlgCh2 (set_hollow13 c h h') = stAlgCh2 c"
proof -
  have same: "p = p\<lparr>enPdHollow := enPdHollow p\<rparr>" for p :: CFG_PDS_PARAM by simp
  show "pds_param b chn (set_hollow13 c h h') = None \<longleftrightarrow> pds_param b chn c = None"
    by (simp add: pds_param_def)
  show "\<exists>g. pds_param b chn (set_hollow13 c h h') = Some (p\<lparr>enPdHollow := g\<rparr>)" if "pds_param b chn c = Some p"
  proof -
    from pds_param_cases [of b chn]
    have "pds_param b chn (set_hollow13 c h h') \<in> {Some (p\<lparr>enPdHollow := h\<rparr>), Some (p\<lparr>enPdHollow := h'\<rparr>), Some p}"
      by (elim disjE) (use that in \<open>simp_all only: set_hollow13_sel insert_iff option.inject simp_thms option.distinct\<close>)
    then consider "pds_param b chn (set_hollow13 c h h') = Some (p\<lparr>enPdHollow := h\<rparr>)"
      | "pds_param b chn (set_hollow13 c h h') = Some (p\<lparr>enPdHollow := h'\<rparr>)"
      | "pds_param b chn (set_hollow13 c h h') = Some p" by blast
    then show ?thesis
    proof cases
      case 3
      then show ?thesis by (intro exI [of _ "enPdHollow p"]) (simp only: same [symmetric])
    qed blast+
  qed
qed (simp add: set_hollow13_def)

lemma pd_CheckRoiRect_None: "chn < M \<Longrightarrow> pds_param b chn c = None \<Longrightarrow> pd_CheckRoiRect R M b c chn t = Null_Deref"
  by (simp add: pd_CheckRoiRect_def)

lemma pd_CheckRoiRect_Some:
  assumes "chn < M" and "pds_param b chn c = Some p"
  shows "pd_CheckRoiRect R M b c chn t =
    (let r = detect_part b p t;
         e = (case enRoiStyle p of
              CFG_PDROI_BOTTOM \<Rightarrow> Roi (pd_CheckRoiVerticalLayout p r)
            | CFG_PDROI_LEFT \<Rightarrow> Roi (pd_CheckRoiHorizontalLayout p r True)
            | CFG_PDROI_RIGHT \<Rightarrow> Roi (pd_CheckRoiHorizontalLayout p r False)
            | CFG_PDROI_SEMICIRCLE \<Rightarrow> Roi (pd_CheckRoiSemiCircleLayout p r)
            | CFG_PDROI_ELLIPSE \<Rightarrow> Roi (pd_CheckRoiEllipseLayout p r)
            | CFG_PDROI_DRAWBOARD \<Rightarrow> if b = ADA47V1 then No_Value else Roi (pd_CheckRoiDrawBoardLayout R p r)
            | CFG_PDROI_OTHER \<Rightarrow> Roi PD_ROI_BUTT)
     in case e of
          Roi l \<Rightarrow> Roi (if enRoiStyle p \<noteq> CFG_PDROI_DRAWBOARD \<and> enPdHollow (stAlgCh2 c) = 1 then pd_CheckRoiHollow p r l else l)
        | x \<Rightarrow> x)"
  using assms by (cases "enRoiStyle p") (simp_all add: pd_CheckRoiRect_def with_param_Some Let_def)

text \<open> the dispatcher is defined on every channel below the limit except the fourth and later (or negative)
  channels of the ADA42 boards, where it reads through a null pointer; and it decides on the hollow by the
  parameters of the second camera alone, whatever those of the channel's own camera say.\<close>

theorem roi_dispatch:
  "(pd_CheckRoiRect R M b c chn t = Null_Deref \<longleftrightarrow>
      chn < M \<and> (b = ADA42V1 \<or> b = ADA42PTZV1) \<and> chn \<noteq> 0 \<and> chn \<noteq> 1 \<and> chn \<noteq> 2) \<and>
   pd_CheckRoiRect R M b (set_hollow13 c h h') chn t = pd_CheckRoiRect R M b c chn t"
proof (cases "M \<le> chn")
  case True
  then show ?thesis by (simp add: pd_CheckRoiRect_def)
next
  case False
  then have lt: "chn < M" by simp
  show ?thesis
  proof (cases "pds_param b chn c")
    case None
    moreover have "(b = ADA42V1 \<or> b = ADA42PTZV1) \<and> chn \<noteq> 0 \<and> chn \<noteq> 1 \<and> chn \<noteq> 2"
      using None by (auto simp: pds_param_def split: if_splits)
    ultimately show ?thesis using lt by (simp add: pd_CheckRoiRect_None set_hollow13_param)
  next
    case (Some p)
    then have ch: "\<not> ((b = ADA42V1 \<or> b = ADA42PTZV1) \<and> chn \<noteq> 0 \<and> chn \<noteq> 1 \<and> chn \<noteq> 2)"
      by (auto simp: pds_param_def split: if_splits)
    obtain g where "pds_param b chn (set_hollow13 c h h') = Some (p\<lparr>enPdHollow := g\<rparr>)"
      using set_hollow13_param(2) [OF Some] by blast
    from pd_CheckRoiRect_Some [OF lt this] pd_CheckRoiRect_Some [OF lt Some] ch lt
    show ?thesis
      by (cases "enRoiStyle p") (simp_all add: Let_def set_hollow13_param(3))
  qed
qed

end
