(* ===== verification/Remap.thy ===== *)
theory Remap
  imports Geometry Detection Alarm
begin

section \<open>From detector coordinates to the display (pd/pd.cpp)\<close>

text \<open>
  \<open>coordinate_remap\<close> places a detection box, given relative to the picture of one camera, on the
  panel of the display: in full, in one half, or in one quarter, keeping clear of the corners where the
  display draws its own marks.  \<open>limit_box\<close> is what the detection loop does to the box afterwards.  The
  panel sizes are \<open>uint32_t\<close>, so a comparison or a sum of a \<open>short\<close> with them is done in that type
  (\<open>u32\<close>); each assignment to a \<open>short\<close> converts back (\<open>s16\<close>).
\<close>

record Algo_Result_f =
  fx1 :: rat
  fy1 :: rat
  fx2 :: rat
  fy2 :: rat

definition DISPLAY_SINGLE :: int where "DISPLAY_SINGLE = 0"
definition DISPLAY_DOUBLE1 :: int where "DISPLAY_DOUBLE1 = 1"
definition DISPLAY_DOUBLE2 :: int where "DISPLAY_DOUBLE2 = 2"
definition DISPLAY_QUAD2 :: int where "DISPLAY_QUAD2 = 4"
definition DISPLAY_QUAD3 :: int where "DISPLAY_QUAD3 = 5"

lemmas display_defs = DISPLAY_SINGLE_def DISPLAY_DOUBLE1_def DISPLAY_DOUBLE2_def DISPLAY_QUAD1_def
  DISPLAY_QUAD2_def DISPLAY_QUAD3_def DISPLAY_QUAD4_def

subsection \<open>Scaling\<close>

definition to_panel :: "int \<Rightarrow> rat \<Rightarrow> int" where
  "to_panel n v = f2s16 (fmul v (f32 (of_int n)))"

definition to_first_half :: "int \<Rightarrow> rat \<Rightarrow> int" where
  "to_first_half n v = f2s16 (fdiv (fmul v (f32 (of_int n))) 2)"

definition to_second_half :: "int \<Rightarrow> rat \<Rightarrow> int" where
  "to_second_half n v = f2s16 (fadd (fdiv (fmul v (f32 (of_int n))) 2) (f32 (of_int (n div 2))))"

definition place :: "(rat \<Rightarrow> int) \<Rightarrow> (rat \<Rightarrow> int) \<Rightarrow> Algo_Result_f \<Rightarrow> Algo_Result \<Rightarrow> Algo_Result" where
  "place X Y p r = r\<lparr>ar_x1 := X (fx1 p), ar_y1 := Y (fy1 p), ar_x2 := X (fx2 p), ar_y2 := Y (fy2 p)\<rparr>"

subsection \<open>Keeping clear of the marks\<close>

definition fix_single :: "int \<Rightarrow> int \<Rightarrow> Algo_Result \<Rightarrow> Algo_Result" where
  "fix_single BsdRange_TYPE w r =
     (if BsdRange_TYPE = 0 then
        let r = (if ar_x1 r < 110 \<and> ar_y1 r < 80 then r\<lparr>ar_x1 := 111, ar_y1 := 81\<rparr> else r)
        in if u32 (w - 51) < u32 (ar_x1 r) \<and> ar_y1 r < 80 then r\<lparr>ar_x1 := s16 (w - 50), ar_y1 := 81\<rparr> else r
      else
        let r = (if ar_x1 r < 110 \<and> ar_y1 r < 90 then r\<lparr>ar_x1 := 111, ar_y1 := 90\<rparr> else r)
        in if u32 (w - 50) < u32 (ar_x2 r) \<and> ar_y1 r < 90 then r\<lparr>ar_x2 := s16 (w - 49), ar_y1 := 90\<rparr> else r)"

text \<open>The two corrections most halves and quarters have: shift the box right so that it starts at \<open>x\<close>,
  and shift it left so that it ends at 510.\<close>

definition shift_from :: "int \<Rightarrow> int \<Rightarrow> Algo_Result \<Rightarrow> Algo_Result" where
  "shift_from x y r = r\<lparr>ar_x2 := s16 (u32 (ar_x2 r + (x - ar_x1 r))), ar_x1 := s16 x, ar_y2 := s16 y\<rparr>"

definition shift_to_510 :: "Algo_Result \<Rightarrow> Algo_Result" where
  "shift_to_510 r = (if 510 \<le> ar_x2 r then r\<lparr>ar_x1 := s16 (ar_x1 r - (ar_x2 r - 510)), ar_x2 := 510\<rparr> else r)"

definition cut_at_510 :: "Algo_Result \<Rightarrow> Algo_Result" where
  "cut_at_510 r = (if 510 \<le> ar_x2 r then r\<lparr>ar_x2 := 510\<rparr> else r)"

definition start_at_514 :: "Algo_Result \<Rightarrow> Algo_Result" where
  "start_at_514 r = (if ar_x1 r \<le> 514 then r\<lparr>ar_x2 := s16 (ar_x2 r - (514 - ar_x1 r)), ar_x1 := 514\<rparr> else r)"

definition fix_double1 :: "int \<Rightarrow> Algo_Result \<Rightarrow> Algo_Result" where
  "fix_double1 BsdRange_TYPE r =
     (if BsdRange_TYPE = 0 then
        cut_at_510 (if ar_x1 r < 110 \<and> ar_y1 r < 80 then r\<lparr>ar_x1 := 111, ar_y1 := 81\<rparr> else r)
      else shift_to_510 (if ar_x1 r \<le> 110 \<and> ar_y2 r < 90 then shift_from 111 90 r else r))"

text \<open>The right half and the upper right quarter share their corrections but for one comparison.\<close>

definition fix_right0 :: "bool \<Rightarrow> int \<Rightarrow> Algo_Result \<Rightarrow> Algo_Result" where
  "fix_right0 strict w r =
     (let b = u32 (110 + w div 2);
          r = (if (if strict then u32 (ar_x1 r) < b else u32 (ar_x1 r) \<le> b) \<and> ar_y1 r < 80
               then r\<lparr>ar_x1 := s16 (111 + w div 2), ar_y1 := 51\<rparr> else r)
      in if u32 (w - 52) < u32 (ar_x1 r) \<and> ar_y1 r < 50 then r\<lparr>ar_x1 := s16 (w - 53), ar_y1 := 51\<rparr> else r)"

definition fix_right1 :: "int \<Rightarrow> Algo_Result \<Rightarrow> Algo_Result" where
  "fix_right1 w r =
     (let r = (if u32 (ar_x1 r) \<le> u32 (110 + w div 2) \<and> ar_y2 r < 89 then shift_from (111 + w div 2) 90 r else r)
      in if u32 (w - 52) < u32 (ar_x2 r) \<and> ar_y2 r < 58
         then r\<lparr>ar_x1 := s16 (u32 (ar_x1 r - (ar_x2 r - (w - 50)))), ar_x2 := s16 (w - 50), ar_y2 := 59\<rparr> else r)"

definition fix_double2 :: "int \<Rightarrow> int \<Rightarrow> Algo_Result \<Rightarrow> Algo_Result" where
  "fix_double2 BsdRange_TYPE w r =
     (if BsdRange_TYPE = 0 then fix_right0 True w r else start_at_514 (fix_right1 w r))"

definition end_above_298 :: "Algo_Result \<Rightarrow> Algo_Result" where
  "end_above_298 r = (if 298 \<le> ar_y2 r then r\<lparr>ar_y2 := 298\<rparr> else r)"

definition end_below_302 :: "Algo_Result \<Rightarrow> Algo_Result" where
  "end_below_302 r = (if ar_y2 r \<le> 302 then r\<lparr>ar_y2 := 302\<rparr> else r)"

definition fix_quad1 :: "int \<Rightarrow> Algo_Result \<Rightarrow> Algo_Result" where
  "fix_quad1 BsdRange_TYPE r = end_above_298
     (if BsdRange_TYPE = 0 then
        let r = cut_at_510 r in if ar_x1 r \<le> 120 \<and> ar_y1 r < 80 then r\<lparr>ar_x1 := 120, ar_y1 := 81\<rparr> else r
      else shift_to_510 (if ar_x1 r \<le> 110 \<and> ar_y2 r < 90 then shift_from 111 90 r else r))"

definition fix_quad2 :: "int \<Rightarrow> int \<Rightarrow> Algo_Result \<Rightarrow> Algo_Result" where
  "fix_quad2 BsdRange_TYPE w r =
     end_above_298 (start_at_514 (if BsdRange_TYPE = 0 then fix_right0 False w r else fix_right1 w r))"

definition fix_quad3 :: "int \<Rightarrow> int \<Rightarrow> Algo_Result \<Rightarrow> Algo_Result" where
  "fix_quad3 BsdRange_TYPE h r = end_below_302
     (if BsdRange_TYPE = 0 then
        let r = cut_at_510 r
        in if ar_x1 r < 110 \<and> u32 (ar_y1 r) < u32 (50 + h div 2) then r\<lparr>ar_x1 := 111, ar_y1 := s16 (51 + h div 2)\<rparr> else r
      else shift_to_510 (if ar_x1 r \<le> 110 \<and> u32 (ar_y2 r) < u32 (58 + h div 2) then shift_from 111 (59 + h div 2) r else r))"

definition fix_quad4 :: "int \<Rightarrow> int \<Rightarrow> Algo_Result \<Rightarrow> Algo_Result" where
  "fix_quad4 w h r = end_below_302 (start_at_514
     (if u32 (ar_x1 r) \<le> u32 (110 + w div 2) \<and> u32 (ar_y2 r) < u32 (58 + h div 2)
      then shift_from (111 + w div 2) (59 + h div 2) r else r))"

definition coordinate_remap :: "int \<Rightarrow> Algo_Result \<Rightarrow> Algo_Result_f \<Rightarrow> int \<Rightarrow> int \<Rightarrow> int \<Rightarrow> Algo_Result" where
  "coordinate_remap BsdRange_TYPE r p Displaymode w h =
     (if Displaymode = DISPLAY_SINGLE then fix_single BsdRange_TYPE w (place (to_panel w) (to_panel h) p r)
      else if Displaymode = DISPLAY_DOUBLE1 then fix_double1 BsdRange_TYPE (place (to_first_half w) (to_panel h) p r)
      else if Displaymode = DISPLAY_DOUBLE2 then fix_double2 BsdRange_TYPE w (place (to_second_half w) (to_panel h) p r)
      else if Displaymode = DISPLAY_QUAD1 then fix_quad1 BsdRange_TYPE (place (to_first_half w) (to_first_half h) p r)
      else if Displaymode = DISPLAY_QUAD2 then fix_quad2 BsdRange_TYPE w (place (to_second_half w) (to_first_half h) p r)
      else if Displaymode = DISPLAY_QUAD3 then fix_quad3 BsdRange_TYPE h (place (to_first_half w) (to_second_half h) p r)
      else if Displaymode = DISPLAY_QUAD4 then fix_quad4 w h (place (to_second_half w) (to_second_half h) p r)
      else place (to_panel w) (to_panel h) p r)"

subsection \<open>The margins of the detection loop\<close>

definition widen :: "int \<Rightarrow> Algo_Result \<Rightarrow> Algo_Result" where
  "widen DisplayMode r =
     (if ar_x2 r - ar_x1 r < 30 then
        if (DisplayMode = DISPLAY_QUAD1 \<or> DisplayMode = DISPLAY_QUAD3 \<or> DisplayMode = DISPLAY_DOUBLE1) \<and> 510 \<le> ar_x2 r + 30
        then r\<lparr>ar_x2 := 510, ar_x1 := 480\<rparr>
        else r\<lparr>ar_x2 := s16 (ar_x1 r + 30)\<rparr>
      else r)"

definition limit_box :: "int \<Rightarrow> Algo_Result \<Rightarrow> Algo_Result" where
  "limit_box DisplayMode r =
     (let r = (if ar_x1 r < 20 then r\<lparr>ar_x1 := 20\<rparr> else r);
          r = (if ar_y1 r < 20 then r\<lparr>ar_y1 := 20\<rparr> else r);
          r = (if 1004 < ar_x2 r then r\<lparr>ar_x2 := 1004\<rparr> else r);
          r = (if 580 < ar_y2 r then r\<lparr>ar_y2 := 580\<rparr> else r)
      in widen DisplayMode r)"

definition display_box :: "int \<Rightarrow> int \<Rightarrow> Algo_Result_f \<Rightarrow> Algo_Result \<Rightarrow> Algo_Result" where
  "display_box BsdRange_TYPE DisplayMode p r = limit_box DisplayMode (coordinate_remap BsdRange_TYPE r p DisplayMode 1024 600)"

subsection \<open>Lemmas\<close>

lemma f32_panel: "f32 1024 = 1024" "f32 600 = 600" "f32 512 = 512" "f32 300 = 300"
  using f32_of_int [of 1024] f32_of_int [of 600] f32_of_int [of 512] f32_of_int [of 300] by simp_all

lemma f32_range: "of_int a \<le> x \<Longrightarrow> x \<le> of_int b \<Longrightarrow> \<bar>a\<bar> \<le> 16777216 \<Longrightarrow> \<bar>b\<bar> \<le> 16777216 \<Longrightarrow>
   of_int a \<le> f32 x \<and> f32 x \<le> of_int b"
  using f32_mono [of "of_int a" x] f32_mono [of x "of_int b"] by (simp add: f32_of_int)

lemma f2s16_interval:
  assumes "of_int a \<le> x" "x \<le> y" "y \<le> of_int b" "- 32768 \<le> a" "b < 32768"
  shows "a \<le> f2s16 x \<and> f2s16 x \<le> f2s16 y \<and> f2s16 y \<le> b"
  using f2s16_range [of a x b] f2s16_range [of a y b] f2s32_mono [of x y] assms by simp

lemma to_panel_interval:
  assumes "0 \<le> u" "u \<le> v" "v \<le> 1" "n = 1024 \<or> n = 600"
  shows "0 \<le> to_panel n u \<and> to_panel n u \<le> to_panel n v \<and> to_panel n v \<le> n"
  unfolding to_panel_def
proof (rule f2s16_interval)
  show "of_int 0 \<le> fmul u (f32 (of_int n))" "fmul v (f32 (of_int n)) \<le> of_int n"
    using f32_range [of 0 "u * of_int n" n] f32_range [of 0 "v * of_int n" n] assms by (auto simp: f32_panel)
  show "fmul u (f32 (of_int n)) \<le> fmul v (f32 (of_int n))"
    using assms by (intro f32_mono mult_right_mono) (auto simp: f32_panel)
qed (use assms in auto)

lemma halves:
  assumes "0 \<le> u" "u \<le> v" "v \<le> 1" "n = 1024 \<or> n = 600"
  defines "h \<equiv> \<lambda>v. fdiv (fmul v (f32 (of_int n))) 2"
  shows "0 \<le> h u" "h u \<le> h v" "h v \<le> of_int (n div 2)"
proof -
  have a: "of_int 0 \<le> fmul w (f32 (of_int n)) \<and> fmul w (f32 (of_int n)) \<le> of_int n" if "0 \<le> w" "w \<le> 1" for w
    by (rule f32_range) (use that assms(4) in \<open>auto simp: f32_panel\<close>)
  have b: "of_int 0 \<le> h w \<and> h w \<le> of_int (n div 2)" if "0 \<le> w" "w \<le> 1" for w
    unfolding h_def by (rule f32_range) (use a [OF that] assms(4) in auto)
  show "0 \<le> h u" "h v \<le> of_int (n div 2)" using b [of u] b [of v] assms(1-3) by auto
  have "fmul u (f32 (of_int n)) \<le> fmul v (f32 (of_int n))"
    using assms(1-4) by (intro f32_mono mult_right_mono) (auto simp: f32_panel)
  then show "h u \<le> h v" unfolding h_def by (intro f32_mono) simp
qed

lemma to_first_half_interval:
  assumes "0 \<le> u" "u \<le> v" "v \<le> 1" "n = 1024 \<or> n = 600"
  shows "0 \<le> to_first_half n u \<and> to_first_half n u \<le> to_first_half n v \<and> to_first_half n v \<le> n div 2"
  unfolding to_first_half_def by (rule f2s16_interval) (use halves [OF assms] assms(4) in auto)

lemma to_second_half_interval:
  assumes "0 \<le> u" "u \<le> v" "v \<le> 1" "n = 1024 \<or> n = 600"
  shows "n div 2 \<le> to_second_half n u \<and> to_second_half n u \<le> to_second_half n v \<and> to_second_half n v \<le> n"
proof -
  let ?h = "\<lambda>v. fadd (fdiv (fmul v (f32 (of_int n))) 2) (f32 (of_int (n div 2)))"
  have "of_int (n div 2) \<le> ?h w \<and> ?h w \<le> of_int n" if "0 \<le> w" "w \<le> 1" for w
    by (rule f32_range) (use halves [of w w n] that assms(4) in \<open>auto simp: f32_panel\<close>)
  moreover have "?h u \<le> ?h v" using halves(2) [OF assms] by (intro f32_mono) simp
  ultimately show ?thesis
    unfolding to_second_half_def using assms by (intro f2s16_interval) auto
qed

text \<open>What the corrections and margins make of an ordered box in its part of the panel.\<close>

definition box_in :: "int \<Rightarrow> int \<Rightarrow> int \<Rightarrow> int \<Rightarrow> Algo_Result \<Rightarrow> bool" where
  "box_in xmin xmax ymin ymax r \<longleftrightarrow> xmin \<le> ar_x1 r \<and> ar_x1 r \<le> ar_x2 r \<and> ar_x2 r \<le> xmax \<and>
     ymin \<le> ar_y1 r \<and> ar_y1 r \<le> ar_y2 r \<and> ar_y2 r \<le> ymax"

definition shown_in :: "int \<Rightarrow> int \<Rightarrow> int \<Rightarrow> int \<Rightarrow> Algo_Result \<Rightarrow> bool" where
  "shown_in xmin xmax ymin ymax r \<longleftrightarrow> xmin \<le> ar_x1 r \<and> ar_x1 r + 30 \<le> ar_x2 r \<and> ar_x2 r \<le> xmax \<and>
     ymin \<le> ar_y1 r \<and> ar_y2 r \<le> ymax"

lemmas panel_words = u32_id s16_id shift_from_def shift_to_510_def cut_at_510_def start_at_514_def
  end_above_298_def end_below_302_def limit_box_def widen_def Let_def display_defs

text \<open>The boxes the corrections may leave: in the left half, in the right half.\<close>

definition left_box :: "int \<Rightarrow> int \<Rightarrow> Algo_Result \<Rightarrow> bool" where
  "left_box ymin ymax r \<longleftrightarrow> - 1000 \<le> ar_x1 r \<and> (ar_x1 r \<le> ar_x2 r \<or> ar_x1 r \<le> 120 \<or> 480 \<le> ar_x2 r) \<and>
     0 \<le> ar_x2 r \<and> ar_x2 r \<le> 510 \<and>
     ymin \<le> ar_y1 r \<and> ar_y1 r \<le> 600 \<and> 0 \<le> ar_y2 r \<and> ar_y2 r \<le> ymax"

definition right_box :: "int \<Rightarrow> int \<Rightarrow> int \<Rightarrow> int \<Rightarrow> Algo_Result \<Rightarrow> bool" where
  "right_box l xmin ymin ymax r \<longleftrightarrow> xmin \<le> ar_x1 r \<and> ar_x1 r \<le> 1024 \<and> l \<le> ar_x2 r \<and> ar_x2 r \<le> 2000 \<and>
     ymin \<le> ar_y1 r \<and> ar_y1 r \<le> 600 \<and> 0 \<le> ar_y2 r \<and> ar_y2 r \<le> ymax"

lemma limit_left:
  assumes "left_box ymin ymax r" and "d = 1 \<or> d = 3 \<or> d = 5"
  shows "shown_in 20 510 (max 20 ymin) (min 580 ymax) (limit_box d r)"
  using assms(1) assms(2) unfolding left_box_def shown_in_def limit_box_def widen_def Let_def display_defs
  by (auto simp: s16_id)

lemma limit_right:
  assumes "right_box l xmin ymin ymax r" and "d \<noteq> 1" "d \<noteq> 3" "d \<noteq> 5"
  shows "shown_in (max 20 xmin) 1054 (max 20 ymin) (min 580 ymax) (limit_box d r)"
  using assms unfolding right_box_def shown_in_def limit_box_def widen_def Let_def display_defs
  by (auto simp: s16_id)

lemma fix_double1_box: "box_in 0 512 0 600 r \<Longrightarrow> left_box 0 600 (fix_double1 b r)"
  by (auto simp: box_in_def left_box_def fix_double1_def panel_words)

lemma fix_quad1_box: "box_in 0 512 0 300 r \<Longrightarrow> left_box 0 298 (fix_quad1 b r)"
  by (auto simp: box_in_def left_box_def fix_quad1_def panel_words)

lemma fix_quad3_box: "box_in 0 512 300 600 r \<Longrightarrow> left_box 300 600 (fix_quad3 b 600 r)"
  by (auto simp: box_in_def left_box_def fix_quad3_def panel_words)

lemma fix_single_box: "box_in 0 1024 0 600 r \<Longrightarrow> right_box (- 100) 0 0 600 (fix_single b 1024 r)"
  by (auto simp: box_in_def right_box_def fix_single_def panel_words)

lemma fix_right0_box: "box_in 512 1024 0 600 r \<Longrightarrow> right_box 0 512 0 600 (fix_right0 c 1024 r)"
  by (auto simp: box_in_def right_box_def fix_right0_def panel_words)

lemma fix_right1_box: "box_in 512 1024 0 600 r \<Longrightarrow> right_box 0 462 0 600 (fix_right1 1024 r)"
  by (auto simp: box_in_def right_box_def fix_right1_def panel_words)

lemma start_at_514_box: "right_box 0 462 ymin ymax r \<Longrightarrow> right_box (- 100) 514 ymin ymax (start_at_514 r)"
  by (auto simp: right_box_def start_at_514_def s16_id)

lemma end_above_298_box: "right_box l x ymin ymax r \<Longrightarrow> right_box l x ymin (min 298 ymax) (end_above_298 r)"
  by (auto simp: right_box_def end_above_298_def)

lemma end_below_302_box: "right_box l x ymin 600 r \<Longrightarrow> right_box l x ymin 600 (end_below_302 r)"
  by (auto simp: right_box_def end_below_302_def)

lemma right_box_weaken: "right_box l x ymin ymax r \<Longrightarrow> l' \<le> l \<Longrightarrow> x' \<le> x \<Longrightarrow> right_box l' x' ymin ymax r"
  by (auto simp: right_box_def)

lemma box_in_weaken: "box_in a b c d r \<Longrightarrow> a' \<le> a \<Longrightarrow> b \<le> b' \<Longrightarrow> c' \<le> c \<Longrightarrow> d \<le> d' \<Longrightarrow> box_in a' b' c' d' r"
  by (auto simp: box_in_def)

lemma fix_double2_box: "box_in 512 1024 0 600 r \<Longrightarrow> right_box (- 100) 512 0 600 (fix_double2 b 1024 r)"
  unfolding fix_double2_def
  by (auto intro: right_box_weaken [OF fix_right0_box] right_box_weaken [OF start_at_514_box [OF fix_right1_box]])

lemma fix_quad2_box:
  assumes "box_in 512 1024 0 300 r"
  shows "right_box (- 100) 514 0 298 (fix_quad2 b 1024 r)"
proof -
  have r: "box_in 512 1024 0 600 r" using assms by (rule box_in_weaken) simp_all
  have "right_box 0 462 0 600 (if b = 0 then fix_right0 False 1024 r else fix_right1 1024 r)"
    using right_box_weaken [OF fix_right0_box [OF r]] fix_right1_box [OF r] by simp
  from end_above_298_box [OF start_at_514_box [OF this]] show ?thesis by (simp add: fix_quad2_def)
qed

lemma fix_quad4_box:
  assumes "box_in 512 1024 300 600 r"
  shows "right_box (- 100) 514 300 600 (fix_quad4 1024 600 r)"
proof -
  have "right_box 0 462 300 600 (if u32 (ar_x1 r) \<le> u32 (110 + 1024 div 2) \<and> u32 (ar_y2 r) < u32 (58 + 600 div 2)
      then shift_from (111 + 1024 div 2) (59 + 600 div 2) r else r)"
    using assms by (auto simp: box_in_def right_box_def panel_words)
  from end_below_302_box [OF start_at_514_box [OF this]] show ?thesis by (simp add: fix_quad4_def)
qed

text \<open>An ordered box ends up in the part of the panel its camera is shown in.\<close>

definition part_of_panel :: "int \<Rightarrow> Algo_Result \<Rightarrow> bool" where
  "part_of_panel d =
    (if d = DISPLAY_DOUBLE1 then shown_in 20 510 20 580
     else if d = DISPLAY_DOUBLE2 then shown_in 512 1054 20 580
     else if d = DISPLAY_QUAD1 then shown_in 20 510 20 298
     else if d = DISPLAY_QUAD2 then shown_in 514 1054 20 298
     else if d = DISPLAY_QUAD3 then shown_in 20 510 300 580
     else if d = DISPLAY_QUAD4 then shown_in 514 1054 300 580
     else shown_in 20 1054 20 580)"

lemma display_box_in_quadrant:
  assumes "0 \<le> fx1 p" "fx1 p \<le> fx2 p" "fx2 p \<le> 1" "0 \<le> fy1 p" "fy1 p \<le> fy2 p" "fy2 p \<le> 1"
  shows "part_of_panel d (display_box BsdRange d p r)"
proof -
  have x: "box_in 0 512 a b (place (to_first_half 1024) Y p r) = (a \<le> Y (fy1 p) \<and> Y (fy1 p) \<le> Y (fy2 p) \<and> Y (fy2 p) \<le> b)"
    "box_in 512 1024 a b (place (to_second_half 1024) Y p r) = (a \<le> Y (fy1 p) \<and> Y (fy1 p) \<le> Y (fy2 p) \<and> Y (fy2 p) \<le> b)"
    "box_in 0 1024 a b (place (to_panel 1024) Y p r) = (a \<le> Y (fy1 p) \<and> Y (fy1 p) \<le> Y (fy2 p) \<and> Y (fy2 p) \<le> b)" for Y a b
    using to_first_half_interval [OF assms(1-3), of 1024] to_second_half_interval [OF assms(1-3), of 1024]
      to_panel_interval [OF assms(1-3), of 1024] by (auto simp: box_in_def place_def)
  note y = to_first_half_interval [OF assms(4-6), of 600] to_second_half_interval [OF assms(4-6), of 600]
    to_panel_interval [OF assms(4-6), of 600]
  have p: "right_box (- 100) 0 0 600 (place (to_panel 1024) (to_panel 600) p r)"
    using to_panel_interval [OF assms(1-3), of 1024] to_panel_interval [OF assms(4-6), of 600]
    by (simp add: place_def right_box_def)
  note left = limit_left [OF fix_double1_box] limit_left [OF fix_quad1_box] limit_left [OF fix_quad3_box]
  note right = limit_right [OF fix_single_box] limit_right [OF fix_double2_box] limit_right [OF fix_quad2_box]
    limit_right [OF fix_quad4_box] limit_right [OF p]
  show ?thesis
    unfolding display_box_def coordinate_remap_def part_of_panel_def
    using left right x y by (simp add: display_defs)
qed

text \<open>Whatever the box, what is sent fits the 16-bit fields.\<close>

definition short :: "int \<Rightarrow> bool" where "short v \<longleftrightarrow> - 32768 \<le> v \<and> v < 32768"

definition short_box :: "Algo_Result \<Rightarrow> bool" where
  "short_box r \<longleftrightarrow> short (ar_x1 r) \<and> short (ar_y1 r) \<and> short (ar_x2 r) \<and> short (ar_y2 r)"

lemma short_s16 [simp]: "short (s16 v)" "short (f2s16 q)"
  using s16_range by (auto simp: short_def f2s16_def)

lemma short_numeral: "short 20" "short 30" "short 480" "short 510" "short 1004" "short 580" "short 111" "short 81" "short 90"
  "short 51" "short 120" "short 298" "short 302" "short 514" "short 59"
  by (simp_all add: short_def)

lemma short_place: "short_box (place (to_panel n) (to_panel m) p r)" "short_box (place (to_first_half n) (to_panel m) p r)"
  "short_box (place (to_second_half n) (to_panel m) p r)" "short_box (place (to_first_half n) (to_first_half m) p r)"
  "short_box (place (to_second_half n) (to_first_half m) p r)" "short_box (place (to_first_half n) (to_second_half m) p r)"
  "short_box (place (to_second_half n) (to_second_half m) p r)"
  by (simp_all add: short_box_def place_def to_panel_def to_first_half_def to_second_half_def)

lemma short_fix:
  assumes "short_box r"
  shows "short_box (shift_from x y r)" "short_box (shift_to_510 r)" "short_box (cut_at_510 r)" "short_box (start_at_514 r)"
    "short_box (end_above_298 r)" "short_box (end_below_302 r)" "short_box (widen d r)"
  using assms by (auto simp: short_box_def shift_from_def shift_to_510_def cut_at_510_def start_at_514_def
      end_above_298_def end_below_302_def widen_def short_numeral)

lemma short_fixes:
  assumes "short_box r"
  shows "short_box (fix_single b w r)" "short_box (fix_right0 c w r)" "short_box (fix_right1 w r)" "short_box (limit_box d r)"
proof -
  show "short_box (fix_single b w r)" "short_box (fix_right0 c w r)"
    using assms by (auto simp: short_box_def fix_single_def fix_right0_def Let_def short_numeral)
  show "short_box (fix_right1 w r)"
    using assms short_fix(1) [OF assms] by (auto simp: short_box_def fix_right1_def Let_def short_numeral)
  show "short_box (limit_box d r)"
    unfolding limit_box_def Let_def by (intro short_fix(7)) (use assms in \<open>auto simp: short_box_def short_numeral\<close>)
qed

lemma short_corner [simp]: "short_box r \<Longrightarrow> short a \<Longrightarrow> short b \<Longrightarrow> short_box (r\<lparr>ar_x1 := a, ar_y1 := b\<rparr>)"
  by (simp add: short_box_def)

lemma coordinate_remap_short: "short_box (coordinate_remap b r p d w h)"
  unfolding coordinate_remap_def fix_double1_def fix_double2_def fix_quad1_def fix_quad2_def fix_quad3_def fix_quad4_def Let_def
  by (simp add: short_place short_fix short_fixes short_numeral)

lemma alarm_type_fix [simp]:
  "alarm_type (place X Y p r) = alarm_type r" "alarm_type (shift_from x y r) = alarm_type r"
  "alarm_type (shift_to_510 r) = alarm_type r" "alarm_type (cut_at_510 r) = alarm_type r"
  "alarm_type (start_at_514 r) = alarm_type r" "alarm_type (end_above_298 r) = alarm_type r"
  "alarm_type (end_below_302 r) = alarm_type r"
  by (simp_all add: place_def shift_from_def shift_to_510_def cut_at_510_def start_at_514_def
      end_above_298_def end_below_302_def)

lemma alarm_type_fixes [simp]:
  "alarm_type (fix_single b w r) = alarm_type r" "alarm_type (fix_right0 c w r) = alarm_type r"
  "alarm_type (fix_right1 w r) = alarm_type r" "alarm_type (fix_double1 b r) = alarm_type r"
  "alarm_type (fix_double2 b w r) = alarm_type r"
  "alarm_type (fix_quad1 b r) = alarm_type r" "alarm_type (fix_quad2 b w r) = alarm_type r"
  "alarm_type (fix_quad3 b h r) = alarm_type r" "alarm_type (fix_quad4 w h r) = alarm_type r"
proof -
  show a: "alarm_type (fix_right0 c w r) = alarm_type r" for c w r by (simp add: fix_right0_def Let_def)
  show b: "alarm_type (fix_right1 w r) = alarm_type r" for w r by (simp add: fix_right1_def Let_def)
  show "alarm_type (fix_single b w r) = alarm_type r" by (simp add: fix_single_def Let_def)
  show "alarm_type (fix_double1 b r) = alarm_type r" by (simp add: fix_double1_def)
  show "alarm_type (fix_double2 b w r) = alarm_type r" by (simp add: fix_double2_def a b)
  show "alarm_type (fix_quad1 b r) = alarm_type r" by (simp add: fix_quad1_def Let_def)
  show "alarm_type (fix_quad2 b w r) = alarm_type r" by (simp add: fix_quad2_def a b)
  show "alarm_type (fix_quad3 b h r) = alarm_type r" by (simp add: fix_quad3_def Let_def)
  show "alarm_type (fix_quad4 w h r) = alarm_type r" by (simp add: fix_quad4_def)
qed

lemma alarm_type_remap [simp]: "alarm_type (coordinate_remap b r p d w h) = alarm_type r"
  by (simp add: coordinate_remap_def)

lemma alarm_type_limit [simp]: "alarm_type (limit_box d r) = alarm_type r"
  by (simp add: limit_box_def widen_def Let_def)

subsection \<open>Properties\<close>

text \<open> the correction for the upper left corner of the full picture moves the corner of the box below the
  box: every detection that starts in the first 64 columns and ends in the first 75 rows is sent upside down,
  with its upper edge at 81 and its lower edge above that.\<close>

theorem corner_box_upside_down:
  assumes "0 \<le> fx1 p" "fx1 p \<le> 1 / 16" "0 \<le> fy1 p" "fy1 p \<le> fy2 p" "fy2 p \<le> 1 / 8"
  shows "ar_y1 (display_box 0 DISPLAY_SINGLE p r) = 81 \<and> ar_y2 (display_box 0 DISPLAY_SINGLE p r) \<le> 75"
proof -
  have x: "of_int 0 \<le> fmul (fx1 p) (f32 (of_int 1024)) \<and> fmul (fx1 p) (f32 (of_int 1024)) \<le> of_int 64"
    by (rule f32_range) (use assms in \<open>auto simp: f32_panel\<close>)
  have "of_int 0 \<le> fmul v (f32 (of_int 600)) \<and> fmul v (f32 (of_int 600)) \<le> of_int 75"
    if "0 \<le> v" "v \<le> 1 / 8" for v
    by (rule f32_range) (use that in \<open>auto simp: f32_panel\<close>)
  from this [of "fy1 p"] this [of "fy2 p"] x assms
  have "0 \<le> to_panel 1024 (fx1 p) \<and> to_panel 1024 (fx1 p) \<le> 64" "0 \<le> to_panel 600 (fy1 p) \<and> to_panel 600 (fy1 p) \<le> 75"
    "0 \<le> to_panel 600 (fy2 p) \<and> to_panel 600 (fy2 p) \<le> 75"
    using f2s16_range [of 0 "fmul (fx1 p) (f32 (of_int 1024))" 64] f2s16_range [of 0 "fmul (fy1 p) (f32 (of_int 600))" 75]
      f2s16_range [of 0 "fmul (fy2 p) (f32 (of_int 600))" 75] unfolding to_panel_def by simp_all
  then show ?thesis
    by (auto simp: display_box_def coordinate_remap_def place_def fix_single_def panel_words)
qed

theorem corner_box_upside_down_witness:
  "ar_y1 (display_box 0 DISPLAY_SINGLE \<lparr>fx1 = 1 / 32, fy1 = 0, fx2 = 1 / 16, fy2 = 1 / 16\<rparr>
     \<lparr>ar_x1 = 0, ar_y1 = 0, ar_x2 = 0, ar_y2 = 0, alarm_type = 3\<rparr>) = 81"
  using corner_box_upside_down [of "\<lparr>fx1 = 1 / 32, fy1 = 0, fx2 = 1 / 16, fy2 = 1 / 16\<rparr>"
      "\<lparr>ar_x1 = 0, ar_y1 = 0, ar_x2 = 0, ar_y2 = 0, alarm_type = 3\<rparr>"]
  by simp

end
