(* ===== verification/Helmet.thy ===== *)
theory Helmet
  imports Geometry Detection
begin

section \<open>Safety helmets and speed zones (pd/pd.cpp)\<close>

text \<open>
  \<open>pd_SafetyHelmet_Parse\<close> gives each helmet the detector found to the person it fits best and recolours
  that person's class; \<open>bNeedAlarm\<close> then asks for the class.  The three index arrays have room for
  20 entries each and the score table has one cell when there is no person: where the code would write
  or read outside of them (undefined) the model answers \<open>None\<close>.  A division by zero happens only for a
  helmet or person box without area, whose score is 0 or not a number; neither passes the threshold, and the
  model has 0.  \<open>pd_SpeedZoneIsClassParse\<close> switches the speed limit when ten frames of the same sign
  came without one of the other sign between them.
\<close>

subsection \<open>Fitting a helmet to a person\<close>

text \<open>The first box is the helmet, the second the person.\<close>

definition pd_SafetyHelmet_AFactor :: "STAlgResult \<Rightarrow> STAlgResult \<Rightarrow> rat" where
  "pd_SafetyHelmet_AFactor h p =
     (let w = fsub (min (fX2 h) (fX2 p)) (max (fX1 h) (fX1 p));
          ht = fsub (min (fY2 h) (fY2 p)) (max (fY1 h) (fY1 p))
      in if w < 0 then 0 else if ht < 0 then 0
         else fdiv (fmul w ht) (fmul (fsub (fY2 h) (fY1 h)) (fsub (fX2 h) (fX1 h))))"

definition pd_SafetyHelmet_BFactor :: "STAlgResult \<Rightarrow> STAlgResult \<Rightarrow> rat" where
  "pd_SafetyHelmet_BFactor h p =
     (let ybias = fsub (fY1 h) (fY1 p); yheight = fsub (fY2 p) (fY1 p) in fsub 1 (fdiv \<bar>ybias\<bar> yheight))"

definition helmet_score :: "STAlgResult \<Rightarrow> STAlgResult \<Rightarrow> rat" where
  "helmet_score h p =
     (let fA = pd_SafetyHelmet_AFactor h p; fB = pd_SafetyHelmet_BFactor h p;
          (fA, fB) = (if fA \<le> 0 \<or> fB \<le> 0 then (0, 0) else (fA, fB))
      in fdiv (fadd fA fB) 2)"

definition helmet_threshold :: rat where "helmet_threshold = f32 (f64 (7 / 10))"

text \<open>The first column with the best score in row \<open>i\<close>.\<close>

fun best_column :: "(nat \<Rightarrow> nat \<Rightarrow> rat) \<Rightarrow> nat \<Rightarrow> nat list \<Rightarrow> rat \<times> nat \<Rightarrow> rat \<times> nat" where
  "best_column sc i [] b = b"
| "best_column sc i (j # js) (fBetterScore, s32BetterIdx) =
     best_column sc i js (if fBetterScore < sc i j then (sc i j, j) else (fBetterScore, s32BetterIdx))"

text \<open>The pairs (helmet, person) found, and the table with the columns of the persons found cleared.\<close>

fun helmet_match :: "nat \<Rightarrow> nat list \<Rightarrow> (nat \<Rightarrow> nat \<Rightarrow> rat) \<Rightarrow> (nat \<times> nat) list" where
  "helmet_match n [] sc = []"
| "helmet_match n (i # is) sc =
     (let (fBetterScore, j) = best_column sc i [0..<n] (sc i 0, 0)
      in if helmet_threshold < fBetterScore then (i, j) # helmet_match n is (\<lambda>i' j'. if j' = j then 0 else sc i' j')
         else helmet_match n is sc)"

datatype HAT_COLOR = HAT_RED | HAT_YELLOW | HAT_WHITE | HAT_BLUE | HAT_BUTT

definition hat_classes :: "EAlgObjectClass \<Rightarrow> (HAT_COLOR \<times> EAlgObjectClass) option" where
  "hat_classes c = (case c of E_HAT_RED \<Rightarrow> Some (HAT_RED, E_CLS_PERSON_HAT_RED)
     | E_HAT_YELLOW \<Rightarrow> Some (HAT_YELLOW, E_CLS_PERSON_HAT_YELLOW)
     | E_HAT_WHITE \<Rightarrow> Some (HAT_WHITE, E_CLS_PERSON_HAT_WHITE)
     | E_HAT_BLUE \<Rightarrow> Some (HAT_BLUE, E_CLS_PERSON_HAT_BLUE) | _ \<Rightarrow> None)"

definition indices :: "(EAlgObjectClass \<Rightarrow> bool) \<Rightarrow> STAlgResult list \<Rightarrow> nat list" where
  "indices P rs = filter (\<lambda>i. P (classes (rs ! i))) [0..<length rs]"

text \<open>\<open>PD_PERSON_HAT_S\<close>: the boxes of the persons (those wearing a helmet first) and, for a person with a
  helmet, its box and colour.\<close>

record PD_PERSON_HAT =
  persons :: "STAlgResult list"
  hats :: "(nat \<times> STAlgResult \<times> HAT_COLOR) list"

definition recolour :: "STAlgResult list \<Rightarrow> nat list \<Rightarrow> nat list \<Rightarrow> (nat \<times> nat) list \<Rightarrow> STAlgResult list" where
  "recolour rs s32Hat s32PersonHat ps =
     fold (\<lambda>(i, j) out. case hat_classes (classes (rs ! (s32Hat ! i))) of None \<Rightarrow> out
        | Some (_, c) \<Rightarrow> out[s32PersonHat ! j := (out ! (s32PersonHat ! j))\<lparr>classes := c\<rparr>]) ps rs"

definition pd_SafetyHelmet_Parse :: "STAlgResult list \<Rightarrow> (PD_PERSON_HAT \<times> STAlgResult list) option" where
  "pd_SafetyHelmet_Parse rs =
     (let s32PersonNoHelmet = indices (\<lambda>c. c = E_CLS_PERSON) rs;
          s32PersonHat = indices (\<lambda>c. c = E_CLS_PERSON_HAT) rs;
          s32Hat = indices (\<lambda>c. hat_classes c \<noteq> None) rs
      in if 20 < length s32PersonNoHelmet \<or> 20 < length s32PersonHat \<or> 20 < length s32Hat \<or>
            s32PersonHat = [] \<and> s32Hat \<noteq> [] then None
         else let ps = helmet_match (length s32PersonHat) [0..<length s32Hat]
                 (\<lambda>i j. helmet_score (rs ! (s32Hat ! i)) (rs ! (s32PersonHat ! j)))
           in Some (\<lparr>persons = map (\<lambda>k. rs ! k) (s32PersonHat @ s32PersonNoHelmet),
                  hats = map (\<lambda>(i, j). let h = rs ! (s32Hat ! i) in
                     (j, h, case hat_classes (classes h) of None \<Rightarrow> HAT_BUTT | Some (col, _) \<Rightarrow> col)) ps\<rparr>,
                recolour rs s32Hat s32PersonHat ps))"

text \<open>The helmets that need no alarm, in a configuration for the helmet model (\<open>E_PDS_SH\<close>).\<close>

record helmet_cfg =
  enPdsModel_SH :: bool
  bSkipRedHelmet :: bool
  bSkipYellowHelmet :: bool
  bSkipWhiteHelmet :: bool
  bSkipBlueHelmet :: bool

definition bNeedAlarm :: "helmet_cfg \<Rightarrow> EAlgObjectClass \<Rightarrow> bool" where
  "bNeedAlarm p c =
     (if \<not> enPdsModel_SH p then True
      else case c of E_CLS_PERSON_HAT_RED \<Rightarrow> \<not> bSkipRedHelmet p | E_CLS_PERSON_HAT_YELLOW \<Rightarrow> \<not> bSkipYellowHelmet p
        | E_CLS_PERSON_HAT_WHITE \<Rightarrow> \<not> bSkipWhiteHelmet p | E_CLS_PERSON_HAT_BLUE \<Rightarrow> \<not> bSkipBlueHelmet p | _ \<Rightarrow> True)"

subsection \<open>Speed zones\<close>

record speed_zone =
  sz_s32Cnt :: nat
  eLastClass :: EAlgObjectClass
  bLimit :: bool

definition speed_sign :: "bool \<Rightarrow> bool \<Rightarrow> EAlgObjectClass option" where
  "speed_sign bSpeedZone bEndSpeedZone =
     (if bSpeedZone then Some E_SPEED_ZONE else if bEndSpeedZone then Some E_END_SPEED_ZONE else None)"

text \<open>One frame; the last component is what is given to \<open>ALG_AlarmOut_Switch\<close>.  \<open>pd_SpeedZoneLogoPost\<close>
  returns at once.\<close>

definition pd_SpeedZoneIsClassParse :: "bool \<Rightarrow> bool \<Rightarrow> speed_zone \<Rightarrow> bool \<times> speed_zone \<times> bool option" where
  "pd_SpeedZoneIsClassParse bSpeedZone bEndSpeedZone s =
     (case speed_sign bSpeedZone bEndSpeedZone of None \<Rightarrow> (False, s, None)
      | Some eNowClass \<Rightarrow>
          if sz_s32Cnt s = 0 then (True, s\<lparr>eLastClass := eNowClass, sz_s32Cnt := 1\<rparr>, None)
          else if eLastClass s \<noteq> eNowClass then (True, s\<lparr>sz_s32Cnt := 0, eLastClass := eNowClass\<rparr>, None)
          else if sz_s32Cnt s < 9 then (True, s\<lparr>sz_s32Cnt := sz_s32Cnt s + 1\<rparr>, None)
          else let l = (eNowClass = E_SPEED_ZONE) in (True, s\<lparr>sz_s32Cnt := 0, bLimit := l\<rparr>, Some l))"

definition pd_SpeedZoneLogoPost :: "bool \<Rightarrow> sv_ret" where
  "pd_SpeedZoneLogoPost l = SV_SUCCESS"

definition pd_SpeedZoneInit :: "speed_zone \<Rightarrow> sv_ret \<times> speed_zone" where
  "pd_SpeedZoneInit s = (SV_SUCCESS, s)"

subsection \<open>Helmets: lemmas\<close>

lemma helmet_threshold_pos: "0 < helmet_threshold"
  unfolding helmet_threshold_def by code_simp

lemma best_column_is_best:
  "best_column sc i js (fb, b) = (f', b') \<Longrightarrow> fb = sc i b \<Longrightarrow>
   f' = sc i b' \<and> (b' = b \<or> b' \<in> set js) \<and> fb \<le> f' \<and> (\<forall>j\<in>set js. sc i j \<le> f')"
proof (induction js arbitrary: fb b)
  case (Cons j js)
  show ?case
  proof (cases "fb < sc i j")
    case True
    with Cons.IH [of "sc i j" j] Cons.prems show ?thesis by auto
  next
    case False
    with Cons.IH [of fb b] Cons.prems show ?thesis by auto
  qed
qed simp

text \<open>Clearing a column removes it from the candidates, as the threshold is positive.\<close>

lemma helmet_match_sound:
  assumes "0 < n" and "(i, j) \<in> set (helmet_match n is sc)"
  shows "i \<in> set is \<and> j < n \<and> helmet_threshold < sc i j"
  using assms
proof (induction "is" arbitrary: sc)
  case (Cons k ks)
  obtain f b where b: "best_column sc k [0..<n] (sc k 0, 0) = (f, b)" by fastforce
  with best_column_is_best [OF b] \<open>0 < n\<close> have fb: "f = sc k b" "b < n" by auto
  let ?sc = "\<lambda>i' j'. if j' = b then 0 else sc i' j'"
  consider "(i, j) = (k, b)" "helmet_threshold < f" | "(i, j) \<in> set (helmet_match n ks ?sc)" | "(i, j) \<in> set (helmet_match n ks sc)"
    using Cons.prems(2) b by (auto split: if_splits)
  then show ?case
  proof cases
    case 2
    with Cons.IH [OF \<open>0 < n\<close> 2] helmet_threshold_pos show ?thesis by (auto split: if_splits)
  next
    case 3
    with Cons.IH [OF \<open>0 < n\<close> 3] show ?thesis by auto
  qed (use fb in simp)
qed simp

lemma helmet_match_distinct: "0 < n \<Longrightarrow> distinct (map snd (helmet_match n is sc))"
proof (induction "is" arbitrary: sc)
  case (Cons k ks)
  obtain f b where b: "best_column sc k [0..<n] (sc k 0, 0) = (f, b)" by fastforce
  let ?sc = "\<lambda>i' j'. if j' = b then 0 else sc i' j'"
  have "b \<notin> snd ` set (helmet_match n ks ?sc)"
    using helmet_match_sound [OF \<open>0 < n\<close>, of _ b ks ?sc] helmet_threshold_pos by auto
  with Cons.IH [OF \<open>0 < n\<close>] b show ?case by simp
qed simp

lemma distinct_indices: "distinct (indices P rs)"
  by (simp add: indices_def)

lemma indices_subset: "set (indices P rs) \<subseteq> {..<length rs}"
  by (auto simp: indices_def)

lemma indices_less: "j < length (indices P rs) \<Longrightarrow> indices P rs ! j < length rs \<and> P (classes (rs ! (indices P rs ! j)))"
  using nth_mem [of j "indices P rs"] by (auto simp: indices_def)

lemma recolour_snoc: "recolour rs hs qs (ps @ [(i, j)]) =
    (case hat_classes (classes (rs ! (hs ! i))) of None \<Rightarrow> recolour rs hs qs ps
     | Some (_, c) \<Rightarrow> (recolour rs hs qs ps)[qs ! j := (recolour rs hs qs ps ! (qs ! j))\<lparr>classes := c\<rparr>])"
  unfolding recolour_def by simp

lemma length_recolour [simp]: "length (recolour rs hs qs ps) = length rs"
  by (induction ps rule: rev_induct) (auto simp: recolour_snoc split: option.split simp: recolour_def [of rs hs qs "[]"])

lemma recolour_nth:
  assumes "distinct qs" "set qs \<subseteq> {..<length rs}" "\<forall>(i, j)\<in>set ps. j < length qs" "distinct (map snd ps)" "k < length rs"
  shows "recolour rs hs qs ps ! k =
    (case find (\<lambda>(i, j). qs ! j = k) ps of None \<Rightarrow> rs ! k
     | Some (i, j) \<Rightarrow> (case hat_classes (classes (rs ! (hs ! i))) of None \<Rightarrow> rs ! k | Some (_, c) \<Rightarrow> (rs ! k)\<lparr>classes := c\<rparr>))"
  using assms(3,4)
proof (induction ps rule: rev_induct)
  case Nil
  then show ?case by (simp add: recolour_def)
next
  case (snoc p ps)
  obtain i j where p: "p = (i, j)" by fastforce
  have find: "find P (ps @ [p]) = (case find P ps of None \<Rightarrow> if P p then Some p else None | Some q \<Rightarrow> Some q)" for P
    by (induction ps) auto
  have j: "j < length qs" "j \<notin> snd ` set ps" using snoc.prems p by auto
  have "qs ! j' \<noteq> qs ! j" if "(i', j') \<in> set ps" for i' j'
    using that j snoc.prems(1) assms(1) by (force simp: nth_eq_iff_index_eq)
  then have none: "find (\<lambda>(i, j'). qs ! j' = qs ! j) ps = None"
    by (auto simp: find_None_iff)
  have IH: "recolour rs hs qs ps ! k = (case find (\<lambda>(i, j). qs ! j = k) ps of None \<Rightarrow> rs ! k
     | Some (i, j) \<Rightarrow> (case hat_classes (classes (rs ! (hs ! i))) of None \<Rightarrow> rs ! k | Some (_, c) \<Rightarrow> (rs ! k)\<lparr>classes := c\<rparr>))"
    using snoc by auto
  show ?case
  proof (cases "qs ! j = k")
    case True
    with none IH have "recolour rs hs qs ps ! k = rs ! k" "find (\<lambda>(i, j). qs ! j = k) ps = None" by simp_all
    then show ?thesis using True assms(5) unfolding p recolour_snoc find [unfolded p]
      by (auto split: option.split)
  next
    case False
    then show ?thesis using IH unfolding p recolour_snoc find [unfolded p]
      by (auto split: option.split)
  qed
qed

subsection \<open>Speed zones: runs of frames\<close>

fun speed_run :: "(bool \<times> bool) list \<Rightarrow> speed_zone \<Rightarrow> speed_zone" where
  "speed_run [] s = s"
| "speed_run ((a, b) # fs) s = speed_run fs (fst (snd (pd_SpeedZoneIsClassParse a b s)))"

definition signs :: "(bool \<times> bool) list \<Rightarrow> EAlgObjectClass list" where
  "signs fs = List.map_filter (\<lambda>(a, b). speed_sign a b) fs"

lemma signs_simps [simp]: "signs [] = []" "signs (xs @ ys) = signs xs @ signs ys"
  "signs [(a, b)] = (case speed_sign a b of None \<Rightarrow> [] | Some c \<Rightarrow> [c])"
  by (simp_all add: signs_def map_filter_def split: option.split)

lemma speed_run_snoc: "speed_run (fs @ [(a, b)]) s = fst (snd (pd_SpeedZoneIsClassParse a b (speed_run fs s)))"
  by (induction fs s rule: speed_run.induct) simp_all

text \<open>The counter counts the equal signs seen last.\<close>

lemma speed_run_inv:
  assumes "sz_s32Cnt s0 = 0"
  shows "sz_s32Cnt (speed_run fs s0) \<le> 9 \<and>
    (\<exists>xs. signs fs = xs @ replicate (sz_s32Cnt (speed_run fs s0)) (eLastClass (speed_run fs s0)))"
proof (induction fs rule: rev_induct)
  case Nil
  then show ?case using assms by simp
next
  case (snoc f fs)
  obtain a b where f: "f = (a, b)" by fastforce
  from snoc obtain xs where cnt: "sz_s32Cnt (speed_run fs s0) \<le> 9"
    and xs: "signs fs = xs @ replicate (sz_s32Cnt (speed_run fs s0)) (eLastClass (speed_run fs s0))" by blast
  show ?case
  proof (cases "speed_sign a b")
    case None
    then show ?thesis using cnt xs unfolding f speed_run_snoc by (auto simp: pd_SpeedZoneIsClassParse_def)
  next
    case (Some c)
    then show ?thesis using cnt xs unfolding f speed_run_snoc
      by (auto simp: pd_SpeedZoneIsClassParse_def Let_def replicate_append_same)
  qed
qed

lemma speed_sign_values: "speed_sign a b = Some c \<Longrightarrow> c = E_SPEED_ZONE \<or> c = E_END_SPEED_ZONE"
  by (auto simp: speed_sign_def split: if_splits)

text \<open>From a counter \<open>k\<close>, the sign of the counted frames switches after \<open>10 - k\<close> further ones.\<close>

lemma speed_run_switches:
  assumes "speed_sign a b = Some c" and "sz_s32Cnt s \<le> 9" and "sz_s32Cnt s = 0 \<or> eLastClass s = c"
  shows "bLimit (speed_run (replicate (10 - sz_s32Cnt s) (a, b)) s) = (c = E_SPEED_ZONE) \<and>
    sz_s32Cnt (speed_run (replicate (10 - sz_s32Cnt s) (a, b)) s) = 0"
  using assms(2,3)
proof (induction "9 - sz_s32Cnt s" arbitrary: s)
  case 0
  then have "10 - sz_s32Cnt s = Suc 0" "sz_s32Cnt s \<noteq> 0" by auto
  then show ?case using 0 assms(1) by (simp add: pd_SpeedZoneIsClassParse_def Let_def)
next
  case (Suc n)
  let ?s = "fst (snd (pd_SpeedZoneIsClassParse a b s))"
  have n: "10 - sz_s32Cnt s = Suc (10 - Suc (sz_s32Cnt s))" using Suc(2) by simp
  have s: "sz_s32Cnt ?s = Suc (sz_s32Cnt s)" "eLastClass ?s = c"
    using Suc(2-4) assms(1) by (auto simp: pd_SpeedZoneIsClassParse_def)
  from Suc(1) [of ?s] Suc(2-3) s show ?case by (simp add: n)
qed

subsection \<open>Properties\<close>


definition sample_person :: "EAlgObjectClass \<Rightarrow> rat \<Rightarrow> rat \<Rightarrow> STAlgResult" where
  "sample_person c y1 y2 = \<lparr>classes = c, fX1 = 1 / 4, fY1 = y1, fX2 = 1 / 2, fY2 = y2, fConfidence = 1\<rparr>"

definition helmet_scene :: "STAlgResult list" where
  "helmet_scene = [sample_person E_CLS_PERSON_HAT (1 / 4) 1, sample_person E_HAT_RED (1 / 4) (1 / 2)]"

lemma helmet_scene_score: "helmet_score (sample_person E_HAT_RED (1 / 4) (1 / 2)) (sample_person E_CLS_PERSON_HAT (1 / 4) 1) = 1"
proof -
  have "f32 (1 / 16) = 1 / 16" by code_simp
  with f32_of_int [of 1] f32_of_int [of 2] show ?thesis
    by (simp add: helmet_score_def pd_SafetyHelmet_AFactor_def pd_SafetyHelmet_BFactor_def sample_person_def
        quarters [unfolded is_f32_def])
qed

lemma helmet_scene_parse: "pd_SafetyHelmet_Parse helmet_scene =
   Some (\<lparr>persons = [helmet_scene ! 0], hats = [(0, helmet_scene ! 1, HAT_RED)]\<rparr>,
     [sample_person E_CLS_PERSON_HAT_RED (1 / 4) 1, helmet_scene ! 1])"
proof -
  have c: "classes (sample_person c y1 y2) = c" "(sample_person c y1 y2)\<lparr>classes := c'\<rparr> = sample_person c' y1 y2"
    for c c' y1 y2 by (simp_all add: sample_person_def)
  have t: "helmet_threshold < 1"
    using f32_le [of "3 / 4" "f64 (7 / 10)"] f64_le [of "3 / 4" "7 / 10"] is_f32_is_f64 [of "3 / 4"]
    by (simp add: helmet_threshold_def)
  have i: "indices P helmet_scene = (if P E_CLS_PERSON_HAT then [0] else []) @ (if P E_HAT_RED then [1] else [])" for P
    by (simp add: indices_def helmet_scene_def c upt_rec)
  have s: "helmet_scene ! 0 = sample_person E_CLS_PERSON_HAT (1 / 4) 1"
    "helmet_scene ! Suc 0 = sample_person E_HAT_RED (1 / 4) (1 / 2)"
    by (simp_all add: helmet_scene_def)
  show ?thesis
    unfolding pd_SafetyHelmet_Parse_def i
    by (simp add: hat_classes_def s helmet_scene_score t recolour_def c helmet_scene_def)
qed


text \<open>C21: the speed limit is switched to a sign only when the last ten frames with a sign all showed that
  sign, and eleven such frames in a row switch to it for certain.\<close>

theorem speed_zone_debounced:
  assumes "sz_s32Cnt s0 = 0"
  shows "(\<forall>r s' l. pd_SpeedZoneIsClassParse a b (speed_run fs s0) = (r, s', Some l) \<longrightarrow>
        (\<exists>xs. signs (fs @ [(a, b)]) = xs @ replicate 10 (if l then E_SPEED_ZONE else E_END_SPEED_ZONE))) \<and>
    (\<forall>c. speed_sign a b = Some c \<longrightarrow>
        (\<exists>k\<le>11. sz_s32Cnt (speed_run (fs @ replicate k (a, b)) s0) = 0 \<and> 0 < k \<and>
           bLimit (speed_run (fs @ replicate k (a, b)) s0) = (c = E_SPEED_ZONE)))"
proof (intro conjI allI impI)
  let ?s = "speed_run fs s0"
  from speed_run_inv [OF assms, of fs] obtain xs where cnt: "sz_s32Cnt ?s \<le> 9"
    and xs: "signs fs = xs @ replicate (sz_s32Cnt ?s) (eLastClass ?s)" by blast
  show "\<exists>xs. signs (fs @ [(a, b)]) = xs @ replicate 10 (if l then E_SPEED_ZONE else E_END_SPEED_ZONE)"
    if step: "pd_SpeedZoneIsClassParse a b ?s = (r, s', Some l)" for r s' l
  proof -
    from step obtain c where c: "speed_sign a b = Some c" "eLastClass ?s = c" "9 \<le> sz_s32Cnt ?s" "l = (c = E_SPEED_ZONE)"
      by (auto simp: pd_SpeedZoneIsClassParse_def Let_def split: option.splits if_splits)
    with cnt xs have "signs (fs @ [(a, b)]) = xs @ replicate 9 c @ [c]" by simp
    moreover have "replicate 9 c @ [c] = replicate 10 c" by (simp add: numeral_eq_Suc)
    ultimately show ?thesis using speed_sign_values [OF c(1)] c(4) by auto
  qed
  have app: "speed_run (us @ vs) s = speed_run vs (speed_run us s)" for us vs s
    by (induction us s rule: speed_run.induct) simp_all
  show "\<exists>k\<le>11. sz_s32Cnt (speed_run (fs @ replicate k (a, b)) s0) = 0 \<and> 0 < k \<and>
           bLimit (speed_run (fs @ replicate k (a, b)) s0) = (c = E_SPEED_ZONE)"
    if c: "speed_sign a b = Some c" for c
  proof (cases "sz_s32Cnt ?s = 0 \<or> eLastClass ?s = c")
    case True
    with speed_run_switches [OF c cnt True] cnt show ?thesis
      by (intro exI [of _ "10 - sz_s32Cnt ?s"]) (simp add: app)
  next
    case False
    let ?t = "fst (snd (pd_SpeedZoneIsClassParse a b ?s))"
    have t: "sz_s32Cnt ?t = 0" using False c by (simp add: pd_SpeedZoneIsClassParse_def)
    have "speed_run (replicate (Suc 10) (a, b)) ?s = speed_run (replicate 10 (a, b)) ?t"
      by (simp only: replicate_Suc speed_run.simps)
    with speed_run_switches [OF c, of ?t] t show ?thesis
      by (intro exI [of _ "Suc 10"]) (simp add: app del: replicate_Suc)
  qed
qed

theorem speed_zone_debounced_witness:
  "\<exists>k\<le>11. bLimit (speed_run ([(False, True)] @ replicate k (True, False))
     \<lparr>sz_s32Cnt = 0, eLastClass = E_CLS_RESERVE1, bLimit = False\<rparr>)"
  using speed_zone_debounced [of "\<lparr>sz_s32Cnt = 0, eLastClass = E_CLS_RESERVE1, bLimit = False\<rparr>" True False "[(False, True)]"]
  by (auto simp: speed_sign_def)

end
