(* ===== verification/Anti_Shake.thy ===== *)
theory Anti_Shake
  imports Geometry Detection
begin

section \<open>Steady boxes (pd/pd.cpp)\<close>

text \<open>
  \<open>pd_RectAntiShakeFilter\<close> replaces a new box by a box of the frame before when both their corners moved
  less than a fraction of the box's width and height; each old box is used once.  \<open>sqrtf\<close> is the correctly
  rounded square root of the C library and \<open>powf (x, 2)\<close> the rounded product.
\<close>

subsection \<open>The single-precision square root\<close>

fun isqrt :: "nat \<Rightarrow> int \<Rightarrow> int \<Rightarrow> int" where
  "isqrt 0 n r = r"
| "isqrt (Suc k) n r = (let t = r + 2 ^ k in if t * t \<le> n then isqrt k n t else isqrt k n r)"

text \<open>\<open>n\<close> is the integer part of the root in units of the last place; 24 bits hold it.  A tie cannot
  occur: the square of a half-way point has more bits than a \<open>float\<close>.\<close>

definition sqrtf :: "rat \<Rightarrow> rat" where
  "sqrtf x = (if x \<le> 0 then 0
     else let e = ilog2 x div 2 - 23; y = x / 2 powi (2 * e); n = isqrt 24 \<lfloor>y\<rfloor> 0
       in of_int (if (of_int n + 1 / 2) * (of_int n + 1 / 2) < y then n + 1 else n) * 2 powi e)"

lemma isqrt_root:
  "0 \<le> r \<Longrightarrow> r * r \<le> n \<Longrightarrow> n < (r + 2 ^ k) * (r + 2 ^ k) \<Longrightarrow>
   0 \<le> isqrt k n r \<and> isqrt k n r * isqrt k n r \<le> n \<and> n < (isqrt k n r + 1) * (isqrt k n r + 1)"
proof (induction k arbitrary: r)
  case (Suc k)
  show ?case
  proof (cases "(r + 2 ^ k) * (r + 2 ^ k) \<le> n")
    case True
    with Suc.IH [of "r + 2 ^ k"] Suc.prems show ?thesis by (simp add: Let_def algebra_simps)
  next
    case False
    with Suc.IH [of r] Suc.prems show ?thesis by (simp add: Let_def)
  qed
qed simp

lemma sqrtf_0 [simp]: "sqrtf 0 = 0"
  by (simp add: sqrtf_def)

text \<open>The result is the nearest multiple of its unit to the root.\<close>

lemma sqrtf_nearest:
  assumes "0 < x"
  defines "u \<equiv> 2 powi (ilog2 x div 2 - 23)"
  shows "\<exists>m. sqrtf x = of_int m * u \<and> 0 \<le> m \<and> (of_int m - 1 / 2) * (of_int m - 1 / 2) * (u * u) \<le> x \<and>
     x \<le> (of_int m + 1 / 2) * (of_int m + 1 / 2) * (u * u)"
proof -
  define e where "e = ilog2 x div 2 - 23"
  define y where "y = x / 2 powi (2 * e)"
  define n where "n = isqrt 24 \<lfloor>y\<rfloor> 0"
  have u: "u = 2 powi e" "0 < u" by (simp_all add: u_def e_def)
  have uu: "2 powi (2 * e) = u * u" using power_int_add [of "2 :: rat" e e] by (simp add: u(1))
  have x: "x = y * (u * u)" using u(2) by (simp add: y_def uu)
  have pow: "2 powi (2 * e + int k) = 2 powi (2 * e) * (2 ^ k :: rat)" for k by (simp add: power_int_add)
  have U: "(0::rat) < 2 powi (2 * e)" by simp
  note b = ilog2_bounds [OF assms(1)]
  have "2 powi (2 * e) \<le> (2 powi ilog2 x :: rat)" unfolding e_def by (intro power_int_increasing) auto
  with b U have y1: "1 \<le> y" by (simp add: y_def le_divide_eq)
  have "(2 powi (ilog2 x + 1) :: rat) \<le> 2 powi (2 * e + int 48)" unfolding e_def by (intro power_int_increasing) auto
  with b have "x < 2 powi (2 * e) * 2 ^ 48" unfolding pow by linarith
  with U have "y < 2 ^ 48" by (simp only: y_def divide_less_eq mult.commute) simp
  then have "\<lfloor>y\<rfloor> < 2 ^ 24 * 2 ^ 24" by (simp add: floor_less_iff)
  moreover have "0 \<le> y" using y1 by linarith
  ultimately have n: "0 \<le> n" "n * n \<le> \<lfloor>y\<rfloor>" "\<lfloor>y\<rfloor> < (n + 1) * (n + 1)"
    using isqrt_root [of 0 "\<lfloor>y\<rfloor>" 24] by (simp_all add: n_def)
  have lo: "of_int n * of_int n \<le> y"
    using n(2) by (metis le_floor_iff of_int_mult)
  have hi: "y < (of_int n + 1) * (of_int n + 1)"
    using n(3) by (simp add: floor_less_iff)
  define m where "m = (if (of_int n + 1 / 2) * (of_int n + 1 / 2) < y then n + 1 else n)"
  have "sqrtf x = of_int m * u"
    using assms(1) unfolding sqrtf_def Let_def m_def n_def y_def e_def u_def by simp
  moreover have "(of_int m - 1 / 2) * (of_int m - 1 / 2) \<le> y \<and> y \<le> (of_int m + 1 / 2) * (of_int m + 1 / 2)"
  proof (cases "(of_int n + 1 / 2) * (of_int n + 1 / 2) < y")
    case True
    then have m: "of_int m = (of_int n + 1 :: rat)" by (simp add: m_def)
    have "(of_int n + 1) * (of_int n + 1) \<le> (of_int n + 1 + 1 / 2) * (of_int n + 1 + (1 / 2 :: rat))"
      using n(1) by (intro mult_mono) auto
    with True hi show ?thesis unfolding m by (simp add: algebra_simps)
  next
    case False
    then have m: "of_int m = (of_int n :: rat)" by (simp add: m_def)
    have "n \<noteq> 0" using hi y1 by auto
    then have "(1 :: rat) \<le> of_int n" using n(1) by simp
    then have "(of_int n - 1 / 2) * (of_int n - 1 / 2) \<le> of_int n * (of_int n :: rat)"
      by (simp add: algebra_simps)
    with False lo show ?thesis unfolding m by auto
  qed
  ultimately show ?thesis
    using u(2) n(1) unfolding x by (intro exI [of _ m]) (auto simp: m_def intro!: mult_right_mono)
qed

subsection \<open>The filter\<close>

definition moved :: "rat \<Rightarrow> rat \<Rightarrow> rat \<Rightarrow> rat \<Rightarrow> rat" where
  "moved x y x' y' = sqrtf (fadd (fmul (fsub x' x) (fsub x' x)) (fmul (fsub y' y) (fsub y' y)))"

definition shake_match :: "int \<Rightarrow> int \<Rightarrow> rat \<Rightarrow> rat \<Rightarrow> STAlgResult \<Rightarrow> STAlgResult \<Rightarrow> bool" where
  "shake_match w h fThresholdX fThresholdY new old =
     (let W = f32 (of_int w); H = f32 (of_int h);
          nx1 = fmul (fX1 new) W; ny1 = fmul (fY1 new) H; nx2 = fmul (fX2 new) W; ny2 = fmul (fY2 new) H;
          ox1 = fmul (fX1 old) W; oy1 = fmul (fY1 old) H; ox2 = fmul (fX2 old) W; oy2 = fmul (fY2 old) H;
          fThrDistWidth = fmul fThresholdX (fsub nx2 nx1); fThrDistHeight = fmul fThresholdY (fsub ny2 ny1)
      in moved nx1 ny1 ox1 oy1 < fThrDistWidth \<and> moved nx2 ny2 ox2 oy2 < fThrDistHeight)"

text \<open>The first old box that matches, and the others in order.\<close>

fun take_match :: "('a \<Rightarrow> bool) \<Rightarrow> 'a list \<Rightarrow> ('a \<times> 'a list) option" where
  "take_match P [] = None"
| "take_match P (r # rs) = (if P r then Some (r, rs) else map_option (\<lambda>(x, ys). (x, r # ys)) (take_match P rs))"

definition move_to :: "STAlgResult \<Rightarrow> STAlgResult \<Rightarrow> STAlgResult" where
  "move_to old new = new\<lparr>fX1 := fX1 old, fY1 := fY1 old, fX2 := fX2 old, fY2 := fY2 old\<rparr>"

fun shake_all :: "(STAlgResult \<Rightarrow> STAlgResult \<Rightarrow> bool) \<Rightarrow> STAlgResult list \<Rightarrow> STAlgResult list \<Rightarrow> STAlgResult list" where
  "shake_all M [] old = []"
| "shake_all M (n # ns) old =
     (case take_match (M n) old of None \<Rightarrow> n # shake_all M ns old
      | Some (r, old') \<Rightarrow> move_to r n # shake_all M ns old')"

text \<open>\<open>astOldResult\<close> has four channels; the channel number is unsigned.\<close>

definition pd_RectAntiShakeFilter :: "int \<Rightarrow> int \<Rightarrow> nat \<Rightarrow> rat \<Rightarrow> rat \<Rightarrow> STAlgResult list \<Rightarrow> STAlgResult list list \<Rightarrow>
    STAlgResult list \<times> STAlgResult list list" where
  "pd_RectAntiShakeFilter w h u32Chn fThresholdX fThresholdY new astOldResult =
     (if 4 \<le> u32Chn then (new, astOldResult)
      else let new' = shake_all (shake_match w h fThresholdX fThresholdY) new (astOldResult ! u32Chn)
        in (new', astOldResult[u32Chn := new']))"

text \<open>Only the coordinates matter for a match.\<close>

definition coords :: "STAlgResult \<Rightarrow> rat \<times> rat \<times> rat \<times> rat" where
  "coords r = (fX1 r, fY1 r, fX2 r, fY2 r)"

lemma coords_move_to [simp]: "coords (move_to r n) = coords r" "classes (move_to r n) = classes n"
  by (simp_all add: coords_def move_to_def)

lemma shake_match_coords: "coords r = coords r' \<Longrightarrow> shake_match w h a b n r = shake_match w h a b n r'"
  by (simp add: coords_def shake_match_def)

lemma length_shake_all [simp]: "length (shake_all M ns old) = length ns"
  by (induction M ns old rule: shake_all.induct) (auto split: option.split)

lemma classes_shake_all [simp]: "map classes (shake_all M ns old) = map classes ns"
  by (induction M ns old rule: shake_all.induct) (auto split: option.split)

lemma shake_all_frozen:
  assumes "length ns = length old" and "\<forall>i<length ns. M (ns ! i) (old ! i)"
  shows "map coords (shake_all M ns old) = map coords old"
  using assms
proof (induction ns arbitrary: old)
  case (Cons n ns)
  then obtain r rs where old: "old = r # rs" by (cases old) auto
  from Cons.prems old have "M n r" by force
  moreover have "map coords (shake_all M ns rs) = map coords rs"
    using Cons.prems by (intro Cons.IH) (auto simp: old)
  ultimately show ?case by (simp add: old)
qed simp

text \<open>The filter on a sequence of frames: what it shows and the state it ends in.\<close>

fun filter_run :: "('b list \<Rightarrow> 's \<Rightarrow> 'b list \<times> 's) \<Rightarrow> 'b list list \<Rightarrow> 's \<Rightarrow> 'b list list \<times> 's" where
  "filter_run fil [] s = ([], s)"
| "filter_run fil (f # fs) s = (let (out, s) = fil f s; (outs, s) = filter_run fil fs s in (out # outs, s))"

subsection \<open>What a steady filter promises\<close>

text \<open>The contract the filters of the detection modules share: the frame shown is the one stored for the next comparison, a
  frame that matches the stored one box by box is shown at the stored places, and a match depends on the place of the
  stored box only.\<close>

locale steady_filter =
  fixes fil :: "'b list \<Rightarrow> 's \<Rightarrow> 'b list \<times> 's" and stored :: "'s \<Rightarrow> 'b list" and ok :: "'s \<Rightarrow> bool"
    and M :: "'b \<Rightarrow> 'b \<Rightarrow> bool" and place_of :: "'b \<Rightarrow> 'p"
  assumes stores: "ok s \<Longrightarrow> fil ns s = (out, s') \<Longrightarrow> ok s' \<and> stored s' = out"
    and steady: "ok s \<Longrightarrow> length ns = length (stored s) \<Longrightarrow> (\<forall>i<length ns. M (ns ! i) (stored s ! i)) \<Longrightarrow>
      fil ns s = (out, s') \<Longrightarrow> map place_of out = map place_of (stored s)"
    and match_place: "place_of r = place_of r' \<Longrightarrow> M n r = M n r'"
begin

lemma freezes:
  "ok s \<Longrightarrow> (\<forall>f\<in>set fs. length f = length (stored s) \<and> (\<forall>i<length f. M (f ! i) (stored s ! i))) \<Longrightarrow>
    ok (snd (filter_run fil fs s)) \<and> (\<forall>out\<in>set (fst (filter_run fil fs s)). map place_of out = map place_of (stored s))"
proof (induction fs arbitrary: s)
  case (Cons f fs)
  obtain out s1 where f: "fil f s = (out, s1)" by fastforce
  have st: "ok s1" "stored s1 = out" using stores [OF Cons.prems(1) f] by simp_all
  have pl: "map place_of out = map place_of (stored s)" using steady [OF Cons.prems(1) _ _ f] Cons.prems(2) by simp
  then have len: "length out = length (stored s)" by (metis length_map)
  have "place_of (out ! i) = place_of (stored s ! i)" if "i < length (stored s)" for i
    using pl len that by (metis nth_map)
  then have "M n (out ! i) = M n (stored s ! i)" if "i < length (stored s)" for n i
    using that by (intro match_place) simp
  then have "\<forall>f\<in>set fs. length f = length (stored s1) \<and> (\<forall>i<length f. M (f ! i) (stored s1 ! i))"
    using Cons.prems(2) unfolding st(2) len by simp
  note IH = Cons.IH [OF st(1) this, unfolded st(2) pl]
  have "filter_run fil (f # fs) s = (out # fst (filter_run fil fs s1), snd (filter_run fil fs s1))"
    by (simp add: f case_prod_unfold Let_def)
  with IH pl show ?case by simp
qed simp

end

lemma take_match_others: "take_match P rs = Some (r, rs') \<Longrightarrow> r \<in> set rs \<and> set rs' \<subseteq> set rs"
  by (induction rs arbitrary: r rs') (auto split: if_splits option.splits)

interpretation pd_steady: steady_filter "pd_RectAntiShakeFilter w h (min c 3) a b" "\<lambda>old. old ! min c 3" "\<lambda>old. length old = 4"
    "shake_match w h a b" coords
  for w h c a b
proof unfold_locales
  fix s ns out s'
  assume "length s = 4" "pd_RectAntiShakeFilter w h (min c 3) a b ns s = (out, s')"
  then show "length s' = 4 \<and> s' ! min c 3 = out" by (auto simp: pd_RectAntiShakeFilter_def Let_def)
next
  fix s ns out s'
  assume "length s = 4" "length ns = length (s ! min c 3)" "\<forall>i<length ns. shake_match w h a b (ns ! i) (s ! min c 3 ! i)"
    "pd_RectAntiShakeFilter w h (min c 3) a b ns s = (out, s')"
  then show "map coords out = map coords (s ! min c 3)"
    using shake_all_frozen [of ns "s ! min c 3"] by (auto simp: pd_RectAntiShakeFilter_def Let_def)
qed (rule shake_match_coords)

lemma pd_filter_classes:
  "c < 4 \<Longrightarrow> length old = 4 \<Longrightarrow> map (map classes) (fst (filter_run (pd_RectAntiShakeFilter w h c a b) fs old)) = map (map classes) fs \<and>
    length (snd (filter_run (pd_RectAntiShakeFilter w h c a b) fs old)) = 4 \<and>
    (\<forall>d<4. d \<noteq> c \<longrightarrow> snd (filter_run (pd_RectAntiShakeFilter w h c a b) fs old) ! d = old ! d)"
proof (induction fs arbitrary: old)
  case (Cons f fs)
  let ?out = "shake_all (shake_match w h a b) f (old ! c)"
  have "pd_RectAntiShakeFilter w h c a b f old = (?out, old[c := ?out])"
    using Cons.prems(1) by (simp add: pd_RectAntiShakeFilter_def Let_def)
  then show ?case using Cons.IH [of "old[c := ?out]"] Cons.prems by (auto split: prod.splits)
qed simp

subsection \<open>Properties\<close>

text \<open>C22: boxes that stay near their place are shown without any movement: as long as every frame reports the
  same number of objects and each box matches the box of the same object in the reference frame, every frame
  shows exactly the boxes of the reference frame, however long the jitter goes on, and the classes are those
  reported; the other channels are not touched.\<close>

theorem anti_shake_freezes:
  assumes "c < 4" and "length old = 4"
    and "\<forall>f\<in>set fs. length f = length (old ! c) \<and> (\<forall>i<length f. shake_match w h a b (f ! i) (old ! c ! i))"
  shows "let (outs, old') = filter_run (pd_RectAntiShakeFilter w h c a b) fs old
    in (\<forall>out\<in>set outs. map coords out = map coords (old ! c)) \<and> map (map classes) outs = map (map classes) fs \<and>
      (\<forall>d<4. d \<noteq> c \<longrightarrow> old' ! d = old ! d)"
  using pd_steady.freezes [of old fs c w h a b] pd_filter_classes [OF assms(1,2), of w h a b fs] assms
  by (simp add: case_prod_unfold)

lemma sqrtf_256: "sqrtf 256 = 16"
  by code_simp

theorem anti_shake_freezes_witness:
  "let b = \<lambda>x. \<lparr>classes = E_CLS_PERSON, fX1 = x, fY1 = 1 / 4, fX2 = x + 1 / 2, fY2 = 3 / 4, fConfidence = 1\<rparr>;
       out = fst (filter_run (pd_RectAntiShakeFilter 512 256 0 (1 / 8) (1 / 4)) [[b (9 / 32)], [b (7 / 32)]] [[b (1 / 4)], [], [], []])
   in list_all (\<lambda>o'. map coords o' = [(1 / 4, 1 / 4, 3 / 4, 3 / 4)]) out"
proof -
  let ?b = "\<lambda>x. \<lparr>classes = E_CLS_PERSON, fX1 = x, fY1 = 1 / 4, fX2 = x + 1 / 2, fY2 = 3 / 4, fConfidence = 1 :: rat\<rparr>"
  have "shake_match 512 256 (1 / 8) (1 / 4) (?b (9 / 32)) (?b (1 / 4))"
    "shake_match 512 256 (1 / 8) (1 / 4) (?b (7 / 32)) (?b (1 / 4))"
    by (simp_all add: shake_match_def moved_def sqrtf_256 f32_numeral Let_def)
  then have "\<forall>f\<in>set [[?b (9 / 32)], [?b (7 / 32)]]. length f = length ([[?b (1 / 4)], [], [], []] ! 0) \<and>
      (\<forall>i<length f. shake_match 512 256 (1 / 8) (1 / 4) (f ! i) ([[?b (1 / 4)], [], [], []] ! 0 ! i))"
    by simp
  from anti_shake_freezes [OF _ _ this, unfolded Let_def case_prod_unfold, THEN conjunct1]
  have frozen: "\<forall>out\<in>set (fst (filter_run (pd_RectAntiShakeFilter 512 256 0 (1 / 8) (1 / 4)) [[?b (9 / 32)], [?b (7 / 32)]]
      [[?b (1 / 4)], [], [], []])). map coords out = map coords ([[?b (1 / 4)], [], [], []] ! 0)"
    by (simp del: filter_run.simps)
  have "map coords ([[?b (1 / 4)], [], [], []] ! 0) = [(1 / 4, 1 / 4, 3 / 4, 3 / 4)]" by (simp add: coords_def)
  from frozen [unfolded this] show ?thesis unfolding Let_def list_all_iff .
qed

end
