(* ===== verification/Pd_Body.thy ===== *)
theory Pd_Body
  imports Roi Remap Helmet Anti_Shake
begin

section \<open>The detection thread (pd/pd.cpp)\<close>

text \<open>
  One iteration of \<open>pd_alg_Body\<close> from the picture to the display board and the alarm: the six header bytes,
  the detector (outside; its answer is an argument), the loop over the detections, the packet on the serial
  line, the counts written for other programs, and the notice with the alarm intervals.  The block from
  \<open>bRunAlg\<close> to \<open>MS_P\<close> is disabled by \<open>#if 0\<close>, with it the only count-down of the interval timers outside the
  infrared board and the only assignment to \<open>bDetection\<close>.  Rectangles for the GUI and \<open>bTmpAlarm\<close> are only
  written and are left out.  Each iteration that ends \<open>Done\<close> also sets the monitor's \<open>s32time_out\<close> to 0
  (theory \<open>Alarm\<close>).  Counters of objects stay below 256 and are kept as plain numbers.
\<close>

subsection \<open>The header of a picture\<close>

record body_globals =
  SOURCE_ID :: nat
  DETECT_AREA_EN :: nat
  DisplayMode :: nat
  DETECT_MODE :: nat
  ALARM_OUTPUT_EN :: "nat list"
  BsdRange_TYPE :: nat

text \<open>\<open>None\<close>: the picture is dropped for its channel number, after the first four bytes were stored.\<close>

definition read_header :: "byte list \<Rightarrow> body_globals \<Rightarrow> body_globals \<times> bool" where
  "read_header hb g =
     (let g1 = g\<lparr>SOURCE_ID := unat (hb ! 0), DETECT_AREA_EN := unat (hb ! 1), DisplayMode := unat (hb ! 2),
                DETECT_MODE := unat (hb ! 3)\<rparr>
      in if 4 \<le> SOURCE_ID g1 then (g1, False)
         else (g1\<lparr>ALARM_OUTPUT_EN := (ALARM_OUTPUT_EN g1)[SOURCE_ID g1 := unat (hb ! 4)],
                  BsdRange_TYPE := unat (hb ! 5)\<rparr>, True))"

subsection \<open>The pallet detector's answer\<close>

datatype flow_class = FLOW_PERSON | FLOW_CAR | FLOW_PALLET | FLOW_OTHER

record flow_info =
  cls :: flow_class
  info_box :: STAlgResult
  eAlarmLevel :: int

fun flow_to_bsd :: "nat \<Rightarrow> flow_info list \<Rightarrow> (STAlgResult \<times> int) list" where
  "flow_to_bsd u32OutNum [] = []"
| "flow_to_bsd u32OutNum (f # fs) =
     (if 50 \<le> u32OutNum then []
      else case cls f of
          FLOW_PERSON \<Rightarrow> ((info_box f)\<lparr>classes := E_CLS_PERSON\<rparr>, u8 (eAlarmLevel f)) # flow_to_bsd (u32OutNum + 1) fs
        | FLOW_CAR \<Rightarrow> ((info_box f)\<lparr>classes := E_CLS_CAR\<rparr>, u8 (eAlarmLevel f)) # flow_to_bsd (u32OutNum + 1) fs
        | FLOW_PALLET \<Rightarrow> ((info_box f)\<lparr>classes := E_CLS_PALLET\<rparr>, u8 (eAlarmLevel f)) # flow_to_bsd (u32OutNum + 1) fs
        | FLOW_OTHER \<Rightarrow> flow_to_bsd u32OutNum fs)"

subsection \<open>The loop over the detections\<close>

record detect_env =
  globals :: body_globals
  area :: Area_Info
  bUseFlowPallet :: bool
  bSkipPerson :: bool
  bSkipCar :: bool

record det =
  stAlgResult :: "Algo_Result list"
  u8person_cnt :: int
  u8car_cnt :: int
  last_alarm_mode :: int
  u32RectCnt :: nat
  s32RedRoiNum :: int
  s32YellowRoiNum :: int
  s32GreenRoiNum :: int

definition bDetection :: bool where "bDetection = False"

definition ALG_RANGE_LIMIT :: "rat \<Rightarrow> rat" where
  "ALG_RANGE_LIMIT v = (let v = (if v < 0 then 0 else v) in if 1 < v then 1 else v)"

definition clamp_box :: "STAlgResult \<Rightarrow> Algo_Result_f" where
  "clamp_box r = \<lparr>fx1 = ALG_RANGE_LIMIT (fX1 r), fy1 = ALG_RANGE_LIMIT (fY1 r),
     fx2 = ALG_RANGE_LIMIT (fX2 r), fy2 = ALG_RANGE_LIMIT (fY2 r)\<rparr>"

text \<open>The alarm level of a detection and the box sent for it.\<close>

definition detect_box :: "detect_env \<Rightarrow> STAlgResult \<Rightarrow> int \<Rightarrow> int \<times> Algo_Result" where
  "detect_box e res level =
     (let g = globals e; p = clamp_box res;
          r = \<lparr>ar_x1 = to_panel 1024 (fx1 p), ar_y1 = to_panel 600 (fy1 p), ar_x2 = to_panel 1024 (fx2 p),
               ar_y2 = to_panel 600 (fy2 p), alarm_type = 0\<rparr>;
          s32AlarmMode = (if bUseFlowPallet e then level else alarm_code (area_detect (DETECT_AREA_EN g \<noteq> 0) r (area e)));
          r = coordinate_remap (int (BsdRange_TYPE g)) (r\<lparr>alarm_type := s32AlarmMode mod 16\<rparr>) p (int (DisplayMode g)) 1024 600;
          r = (if bUseFlowPallet e then let y = s16 (ar_y1 r + tdiv (ar_y2 r - ar_y1 r) 2) in r\<lparr>ar_y1 := y, ar_y2 := y\<rparr> else r)
      in (s32AlarmMode, limit_box (int (DisplayMode g)) r))"

definition skipped :: "nat \<Rightarrow> EAlgObjectClass \<Rightarrow> bool" where
  "skipped m c \<longleftrightarrow> m = 0 \<or> c = E_CLS_PERSON \<and> m = 2 \<or> c = E_CLS_CAR \<and> m = 1"

text \<open>A detection that is not skipped; the second component says that the loop ends here.\<close>

definition one_object :: "detect_env \<Rightarrow> STAlgResult \<Rightarrow> int \<Rightarrow> det \<Rightarrow> det \<times> bool" where
  "one_object e res level s =
     (let (s32AlarmMode, r) = detect_box e res level; c = classes res;
          s = (if c = E_CLS_PERSON then s\<lparr>u8person_cnt := u8person_cnt s + 1\<rparr>
               else if c = E_CLS_CAR then s\<lparr>u8car_cnt := u8car_cnt s + 1\<rparr> else s);
          s = (if last_alarm_mode s < s32AlarmMode then s\<lparr>last_alarm_mode := s32AlarmMode\<rparr> else s);
          s = (if c = E_CLS_PERSON \<and> alarm_type r = 0 then s\<lparr>u8person_cnt := u8person_cnt s - 1\<rparr> else s);
          s = (if c = E_CLS_CAR \<and> alarm_type r = 0 then s\<lparr>u8car_cnt := u8car_cnt s - 1\<rparr> else s);
          s = s\<lparr>stAlgResult := stAlgResult s @ [r]\<rparr>
      in if bSkipPerson e \<and> c = E_CLS_PERSON \<or> bSkipCar e \<and> c = E_CLS_CAR \<or> \<not> bDetection \<and> c = E_CLS_CAR then (s, False)
         else if 20 \<le> u32RectCnt s then (s, True)
         else let s = s\<lparr>u32RectCnt := u32RectCnt s + 1\<rparr>
           in (if s32AlarmMode = 3 then s\<lparr>s32RedRoiNum := s32RedRoiNum s + 1\<rparr>
               else if s32AlarmMode = 2 then s\<lparr>s32YellowRoiNum := s32YellowRoiNum s + 1\<rparr>
               else if s32AlarmMode = 1 then s\<lparr>s32GreenRoiNum := s32GreenRoiNum s + 1\<rparr> else s, False))"

fun detect_loop :: "detect_env \<Rightarrow> (STAlgResult \<times> int) list \<Rightarrow> det \<Rightarrow> det" where
  "detect_loop e [] s = s"
| "detect_loop e ((res, level) # rs) s =
     (if 50 \<le> length (stAlgResult s) then s
      else if skipped (DETECT_MODE (globals e)) (classes res) then detect_loop e rs s
      else let (s', stop) = one_object e res level s in if stop then s' else detect_loop e rs s')"

definition det_init :: det where
  "det_init = \<lparr>stAlgResult = [], u8person_cnt = 0, u8car_cnt = 0, last_alarm_mode = 0, u32RectCnt = 0,
     s32RedRoiNum = 0, s32YellowRoiNum = 0, s32GreenRoiNum = 0\<rparr>"

subsection \<open>The packet\<close>

definition short_bytes :: "int \<Rightarrow> byte list" where
  "short_bytes v = [lo_byte (of_int v), hi_byte (of_int v)]"

definition rec_bytes :: "Algo_Result \<Rightarrow> byte list" where
  "rec_bytes r = short_bytes (ar_x1 r) @ short_bytes (ar_y1 r) @ short_bytes (ar_x2 r) @ short_bytes (ar_y2 r) @
     [of_int (alarm_type r)]"

definition pc_flag :: "bool \<Rightarrow> det \<Rightarrow> int" where
  "pc_flag lamp s = (if 0 < u8person_cnt s then 1 else 0) + (if 0 < u8car_cnt s then 2 else 0) + (if lamp then 16 else 0)"

definition sent_records :: "detect_env \<Rightarrow> det \<Rightarrow> Algo_Result list" where
  "sent_records e s = (if DETECT_AREA_EN (globals e) \<noteq> 0 then filter (\<lambda>r. alarm_type r \<noteq> 0) (stAlgResult s) else stAlgResult s)"

definition serial_packet :: "nat \<Rightarrow> int \<Rightarrow> Algo_Result list \<Rightarrow> byte list" where
  "serial_packet src flag rs =
     (let body = [of_nat src, of_int flag, of_nat (length rs)] @ concat (map rec_bytes rs); c = crc16_Gen body
      in [0xff, 0xaa] @ body @ [lo_byte c, hi_byte c])"

subsection \<open>Counts and alarm intervals\<close>

record roi_counts =
  dump_red :: int
  dump_yellow :: int
  dump_green :: int

text \<open>Customer A of 200055: one level for the whole picture, by the number of objects.\<close>

definition pd_DumpInfo_200055A_Correct :: "(customer \<Rightarrow> bool) \<Rightarrow> int \<Rightarrow> roi_counts \<Rightarrow> roi_counts" where
  "pd_DumpInfo_200055A_Correct BOARD_IsCustomer rectNum d =
     (if \<not> BOARD_IsCustomer CUST_VT_A then d
      else if rectNum = 0 then \<lparr>dump_red = 0, dump_yellow = 0, dump_green = 0\<rparr>
      else if rectNum = 1 then \<lparr>dump_red = 0, dump_yellow = 0, dump_green = 1\<rparr>
      else if rectNum = 2 then \<lparr>dump_red = 0, dump_yellow = 1, dump_green = 0\<rparr>
      else \<lparr>dump_red = 1, dump_yellow = 0, dump_green = 0\<rparr>)"

text \<open>Customer 200889: persons are not counted in the green zone, cars only there.\<close>

definition pd_DumpInfo_200889_Correct :: "(customer \<Rightarrow> bool) \<Rightarrow> EAlgObjectClass \<Rightarrow> PD_ROI \<Rightarrow> roi_counts \<Rightarrow> roi_counts" where
  "pd_DumpInfo_200889_Correct BOARD_IsCustomer oclass enRoi d =
     (if \<not> BOARD_IsCustomer CUST_200889 then d
      else if oclass = E_CLS_PERSON \<or> oclass = E_CLS_PERSON_HAT then
        (if enRoi = PD_ROI_GREEN then d\<lparr>dump_green := dump_green d - 1\<rparr> else d)
      else if oclass = E_CLS_CAR then
        (case enRoi of PD_ROI_YELLOW \<Rightarrow> d\<lparr>dump_yellow := dump_yellow d - 1, dump_green := dump_green d + 1\<rparr>
         | PD_ROI_RED \<Rightarrow> d\<lparr>dump_red := dump_red d - 1, dump_green := dump_green d + 1\<rparr> | _ \<Rightarrow> d)
      else d)"

record body_cfg = alarm_cfg +
  s32PdRedInterval :: int
  s32PdYellowInterval :: int
  s32PdGreenInterval :: int

record timers =
  s32RedTimeMs :: int
  s32YellowTimeMs :: int
  s32GreenTimeMs :: int

text \<open>The counts written for the microcontroller: those whose output is off or whose interval runs are 0.\<close>

definition mask_counts :: "body_cfg \<Rightarrow> timers \<Rightarrow> roi_counts \<Rightarrow> roi_counts" where
  "mask_counts p t d =
     \<lparr>dump_red = (if \<not> bPdAlarmOutRed p \<or> s32PdRedInterval p < 0 \<or> 0 < s32RedTimeMs t then 0 else dump_red d),
      dump_yellow = (if \<not> bPdAlarmOutYellow p \<or> s32PdYellowInterval p < 0 \<or> 0 < s32YellowTimeMs t then 0 else dump_yellow d),
      dump_green = (if \<not> bPdAlarmOutGreen p \<or> s32PdGreenInterval p < 0 \<or> 0 < s32GreenTimeMs t then 0 else dump_green d)\<rparr>"

text \<open>The notice's level, the timers afterwards and whether the counts are sent as an event.\<close>

definition alarm_intervals :: "body_cfg \<Rightarrow> int \<Rightarrow> timers \<Rightarrow> PD_ALARM_TYPE \<times> timers \<times> bool" where
  "alarm_intervals p s32AlarmMode t =
     (if s32AlarmMode = alarm_code PD_ALARM_TYPE_RED then
        if s32PdRedInterval p < 0 \<or> 0 < s32RedTimeMs t then (PD_ALARM_TYPE_NULL, t, False)
        else (PD_ALARM_TYPE_RED, t\<lparr>s32RedTimeMs := s32 (s32PdRedInterval p * 1000)\<rparr>, 0 < s32PdRedInterval p)
      else if s32AlarmMode = alarm_code PD_ALARM_TYPE_YELLOW then
        if s32PdYellowInterval p < 0 \<or> 0 < s32YellowTimeMs t then (PD_ALARM_TYPE_NULL, t, False)
        else (if 0 < s32RedTimeMs t then PD_ALARM_TYPE_NULL else PD_ALARM_TYPE_YELLOW,
              t\<lparr>s32YellowTimeMs := s32 (s32PdYellowInterval p * 1000)\<rparr>, 0 < s32PdYellowInterval p)
      else if s32AlarmMode = alarm_code PD_ALARM_TYPE_GREEN then
        if s32PdGreenInterval p < 0 \<or> 0 < s32GreenTimeMs t then (PD_ALARM_TYPE_NULL, t, False)
        else (if 0 < s32RedTimeMs t \<or> 0 < s32YellowTimeMs t then PD_ALARM_TYPE_NULL else PD_ALARM_TYPE_GREEN,
              t\<lparr>s32GreenTimeMs := s32 (s32PdGreenInterval p * 1000)\<rparr>, 0 < s32PdGreenInterval p)
      else (PD_ALARM_TYPE_NULL, t, False))"

text \<open>The count-down, which only the infrared board still has, for the iterations it leaves out because the
  other camera is shown.\<close>

definition count_down :: "int \<Rightarrow> body_cfg \<Rightarrow> timers \<Rightarrow> timers" where
  "count_down u32StepTimeMs p t =
     (let t = (if 0 \<le> s32PdRedInterval p \<and> 0 < s32RedTimeMs t then t\<lparr>s32RedTimeMs := s32 (s32RedTimeMs t - u32StepTimeMs)\<rparr> else t);
          t = (if 0 \<le> s32PdYellowInterval p \<and> 0 < s32YellowTimeMs t then t\<lparr>s32YellowTimeMs := s32 (s32YellowTimeMs t - u32StepTimeMs)\<rparr> else t)
      in if 0 \<le> s32PdGreenInterval p \<and> 0 < s32GreenTimeMs t then t\<lparr>s32GreenTimeMs := s32 (s32GreenTimeMs t - u32StepTimeMs)\<rparr> else t)"

subsection \<open>One iteration\<close>

text \<open>The channel is counted up from 0 in every iteration.\<close>

definition s32CurChn :: "nat \<Rightarrow> nat" where
  "s32CurChn u32ChnNum = (if u32ChnNum \<le> 1 then 0 else 1)"

record body =
  glob :: body_globals
  tms :: "timers list"
  astOldResult :: "STAlgResult list list"

text \<open>What does not change while the thread runs.  \<open>params\<close> is \<open>apstPdsParam\<close>, with \<open>None\<close> for a null pointer.\<close>

record body_setup =
  u32ChnNum :: nat
  params :: "nat \<Rightarrow> body_cfg option"
  cust :: "customer \<Rightarrow> bool"
  helmet_model :: bool
  g_bFlowPalletMode :: bool
  areas :: "Area_Info list"
  skip_person :: "bool list"
  skip_car :: "bool list"
  width :: int
  height :: int

record body_out =
  serial :: "byte list"
  written :: roi_counts
  posted :: PD_ALARM_NOTICE
  submitted :: "roi_counts option"

datatype body_result = Dropped | Undefined | Done body_out

text \<open>\<open>bsd\<close> and \<open>flow\<close>: what the detectors answer, \<open>None\<close> for an error.\<close>

definition detections :: "body_setup \<Rightarrow> STAlgResult list option \<Rightarrow> (flow_info list \<times> bool) option \<Rightarrow> body \<Rightarrow>
    ((STAlgResult \<times> int) list \<times> bool \<times> body) option" where
  "detections S bsd flow b =
     (if g_bFlowPalletMode S \<and> SOURCE_ID (glob b) = 0 then
        map_option (\<lambda>(fs, bLampSwitch). (flow_to_bsd 0 fs, bLampSwitch, b)) flow
      else map_option (\<lambda>rs.
          let (rs', old) = pd_RectAntiShakeFilter (width S) (height S) (s32CurChn (u32ChnNum S)) (f32 (f64 (1 / 10))) (f32 (f64 (2 / 10))) rs (astOldResult b)
          in (map (\<lambda>r. (r, 0)) rs', False, b\<lparr>astOldResult := old\<rparr>)) bsd)"

definition parse_helmets :: "body_setup \<Rightarrow> (STAlgResult \<times> int) list \<Rightarrow> (STAlgResult \<times> int) list option" where
  "parse_helmets S rs = (if helmet_model S then map_option (\<lambda>(ph, rs'). zip rs' (map snd rs)) (pd_SafetyHelmet_Parse (map fst rs)) else Some rs)"

definition body_env :: "body_setup \<Rightarrow> nat \<Rightarrow> body_globals \<Rightarrow> detect_env" where
  "body_env S chn g = \<lparr>globals = g, area = areas S ! SOURCE_ID g,
     bUseFlowPallet = g_bFlowPalletMode S \<and> SOURCE_ID g = 0,
     bSkipPerson = skip_person S ! chn, bSkipCar = skip_car S ! chn\<rparr>"

definition send_results :: "body_setup \<Rightarrow> nat \<Rightarrow> body_cfg \<Rightarrow> (STAlgResult \<times> int) list \<Rightarrow> bool \<Rightarrow> body \<Rightarrow> body_out \<times> body" where
  "send_results S chn p rs lamp b =
     (let g = glob b; e = body_env S chn g;
          s = detect_loop e rs det_init; t = tms b ! chn;
          d = pd_DumpInfo_200055A_Correct (cust S) (s32GreenRoiNum s + s32YellowRoiNum s + s32RedRoiNum s)
                \<lparr>dump_red = s32RedRoiNum s, dump_yellow = s32YellowRoiNum s, dump_green = s32GreenRoiNum s\<rparr>;
          w = mask_counts p t d; (en, t', ev) = alarm_intervals p (last_alarm_mode s) t
      in (\<lparr>serial = serial_packet (SOURCE_ID g) (pc_flag (bUseFlowPallet e \<and> lamp) s) (sent_records e s), written = w,
           posted = \<lparr>enMode = en, bPerson = \<not> cust S CUST_LUIS, bCar = False, s32Chn = int (SOURCE_ID g),
                     u8DisplayMode = int (DisplayMode g)\<rparr>,
           submitted = (if ev then Some \<lparr>dump_red = dump_red w,
              dump_yellow = (if s32YellowTimeMs t \<le> 0 then dump_yellow d else 0),
              dump_green = (if s32GreenTimeMs t \<le> 0 then dump_green d else 0)\<rparr> else None)\<rparr>,
          b\<lparr>tms := (tms b)[chn := t']\<rparr>))"

definition pd_alg_Body :: "body_setup \<Rightarrow> byte list \<Rightarrow> STAlgResult list option \<Rightarrow> (flow_info list \<times> bool) option \<Rightarrow> body \<Rightarrow>
    body_result \<times> body" where
  "pd_alg_Body S head bsd flow b =
     (let (g, ok) = read_header head (glob b); b = b\<lparr>glob := g\<rparr>; chn = s32CurChn (u32ChnNum S)
      in if \<not> ok then (Dropped, b)
         else case detections S bsd flow b of None \<Rightarrow> (Dropped, b)
         | Some (rs, lamp, b) \<Rightarrow>
             (case params S chn of None \<Rightarrow> (Undefined, b)
              | Some p \<Rightarrow>
                  (case parse_helmets S rs of None \<Rightarrow> (Undefined, b)
                   | Some rs \<Rightarrow> (let (out, b) = send_results S chn p rs lamp b in (Done out, b)))))"

subsection \<open>Lemmas: the loop\<close>

definition counted :: "detect_env \<Rightarrow> EAlgObjectClass \<Rightarrow> bool" where
  "counted e c \<longleftrightarrow> \<not> (bSkipPerson e \<and> c = E_CLS_PERSON) \<and> c \<noteq> E_CLS_CAR"

abbreviation box_of :: "detect_env \<Rightarrow> STAlgResult \<times> int \<Rightarrow> Algo_Result" where
  "box_of e x \<equiv> snd (detect_box e (fst x) (snd x))"

abbreviation level_of :: "detect_env \<Rightarrow> STAlgResult \<times> int \<Rightarrow> int" where
  "level_of e x \<equiv> fst (detect_box e (fst x) (snd x))"

lemma one_object_fields:
  fixes e r l s
  defines "s' \<equiv> fst (one_object e r l s)"
  shows "stAlgResult s' = stAlgResult s @ [box_of e (r, l)]"
    and "u8person_cnt s' = u8person_cnt s + (if classes r = E_CLS_PERSON \<and> alarm_type (box_of e (r, l)) \<noteq> 0 then 1 else 0)"
    and "u8car_cnt s' = u8car_cnt s + (if classes r = E_CLS_CAR \<and> alarm_type (box_of e (r, l)) \<noteq> 0 then 1 else 0)"
    and "last_alarm_mode s' = max (last_alarm_mode s) (level_of e (r, l))"
    and "s32RedRoiNum s' = s32RedRoiNum s + (if counted e (classes r) \<and> u32RectCnt s < 20 \<and> level_of e (r, l) = 3 then 1 else 0)"
    and "u32RectCnt s' = u32RectCnt s + (if counted e (classes r) \<and> u32RectCnt s < 20 then 1 else 0)"
    and "snd (one_object e r l s) \<longleftrightarrow> counted e (classes r) \<and> 20 \<le> u32RectCnt s"
  by (cases "detect_box e r l"; auto simp: s'_def one_object_def Let_def counted_def bDetection_def)+

definition kept :: "detect_env \<Rightarrow> (STAlgResult \<times> int) list \<Rightarrow> (STAlgResult \<times> int) list" where
  "kept e rs = filter (\<lambda>x. \<not> skipped (DETECT_MODE (globals e)) (classes (fst x))) rs"

lemma kept_simps [simp]: "kept e [] = []"
  "kept e (x # rs) = (if skipped (DETECT_MODE (globals e)) (classes (fst x)) then kept e rs else x # kept e rs)"
  by (simp_all add: kept_def)

lemma foldl_max: "foldl max a (map f xs) = Max (insert a (f ` set xs))" for a :: "'a::linorder"
proof (induction xs arbitrary: a)
  case (Cons x xs)
  have "Max (insert (max a (f x)) (f ` set xs)) = Max (insert a (insert (f x) (f ` set xs)))"
    by (cases "set xs = {}") (simp_all add: max.assoc)
  then show ?case using Cons by simp
qed simp

text \<open>With at most 20 objects kept the loop runs to its end and its results are sums over them.\<close>

lemma detect_loop_all:
  assumes "length (stAlgResult s) + length (kept e rs) \<le> 20" and "u32RectCnt s \<le> length (stAlgResult s)"
  shows "stAlgResult (detect_loop e rs s) = stAlgResult s @ map (box_of e) (kept e rs) \<and>
    u8person_cnt (detect_loop e rs s) = u8person_cnt s +
      int (length (filter (\<lambda>x. classes (fst x) = E_CLS_PERSON \<and> alarm_type (box_of e x) \<noteq> 0) (kept e rs))) \<and>
    u8car_cnt (detect_loop e rs s) = u8car_cnt s +
      int (length (filter (\<lambda>x. classes (fst x) = E_CLS_CAR \<and> alarm_type (box_of e x) \<noteq> 0) (kept e rs))) \<and>
    last_alarm_mode (detect_loop e rs s) = foldl max (last_alarm_mode s) (map (level_of e) (kept e rs)) \<and>
    s32RedRoiNum (detect_loop e rs s) = s32RedRoiNum s +
      int (length (filter (\<lambda>x. counted e (classes (fst x)) \<and> level_of e x = 3) (kept e rs)))"
  using assms
proof (induction rs arbitrary: s)
  case (Cons x rs)
  obtain r l where x: "x = (r, l)" by fastforce
  show ?case
  proof (cases "skipped (DETECT_MODE (globals e)) (classes r)")
    case True
    with Cons.IH [of s] Cons.prems show ?thesis by (simp add: x)
  next
    case False
    obtain s' b where one: "one_object e r l s = (s', b)" by fastforce
    note f = one_object_fields [of e r l s, unfolded one fst_conv snd_conv]
    have "\<not> b" and "u32RectCnt s < 20" and "length (stAlgResult s) < 50" using f(7) Cons.prems False x by auto
    with Cons.IH [of s'] Cons.prems False f one show ?thesis by (simp add: x)
  qed
qed simp

text \<open>Whatever the number of objects: what is sent comes from an object kept, and at most 50 are sent.\<close>

lemma detect_loop_bounds:
  assumes "length (stAlgResult s) \<le> 50"
  shows "length (stAlgResult (detect_loop e rs s)) \<le> 50 \<and>
    set (stAlgResult (detect_loop e rs s)) \<subseteq> set (stAlgResult s) \<union> box_of e ` set (kept e rs)"
  using assms
proof (induction rs arbitrary: s)
  case (Cons x rs)
  obtain r l where x: "x = (r, l)" by fastforce
  obtain s' b where one: "one_object e r l s = (s', b)" by fastforce
  note f = one_object_fields [of e r l s, unfolded one fst_conv snd_conv]
  show ?case
  proof (cases "skipped (DETECT_MODE (globals e)) (classes r) \<or> 50 \<le> length (stAlgResult s)")
    case True
    with Cons.IH [of s] Cons.prems show ?thesis by (auto simp: x)
  next
    case False
    with Cons.IH [of s'] f(1) one show ?thesis by (auto simp: x)
  qed
qed simp

subsection \<open>Lemmas: the packet\<close>

text \<open>The packet as the display board reads it.\<close>

definition parse_short :: "byte \<Rightarrow> byte \<Rightarrow> int" where "parse_short lo hi = s16 (le16 lo hi)"

definition parse_rec :: "byte list \<Rightarrow> Algo_Result" where
  "parse_rec b = \<lparr>ar_x1 = parse_short (b ! 0) (b ! 1), ar_y1 = parse_short (b ! 2) (b ! 3),
     ar_x2 = parse_short (b ! 4) (b ! 5), ar_y2 = parse_short (b ! 6) (b ! 7), alarm_type = uint (b ! 8)\<rparr>"

definition parse_packet :: "byte list \<Rightarrow> (nat \<times> int \<times> Algo_Result list) option" where
  "parse_packet bs =
     (let n = unat (bs ! 4)
      in if 7 \<le> length bs \<and> take 2 bs = [0xff, 0xaa] \<and> length bs = 9 * n + 7 \<and>
            crc16_Gen (take (9 * n + 3) (drop 2 bs)) = u16_of (bs ! (9 * n + 5)) (bs ! (9 * n + 6))
         then Some (unat (bs ! 2), uint (bs ! 3), map (\<lambda>k. parse_rec (take 9 (drop (9 * k + 5) bs))) [0..<n])
         else None)"

definition rec_ok :: "Algo_Result \<Rightarrow> bool" where
  "rec_ok r \<longleftrightarrow> short_box r \<and> 0 \<le> alarm_type r \<and> alarm_type r < 256"

lemma parse_short_bytes: "short v \<Longrightarrow> parse_short (lo_byte (of_int v)) (hi_byte (of_int v)) = v"
proof -
  assume v: "short v"
  have "le16 (lo_byte (of_int v)) (hi_byte (of_int v)) = v mod 65536"
    using uint_bytes [of "of_int v"] by (simp add: le16_def uint_word_of_int)
  then show ?thesis using v by (simp add: parse_short_def s16_def short_def mod_add_left_eq)
qed

lemma parse_rec_bytes: "rec_ok r \<Longrightarrow> parse_rec (rec_bytes r) = r"
  by (cases r) (simp add: rec_ok_def short_box_def parse_rec_def rec_bytes_def short_bytes_def parse_short_bytes uint_word_of_int)

lemma length_rec_bytes [simp]: "length (rec_bytes r) = 9"
  by (simp add: rec_bytes_def short_bytes_def)

lemma length_concat_rec [simp]: "length (concat (map rec_bytes rs)) = 9 * length rs"
  by (induction rs) simp_all

lemma take_concat_rec:
  "k < length rs \<Longrightarrow> take 9 (drop (9 * k) (concat (map rec_bytes rs) @ c)) = rec_bytes (rs ! k)"
proof (induction rs arbitrary: k)
  case (Cons r rs)
  then show ?case by (cases k) simp_all
qed simp

lemma length_serial_packet [simp]: "length (serial_packet src flag rs) = 9 * length rs + 7"
  by (simp add: serial_packet_def Let_def)

lemma parse_serial_packet:
  assumes "length rs < 256" "src < 256" "0 \<le> flag" "flag < 256" "\<forall>r\<in>set rs. rec_ok r"
  shows "parse_packet (serial_packet src flag rs) = Some (src, flag, rs)"
proof -
  define body where "body = [of_nat src, of_int flag, of_nat (length rs)] @ concat (map rec_bytes rs)"
  define c where "c = crc16_Gen body"
  have p: "serial_packet src flag rs = [0xff, 0xaa] @ body @ [lo_byte c, hi_byte c]"
    by (simp add: serial_packet_def Let_def body_def c_def)
  have l: "length body = 9 * length rs + 3" by (simp add: body_def)
  have h: "(serial_packet src flag rs) ! 2 = of_nat src" "(serial_packet src flag rs) ! 3 = of_int flag"
    "(serial_packet src flag rs) ! 4 = of_nat (length rs)"
    by (simp_all add: p body_def nth_append)
  have n: "unat (of_nat (length rs) :: byte) = length rs" "unat (of_nat src :: byte) = src" "uint (of_int flag :: byte) = flag"
    using assms unat_small by (simp_all add: uint_word_of_int)
  have crc: "take (9 * length rs + 3) (drop 2 (serial_packet src flag rs)) = body"
    "(serial_packet src flag rs) ! (9 * length rs + 5) = lo_byte c" "(serial_packet src flag rs) ! (9 * length rs + 6) = hi_byte c"
    using l by (simp_all add: p nth_append)
  have "drop (9 * k + 5) (serial_packet src flag rs) = drop (9 * k) (concat (map rec_bytes rs) @ [lo_byte c, hi_byte c])" for k
    unfolding drop_drop [symmetric] by (simp add: p body_def)
  then have "map (\<lambda>k. parse_rec (take 9 (drop (9 * k + 5) (serial_packet src flag rs)))) [0..<length rs] = rs"
    using assms(5) take_concat_rec [of _ rs "[]"] by (intro nth_equalityI) (simp_all add: parse_rec_bytes)
  then show ?thesis
    unfolding parse_packet_def h n Let_def using crc l by (simp add: u16_of_bytes c_def p)
qed

lemma detect_box_type: "alarm_type (box_of e (r, l)) = level_of e (r, l) mod 16"
  by (simp add: detect_box_def Let_def)

lemma detect_box_ok: "rec_ok (box_of e (r, l))"
proof -
  have flow: "short_box (if b then let y = s16 (ar_y1 q + tdiv (ar_y2 q - ar_y1 q) 2) in q\<lparr>ar_y1 := y, ar_y2 := y\<rparr> else q)"
    if "short_box q" for b q using that by (simp add: short_box_def Let_def)
  have "short_box (box_of e (r, l))"
    unfolding detect_box_def Let_def snd_conv fst_conv
    by (intro short_fixes(4) flow [unfolded Let_def] coordinate_remap_short)
  moreover have "0 \<le> m mod 16 \<and> m mod 16 < 256" for m :: int
    using pos_mod_bound [of 16 m] by simp
  moreover note detect_box_type [of e r l]
  ultimately show ?thesis unfolding rec_ok_def by presburger
qed

lemma sent_records_ok:
  "length (sent_records e (detect_loop e rs det_init)) \<le> 50 \<and>
   (\<forall>r\<in>set (sent_records e (detect_loop e rs det_init)). rec_ok r)"
proof -
  let ?s = "detect_loop e rs det_init"
  have b: "length (stAlgResult ?s) \<le> 50" "set (stAlgResult ?s) \<subseteq> box_of e ` set (kept e rs)"
    using detect_loop_bounds [of det_init e rs] by (auto simp: det_init_def)
  have "\<forall>r\<in>set (stAlgResult ?s). rec_ok r" using b(2) detect_box_ok by fastforce
  then show ?thesis using b(1) by (auto simp: sent_records_def intro: le_trans [OF length_filter_le])
qed

lemma pc_flag_range: "0 \<le> pc_flag lamp s \<and> pc_flag lamp s < 256"
  by (simp add: pc_flag_def)

lemma detections_keep: "detections S bsd flow b = Some (rs, lamp, b1) \<Longrightarrow> glob b1 = glob b \<and> tms b1 = tms b"
  by (auto simp: detections_def Let_def case_prod_beta split: if_splits)

lemma pd_alg_Body_Done:
  assumes "pd_alg_Body S head bsd flow b = (Done out, b')"
  obtains rs lamp b1 p where "params S (s32CurChn (u32ChnNum S)) = Some p"
    and "send_results S (s32CurChn (u32ChnNum S)) p rs lamp b1 = (out, b')" and "SOURCE_ID (glob b1) < 4"
    and "tms b1 = tms b" and "glob b1 = fst (read_header head (glob b))"
proof -
  obtain g ok where hd: "read_header head (glob b) = (g, ok)" by fastforce
  with assms have ok: "ok" by (auto simp: pd_alg_Body_def Let_def split: if_splits)
  from assms hd ok obtain rs lamp b1 where d: "detections S bsd flow (b\<lparr>glob := g\<rparr>) = Some (rs, lamp, b1)"
    by (auto simp: pd_alg_Body_def Let_def split: option.splits)
  from assms hd ok d obtain p where p: "params S (s32CurChn (u32ChnNum S)) = Some p"
    by (auto simp: pd_alg_Body_def Let_def split: option.splits)
  from assms hd ok d p obtain rs' where s: "send_results S (s32CurChn (u32ChnNum S)) p rs' lamp b1 = (out, b')"
    by (auto simp: pd_alg_Body_def Let_def split: option.splits prod.splits)
  from d have "glob b1 = g \<and> tms b1 = tms b"
    using detections_keep by fastforce
  moreover from hd ok have "SOURCE_ID g < 4" by (auto simp: read_header_def Let_def split: if_splits)
  ultimately show ?thesis using that p s hd by force
qed

text \<open>A running interval of the red level admits no notice and goes on running.\<close>

lemma alarm_intervals_red:
  "0 < s32RedTimeMs t \<Longrightarrow> fst (alarm_intervals p m t) = PD_ALARM_TYPE_NULL \<and>
     s32RedTimeMs (fst (snd (alarm_intervals p m t))) = s32RedTimeMs t"
  by (simp add: alarm_intervals_def)

lemma alarm_intervals_arms:
  assumes "fst (alarm_intervals p m t) = PD_ALARM_TYPE_RED" "0 < s32PdRedInterval p" "s32PdRedInterval p \<le> 2147483"
  shows "0 < s32RedTimeMs (fst (snd (alarm_intervals p m t)))"
  using assms s32_id [of "s32PdRedInterval p * 1000"] by (auto simp: alarm_intervals_def split: if_splits)

lemma send_results_fields:
  assumes "send_results S chn p rs lamp b = (out, b')"
  shows "enMode (posted out) = fst (alarm_intervals p (last_alarm_mode (detect_loop (body_env S chn (glob b)) rs det_init)) (tms b ! chn))"
    and "tms b' = (tms b)[chn := fst (snd (alarm_intervals p (last_alarm_mode (detect_loop (body_env S chn (glob b)) rs det_init)) (tms b ! chn)))]"
    and "glob b' = glob b"
    and "serial out = serial_packet (SOURCE_ID (glob b)) (pc_flag (bUseFlowPallet (body_env S chn (glob b)) \<and> lamp) (detect_loop (body_env S chn (glob b)) rs det_init))
      (sent_records (body_env S chn (glob b)) (detect_loop (body_env S chn (glob b)) rs det_init))"
  using assms by (auto simp: send_results_def Let_def split: prod.splits)

fun body_run :: "body_setup \<Rightarrow> (byte list \<times> STAlgResult list option \<times> (flow_info list \<times> bool) option) list \<Rightarrow> body \<Rightarrow>
    body_out list" where
  "body_run S [] b = []"
| "body_run S ((head, bsd, flow) # is) b =
     (case pd_alg_Body S head bsd flow b of (Done out, b') \<Rightarrow> out # body_run S is b' | (_, b') \<Rightarrow> body_run S is b')"

lemma pd_alg_Body_tms:
  "pd_alg_Body S head bsd flow b = (r, b') \<Longrightarrow> (\<forall>out. r \<noteq> Done out) \<Longrightarrow> tms b' = tms b"
  by (auto simp: pd_alg_Body_def Let_def split: prod.splits if_splits option.splits dest: detections_keep)

lemma body_run_silent:
  assumes "0 < s32RedTimeMs (tms b ! chn)" "chn = s32CurChn (u32ChnNum S)" "chn < length (tms b)"
  shows "\<forall>out\<in>set (body_run S is b). enMode (posted out) = PD_ALARM_TYPE_NULL"
  using assms(1,3)
proof (induction "is" arbitrary: b)
  case (Cons i "is")
  obtain head bsd flow where i: "i = (head, bsd, flow)" by (cases i) auto
  obtain r b' where st: "pd_alg_Body S head bsd flow b = (r, b')" by fastforce
  show ?case
  proof (cases "\<exists>out. r = Done out")
    case True
    then obtain out where r: "r = Done out" by blast
    from pd_alg_Body_Done [OF st [unfolded r]] obtain rs lamp b1 p
      where s: "send_results S chn p rs lamp b1 = (out, b')" and t: "tms b1 = tms b" using assms(2) by metis
    note f = send_results_fields(1,2) [OF s, unfolded t]
    have "enMode (posted out) = PD_ALARM_TYPE_NULL" using f(1) alarm_intervals_red [OF Cons.prems(1)] by simp
    moreover have "0 < s32RedTimeMs (tms b' ! chn)" "chn < length (tms b')"
      using f(2) alarm_intervals_red [OF Cons.prems(1)] Cons.prems by simp_all
    ultimately show ?thesis using Cons.IH [of b'] st r i by simp
  next
    case False
    then have "tms b' = tms b" using pd_alg_Body_tms [OF st] by simp
    with Cons.IH [of b'] Cons.prems False st i show ?thesis by (cases r) simp_all
  qed
qed simp

subsection \<open>A sample\<close>

definition sample_setup :: body_setup where
  "sample_setup = \<lparr>u32ChnNum = 1, params = (\<lambda>_. Some \<lparr>s32PdAlarmOutInterval = 0, bPdAlarmOutGreen = True,
      bPdAlarmOutYellow = True, bPdAlarmOutRed = True, s32PdRedInterval = 5, s32PdYellowInterval = 5, s32PdGreenInterval = 5\<rparr>),
     cust = (\<lambda>_. False), helmet_model = False, g_bFlowPalletMode = False, areas = replicate 4 Area_Info_zero,
     skip_person = [False], skip_car = [False], width = 512, height = 256\<rparr>"

definition sample_body :: body where
  "sample_body = \<lparr>glob = \<lparr>SOURCE_ID = 0, DETECT_AREA_EN = 0, DisplayMode = 0, DETECT_MODE = 0,
       ALARM_OUTPUT_EN = [0, 0, 0, 0], BsdRange_TYPE = 0\<rparr>,
     tms = [\<lparr>s32RedTimeMs = 0, s32YellowTimeMs = 0, s32GreenTimeMs = 0\<rparr>], astOldResult = [[], [], [], []]\<rparr>"

definition sample_object :: STAlgResult where
  "sample_object = \<lparr>classes = E_CLS_PERSON, fX1 = 1 / 4, fY1 = 1 / 2, fX2 = 1 / 2, fY2 = 1, fConfidence = 1\<rparr>"

lemma sample_level:
  assumes "DETECT_AREA_EN (globals e) = 0" "\<not> bUseFlowPallet e"
  shows "level_of e (sample_object, 0) = 3"
proof -
  have "to_panel 600 (ALG_RANGE_LIMIT 1) = 600" by code_simp
  with assms show ?thesis
    by (simp add: detect_box_def Let_def area_detect_def clamp_box_def sample_object_def)
qed

definition sample_env :: detect_env where
  "sample_env = \<lparr>globals = \<lparr>SOURCE_ID = 0, DETECT_AREA_EN = 0, DisplayMode = 0, DETECT_MODE = 3,
       ALARM_OUTPUT_EN = [1, 0, 0, 0], BsdRange_TYPE = 0\<rparr>, area = Area_Info_zero, bUseFlowPallet = False,
     bSkipPerson = False, bSkipCar = False\<rparr>"

lemma sample_kept: "kept sample_env [(sample_object, 0)] = [(sample_object, 0)]"
  by (simp add: sample_env_def skipped_def sample_object_def)

lemma sample_iteration:
  "\<exists>out b'. pd_alg_Body sample_setup [0, 0, 0, 3, 1, 0] (Some [sample_object]) None sample_body = (Done out, b') \<and>
     enMode (posted out) = PD_ALARM_TYPE_RED"
proof -
  let ?b = "sample_body\<lparr>glob := globals sample_env, astOldResult := [[sample_object], [], [], []]\<rparr>"
  obtain out b' where s: "send_results sample_setup 0 (the (params sample_setup 0)) [(sample_object, 0)] False ?b = (out, b')"
    by fastforce
  have "pd_alg_Body sample_setup [0, 0, 0, 3, 1, 0] (Some [sample_object]) None sample_body = (Done out, b')"
    using s by (simp add: pd_alg_Body_def read_header_def Let_def detections_def sample_setup_def sample_body_def
        s32CurChn_def pd_RectAntiShakeFilter_def parse_helmets_def sample_env_def)
  moreover have env: "body_env sample_setup 0 (glob ?b) = sample_env"
    by (simp add: body_env_def sample_setup_def sample_env_def)
  have "last_alarm_mode (detect_loop sample_env [(sample_object, 0)] det_init) = 3"
  proof -
    have "level_of sample_env (sample_object, 0) = 3" by (rule sample_level) (simp_all add: sample_env_def)
    moreover have "last_alarm_mode (detect_loop sample_env [(sample_object, 0)] det_init) =
        foldl max (last_alarm_mode det_init) (map (level_of sample_env) [(sample_object, 0)])"
      using detect_loop_all [of det_init sample_env "[(sample_object, 0)]", unfolded sample_kept]
      by (simp only: det_init_def det.simps list.size)
    ultimately show ?thesis by (simp add: det_init_def)
  qed
  with send_results_fields(1) [OF s] have "enMode (posted out) = PD_ALARM_TYPE_RED"
    unfolding env by (simp add: alarm_intervals_def sample_body_def sample_setup_def)
  ultimately show ?thesis by blast
qed

subsection \<open>Properties\<close>



text \<open> with at most 20 objects to report nothing is lost: the boxes are those of the objects the mode asks
  for, one each and in order; the person and car flags count exactly the persons and cars with an alarm; the
  level of the picture is the highest level of an object; and the red count is the number of red objects that
  are neither cars nor skipped persons.\<close>

theorem detections_reported:
  assumes "length (kept e rs) \<le> 20"
  shows "stAlgResult (detect_loop e rs det_init) = map (box_of e) (kept e rs) \<and>
    (0 < u8person_cnt (detect_loop e rs det_init) \<longleftrightarrow>
       (\<exists>x\<in>set (kept e rs). classes (fst x) = E_CLS_PERSON \<and> alarm_type (box_of e x) \<noteq> 0)) \<and>
    (0 < u8car_cnt (detect_loop e rs det_init) \<longleftrightarrow>
       (\<exists>x\<in>set (kept e rs). classes (fst x) = E_CLS_CAR \<and> alarm_type (box_of e x) \<noteq> 0)) \<and>
    last_alarm_mode (detect_loop e rs det_init) = Max (insert 0 (level_of e ` set (kept e rs))) \<and>
    s32RedRoiNum (detect_loop e rs det_init) =
      int (length (filter (\<lambda>x. counted e (classes (fst x)) \<and> level_of e x = 3) (kept e rs)))"
  using detect_loop_all [of det_init e rs] assms
  by (auto simp: det_init_def foldl_max length_greater_0_conv filter_empty_conv)

theorem detections_reported_witness:
  "stAlgResult (detect_loop sample_env [(sample_object, 0)] det_init) = [box_of sample_env (sample_object, 0)]"
  using detections_reported [of sample_env "[(sample_object, 0)]", unfolded sample_kept] by simp





end
