(* ===== verification/Dmm_Calibration.thy ===== *)
theory Dmm_Calibration
  imports Floats "HOL-Library.Multiset"
begin

section \<open>Calibration of the driver camera (dmm/dmm.cpp)\<close>

text \<open>
  \<open>dmm_CalibrationBody\<close> collects the head angles of 55 frames and takes the average of the most
  frequent ten-degree class of them (\<open>dmm_CalcAnglesAverage\<close>).  Here are the averaging, with its bubble
  sort, and the work on one frame: the colour of the box that is drawn, which decides whether the frame
  counts, the sample arrays, and the verdict on the averages.
\<close>

subsection \<open>The average of the most frequent class\<close>

definition angle_class :: "int \<Rightarrow> int" where
  "angle_class a = s32 (tdiv (s32 (a + (if 0 < a then 5 else - 5))) 10 * 10)"

text \<open>\<open>DMM_ANG_CLASS\<close> is a pair of the class and the number of points.\<close>

definition angle_classes :: "(int \<times> nat) list" where
  "angle_classes = [(-70, 0), (-60, 0), (-50, 0), (-40, 0), (-30, 0), (-20, 0), (-10, 0),
     (0, 0), (10, 0), (20, 0), (30, 0), (40, 0), (50, 0), (60, 0), (70, 0)]"

fun count_point :: "int \<Rightarrow> (int \<times> nat) list \<Rightarrow> (int \<times> nat) list" where
  "count_point k [] = []"
| "count_point k ((c, n) # xs) = (if c = k then (c, n + 1) # xs else (c, n) # count_point k xs)"

fun bubble_pass :: "nat \<Rightarrow> (int \<times> nat) list \<Rightarrow> (int \<times> nat) list" where
  "bubble_pass (Suc m) (x # y # xs) =
     (if snd x < snd y then y # bubble_pass m (x # xs) else x # bubble_pass m (y # xs))"
| "bubble_pass m xs = xs"

text \<open>The outer loop: a pass over 14 neighbours, then over 13, and so on.\<close>

fun bubble_sort :: "nat \<Rightarrow> (int \<times> nat) list \<Rightarrow> (int \<times> nat) list" where
  "bubble_sort 0 xs = xs"
| "bubble_sort (Suc n) xs = bubble_sort n (bubble_pass (Suc n) xs)"

fun add_class :: "int \<Rightarrow> int list \<Rightarrow> int \<times> nat \<Rightarrow> int \<times> nat" where
  "add_class c [] (tot, num) = (tot, num)"
| "add_class c (a # as) (tot, num) =
     (if angle_class a = c then
        if 30 \<le> num + 1 then (s32 (tot + a), num + 1) else add_class c as (s32 (tot + a), num + 1)
      else add_class c as (tot, num))"

fun add_classes :: "int list \<Rightarrow> int list \<Rightarrow> int \<times> nat \<Rightarrow> int \<times> nat" where
  "add_classes [] as s = s"
| "add_classes (c # cs) as s =
     (let s = add_class c as s in if 30 \<le> snd s then s else add_classes cs as s)"

definition dmm_CalcAnglesAverage :: "int list \<Rightarrow> int" where
  "dmm_CalcAnglesAverage as =
     (let cs = bubble_sort 14 (foldl (\<lambda>cs a. count_point (angle_class a) cs) angle_classes as);
          (tot, num) = add_classes (map fst cs) as (0, 0)
      in if num = 0 then - 1000 else tdiv tot (int num))"

subsection \<open>Lemmas: the classes\<close>

text \<open>The class of an angle is the angle rounded to ten degrees, away from zero at the fives; -5 to 4 is class 0
  but for the one asymmetry that 5 goes up and 0 is counted as negative.\<close>

lemma angle_class_eq:
  assumes "\<bar>a\<bar> \<le> 1000"
  shows "angle_class a = (if 0 < a then (a + 5) div 10 * 10 else - ((5 - a) div 10 * 10))"
proof -
  have b: "s32 (a + 5) = a + 5" "s32 (a - 5) = a - 5" using assms by (simp_all add: s32_id)
  have t: "tdiv (a - 5) 10 = - ((5 - a) div 10)" if "\<not> 0 < a" using that by (simp add: tdiv_def)
  have r: "0 \<le> (a + 5) div 10 \<and> (a + 5) div 10 * 10 \<le> a + 5" if "0 < a" using that by auto
  have r': "0 \<le> (5 - a) div 10 \<and> (5 - a) div 10 * 10 \<le> 5 - a" if "\<not> 0 < a" using that by auto
  show ?thesis
  proof (cases "0 < a")
    case True
    then have "tdiv (a + 5) 10 = (a + 5) div 10" by (simp add: tdiv_nonneg)
    with True r assms show ?thesis by (simp add: angle_class_def b s32_id)
  next
    case False
    with r' assms t show ?thesis by (simp add: angle_class_def b s32_id)
  qed
qed

lemma angle_class_near:
  assumes "\<bar>a\<bar> \<le> 1000"
  shows "\<bar>angle_class a - a\<bar> \<le> 5"
  unfolding angle_class_eq [OF assms] by (auto simp: abs_if)

lemma count_point_fst [simp]: "map fst (count_point k xs) = map fst xs"
  by (induction k xs rule: count_point.induct) auto

lemma count_point_at:
  assumes "distinct (map fst xs)"
  shows "set (count_point k xs) = (\<lambda>(c, n). (c, if c = k then n + 1 else n)) ` set xs"
  using assms
proof (induction k xs rule: count_point.induct)
  case (2 k c n xs)
  have "(\<lambda>(c, n). (c, if c = k then n + 1 else n)) ` set xs = set xs" if "c = k"
    using 2(2) that by (intro image_cong [THEN trans, OF refl _ image_ident]) force
  with 2 show ?case by auto
qed simp

lemma counted:
  "set (foldl (\<lambda>cs a. count_point (angle_class a) cs) angle_classes as) =
     (\<lambda>c. (c, length (filter (\<lambda>a. angle_class a = c) as))) ` set (map fst angle_classes) \<and>
   map fst (foldl (\<lambda>cs a. count_point (angle_class a) cs) angle_classes as) = map fst angle_classes"
proof (induction as rule: rev_induct)
  case Nil
  show ?case by (simp add: angle_classes_def insert_commute)
next
  case (snoc a as)
  have "distinct (map fst angle_classes)" by (simp add: angle_classes_def)
  with snoc show ?case by (auto simp: count_point_at image_image split: if_splits)
qed

subsection \<open>Lemmas: the sort\<close>

text \<open>A pass over the first \<open>m\<close> neighbours carries a pair with the least count of them to place \<open>m\<close>.\<close>

lemma bubble_pass_mset [simp]: "mset (bubble_pass m xs) = mset xs"
  by (induction m xs rule: bubble_pass.induct) auto

lemma bubble_pass_length [simp]: "length (bubble_pass m xs) = length xs"
  by (induction m xs rule: bubble_pass.induct) auto

lemma bubble_pass_last:
  assumes "length xs = Suc m"
  shows "\<exists>ys z. bubble_pass m xs = ys @ [z] \<and> (\<forall>y\<in>set ys. snd z \<le> snd y)"
  using assms
proof (induction m xs rule: bubble_pass.induct)
  case (1 m x y xs)
  show ?case
  proof (cases "snd x < snd y")
    case True
    with 1 obtain ys z where z: "bubble_pass m (x # xs) = ys @ [z]" "\<forall>y\<in>set ys. snd z \<le> snd y" by auto
    then have "x \<in> set (ys @ [z])" by (metis bubble_pass_mset list.set_intros(1) set_mset_mset)
    with True z have "\<forall>y\<in>set (y # ys). snd z \<le> snd y" by auto
    with True z show ?thesis by (intro exI [of _ "y # ys"] exI [of _ z]) simp
  next
    case False
    with 1 obtain ys z where z: "bubble_pass m (y # xs) = ys @ [z]" "\<forall>y\<in>set ys. snd z \<le> snd y" by auto
    then have "y \<in> set (ys @ [z])" by (metis bubble_pass_mset list.set_intros(1) set_mset_mset)
    with False z have "\<forall>y\<in>set (x # ys). snd z \<le> snd y" by auto
    with False z show ?thesis by (intro exI [of _ "x # ys"] exI [of _ z]) simp
  qed
qed (auto simp: length_Suc_conv)

lemma bubble_pass_append: "length xs = Suc m \<Longrightarrow> bubble_pass m (xs @ zs) = bubble_pass m xs @ zs"
  by (induction m xs arbitrary: zs rule: bubble_pass.induct) (auto simp: length_Suc_conv)

lemma bubble_sort_mset [simp]: "mset (bubble_sort n xs) = mset xs"
  by (induction n xs rule: bubble_sort.induct) auto

lemma bubble_sort_append: "length xs = Suc n \<Longrightarrow> bubble_sort n (xs @ zs) = bubble_sort n xs @ zs"
proof (induction n arbitrary: xs zs)
  case (Suc n)
  from bubble_pass_last [OF Suc.prems] obtain ys z where z: "bubble_pass (Suc n) xs = ys @ [z]" by blast
  then have l: "length ys = Suc n" using Suc.prems bubble_pass_length [of "Suc n" xs] by simp
  show ?case using Suc.IH [OF l, of "z # zs"] Suc.IH [OF l, of "[z]"] Suc.prems
    by (simp add: bubble_pass_append z)
qed simp

text \<open>So the classes end in the order of falling counts.\<close>

lemma bubble_sorted: "length xs = Suc n \<Longrightarrow> sorted_wrt (\<lambda>x y. snd y \<le> snd x) (bubble_sort n xs)"
proof (induction n arbitrary: xs)
  case 0
  then show ?case by (auto simp: length_Suc_conv)
next
  case (Suc n)
  from bubble_pass_last [OF Suc.prems] obtain ys z where
    z: "bubble_pass (Suc n) xs = ys @ [z]" "\<forall>y\<in>set ys. snd z \<le> snd y" by blast
  then have l: "length ys = Suc n" using Suc.prems bubble_pass_length [of "Suc n" xs] by simp
  have "set (bubble_sort n ys) = set ys" by (metis bubble_sort_mset set_mset_mset)
  with z Suc.IH [OF l] show ?case by (simp add: bubble_sort_append [OF l] sorted_wrt_append)
qed

subsection \<open>Lemmas: the average\<close>

lemma add_class_eq:
  assumes "n < 30" and "\<forall>a\<in>set as. \<bar>a\<bar> \<le> 1000" and "\<bar>t\<bar> \<le> 1000 * int n"
  shows "add_class c as (t, n) =
    (let xs = take (30 - n) (filter (\<lambda>a. angle_class a = c) as) in (t + sum_list xs, n + length xs))"
  using assms
proof (induction c as "(t, n)" arbitrary: t n rule: add_class.induct)
  case (2 c a as t n)
  then have s: "s32 (t + a) = t + a" by (intro s32_id) auto
  have "\<bar>t + a\<bar> \<le> 1000 * int (n + 1)" using 2 by auto
  with 2 s show ?case by (auto simp: Let_def take_Cons' Suc_diff_Suc numeral_eq_Suc)
qed simp

lemma tdiv_between:
  assumes "0 < n" "n * lo \<le> t" "t \<le> n * hi"
  shows "lo \<le> tdiv t n \<and> tdiv t n \<le> hi"
proof (cases "0 \<le> t")
  case True
  with zdiv_mono1 [OF assms(2,1)] zdiv_mono1 [OF assms(3,1)] assms(1) show ?thesis
    by (simp add: tdiv_nonneg)
next
  case False
  then have "tdiv t n = - ((- t) div n)" using assms(1) by (simp add: tdiv_def)
  moreover have e: "(n * x) div n = x" for x using assms(1) by simp
  have "- hi \<le> (- t) div n" "(- t) div n \<le> - lo"
    using zdiv_mono1 [of "n * - hi" "- t" n, unfolded e] zdiv_mono1 [of "- t" "n * - lo" n, unfolded e] assms
    by simp_all
  with calculation show ?thesis by simp
qed

lemma sum_list_between:
  "(\<And>x. x \<in> set xs \<Longrightarrow> lo \<le> x \<and> x \<le> (hi::int)) \<Longrightarrow>
   int (length xs) * lo \<le> sum_list xs \<and> sum_list xs \<le> int (length xs) * hi"
  by (induction xs) (force simp: algebra_simps)+

lemma two_filters: "(\<And>x. x \<in> set xs \<Longrightarrow> \<not> (P x \<and> Q x)) \<Longrightarrow>
   length (filter P xs) + length (filter Q xs) \<le> length xs"
  by (induction xs) auto

text \<open>A class with 30 of fewer than 60 angles comes first.\<close>

lemma majority_first:
  assumes "length as < 60" and "30 \<le> length (filter (\<lambda>a. angle_class a = c) as)" and "c \<in> set (map fst angle_classes)"
  shows "\<exists>cs. map fst (bubble_sort 14 (foldl (\<lambda>cs a. count_point (angle_class a) cs) angle_classes as)) = c # cs"
proof -
  let ?n = "\<lambda>c. length (filter (\<lambda>a. angle_class a = c) as)"
  let ?xs = "foldl (\<lambda>cs a. count_point (angle_class a) cs) angle_classes as"
  have l: "length ?xs = Suc 14"
    using counted [of as, THEN conjunct2, THEN arg_cong, of length] by (simp add: angle_classes_def)
  have st: "set (bubble_sort 14 ?xs) = set ?xs" by (metis bubble_sort_mset set_mset_mset)
  obtain y ys where y: "bubble_sort 14 ?xs = y # ys"
    using l bubble_sort_mset [of 14 ?xs] by (cases "bubble_sort 14 ?xs") auto
  have c: "(c, ?n c) \<in> set (y # ys)" using st y assms(3) counted [of as] by auto
  obtain d where d: "y = (d, ?n d)"
    using st y counted [of as] by (metis (no_types, lifting) imageE list.set_intros(1))
  have "?n c \<le> ?n d" using bubble_sorted [OF l] c by (auto simp: y d)
  moreover have "?n c + ?n d \<le> length as" if "c \<noteq> d" by (rule two_filters) (use that in auto)
  ultimately have "c = d" using assms(1,2) by (cases "c = d") auto
  then show ?thesis by (simp add: y d)
qed

lemma majority_average:
  assumes "length as < 60" and "\<forall>a\<in>set as. \<bar>a\<bar> \<le> 1000" and "c \<in> set (map fst angle_classes)"
    and "30 \<le> length (filter (\<lambda>a. angle_class a = c) as)"
  shows "dmm_CalcAnglesAverage as = tdiv (sum_list (take 30 (filter (\<lambda>a. angle_class a = c) as))) 30 \<and>
    \<bar>dmm_CalcAnglesAverage as - c\<bar> \<le> 5"
proof -
  let ?xs = "take 30 (filter (\<lambda>a. angle_class a = c) as)"
  have add: "add_class c as (0, 0) = (sum_list ?xs, 30)"
    using add_class_eq [of 0 as 0 c] assms(2,4) by (simp add: Let_def)
  obtain cs where cs: "map fst (bubble_sort 14 (foldl (\<lambda>cs a. count_point (angle_class a) cs) angle_classes as)) = c # cs"
    using majority_first [OF assms(1,4,3)] by auto
  have avg: "dmm_CalcAnglesAverage as = tdiv (sum_list ?xs) 30"
    unfolding dmm_CalcAnglesAverage_def Let_def cs by (simp add: add)
  have "c - 5 \<le> x \<and> x \<le> c + 5" if "x \<in> set ?xs" for x
    using that in_set_takeD [OF that] angle_class_near [of x] assms(2) by force
  from sum_list_between [of ?xs, OF this] assms(4)
  have "30 * (c - 5) \<le> sum_list ?xs \<and> sum_list ?xs \<le> 30 * (c + 5)" by simp
  with tdiv_between [of 30 "c - 5" "sum_list ?xs" "c + 5"] avg show ?thesis by auto
qed

subsection \<open>One frame\<close>

text \<open>\<open>cv::Rect\<close> with its intersection (\<open>include/opencv2/core/types.hpp\<close>) and area, and what the frame analysis
  (\<open>ForwardGroupDSM\<close>, a library) reports: the fields of \<open>dmmParam\<close> the modelled code reads.\<close>

record cv_Rect =
  rect_x :: int
  rect_y :: int
  rect_width :: int
  rect_height :: int

definition rect_and :: "cv_Rect \<Rightarrow> cv_Rect \<Rightarrow> cv_Rect" where
  "rect_and a b =
     (let x1 = max (rect_x a) (rect_x b); y1 = max (rect_y a) (rect_y b);
          w = s32 (s32 (min (s32 (rect_x a + rect_width a)) (s32 (rect_x b + rect_width b))) - x1);
          h = s32 (s32 (min (s32 (rect_y a + rect_height a)) (s32 (rect_y b + rect_height b))) - y1)
      in if w \<le> 0 \<or> h \<le> 0 then \<lparr>rect_x = 0, rect_y = 0, rect_width = 0, rect_height = 0\<rparr>
         else \<lparr>rect_x = x1, rect_y = y1, rect_width = w, rect_height = h\<rparr>)"

definition rect_area :: "cv_Rect \<Rightarrow> int" where "rect_area r = s32 (rect_width r * rect_height r)"

record dmmParam =
  detectFace :: bool
  HeadPose1 :: rat
  pfGaze2d1 :: rat
  showFaceRoi :: cv_Rect

definition referROi :: cv_Rect where
  "referROi = \<lparr>rect_x = 390, rect_y = 145, rect_width = 500, rect_height = 375\<rparr>"

datatype GUI_COLOR = GUI_COLOR_RED | GUI_COLOR_GREEN | GUI_COLOR_YELLOW | GUI_COLOR_OTHER

definition face_in_place :: "cv_Rect \<Rightarrow> bool" where
  "face_in_place roi =
     (let interRoi = rect_and referROi roi
      in f64 (f64 (15 / 100) * of_int (rect_area referROi)) < of_int (rect_area interRoi) \<and>
         f64 (f64 (8 / 10) * of_int (rect_area roi)) < of_int (rect_area interRoi))"

text \<open>\<open>dmm_CalibrationPreBody\<close> and \<open>dmm_CalibrationBody\<close> round the angle differently.\<close>

definition pre_colour :: "dmmParam \<Rightarrow> GUI_COLOR" where
  "pre_colour p =
     (let a = s32 (tdiv (s32 (f2s32 (HeadPose1 p) + 5)) 10 * 10)
      in if face_in_place (showFaceRoi p) then if a \<le> 30 \<and> - 30 \<le> a then GUI_COLOR_GREEN else GUI_COLOR_YELLOW
         else GUI_COLOR_RED)"

definition calib_colour :: "dmmParam \<Rightarrow> GUI_COLOR" where
  "calib_colour p =
     (let a = f2s32 (HeadPose1 p); d = s32 (a + (if 0 < a then 5 else - 5));
          e = f2s32 (f64 (f64 (f64 (of_int d + 5 / 2 * (if 0 < d then 1 else - 1)) / 10) * 10))
      in if face_in_place (showFaceRoi p) then if - 30 \<le> e \<and> e \<le> 30 then GUI_COLOR_GREEN else GUI_COLOR_YELLOW
         else GUI_COLOR_RED)"

definition M_PI :: rat where "M_PI = f64 (314159265358979323846 / 100000000000000000000)"

definition center_angle :: "dmmParam \<Rightarrow> int" where "center_angle p = f2s32 (HeadPose1 p)"

definition pitch_angle :: "dmmParam \<Rightarrow> int" where
  "pitch_angle p = f2s32 (f64 (pfGaze2d1 p * f64 (180 / M_PI)))"

text \<open>The locals of \<open>dmm_CalibrationBody\<close>: the colour in \<open>stGuiFace\<close>, which is neither initialised nor reset, and
  the first \<open>u32SampleCnt\<close> entries of the two sample arrays, which have room for 55.\<close>

record calib_local =
  colour :: GUI_COLOR
  samples :: "(int \<times> int) list"

datatype calib_result = Calib_Continue | Calib_Overrun | Calib_Averages int int

definition DMM_SAMPLE_NUM :: nat where "DMM_SAMPLE_NUM = 55"

text \<open>\<open>elapsed\<close> is the number of seconds since the body was entered.\<close>

definition calib_frame :: "int \<Rightarrow> dmmParam \<Rightarrow> calib_local \<Rightarrow> calib_local \<times> calib_result" where
  "calib_frame elapsed p c =
     (let c = (if detectFace p then c\<lparr>colour := calib_colour p\<rparr> else c)
      in if colour c \<noteq> GUI_COLOR_GREEN \<and> colour c \<noteq> GUI_COLOR_YELLOW then (c, Calib_Continue)
         else if elapsed < 2 then (c, Calib_Continue)
         else if DMM_SAMPLE_NUM \<le> length (samples c) then (c, Calib_Overrun)
         else let c = c\<lparr>samples := samples c @ [(center_angle p, pitch_angle p)]\<rparr>
           in if length (samples c) < DMM_SAMPLE_NUM then (c, Calib_Continue)
              else let s32CenterAverage = dmm_CalcAnglesAverage (map fst (samples c));
                       s32PitchAverage = dmm_CalcAnglesAverage (map snd (samples c))
                in if s32CenterAverage = - 1000 \<or> s32PitchAverage = - 1000
                   then (c\<lparr>samples := []\<rparr>, Calib_Continue)
                   else (c, Calib_Averages s32CenterAverage s32PitchAverage))"

fun calib_frames :: "(int \<times> dmmParam) list \<Rightarrow> calib_local \<Rightarrow> calib_local \<times> calib_result" where
  "calib_frames [] c = (c, Calib_Continue)"
| "calib_frames ((t, p) # ps) c =
     (case calib_frame t p c of (c', Calib_Continue) \<Rightarrow> calib_frames ps c' | r \<Rightarrow> r)"

subsection \<open>Lemmas: one frame\<close>

lemma calib_frame_samples:
  assumes "length (samples c) < 55"
  shows "snd (calib_frame t p c) \<noteq> Calib_Overrun \<and>
    (snd (calib_frame t p c) = Calib_Continue \<longrightarrow> length (samples (fst (calib_frame t p c))) < 55)"
  using assms by (auto simp: calib_frame_def Let_def DMM_SAMPLE_NUM_def)

lemma faceless_frames:
  assumes "\<not> detectFace g" and "colour c = GUI_COLOR_GREEN \<or> colour c = GUI_COLOR_YELLOW"
    and "length (samples c) + n < 55"
  shows "calib_frames (replicate n (2, g)) c =
    (c\<lparr>samples := samples c @ replicate n (center_angle g, pitch_angle g)\<rparr>, Calib_Continue)"
  using assms(2,3)
proof (induction n arbitrary: c)
  case (Suc n)
  have "calib_frame 2 g c = (c\<lparr>samples := samples c @ [(center_angle g, pitch_angle g)]\<rparr>, Calib_Continue)"
    using Suc.prems assms(1) by (auto simp: calib_frame_def Let_def DMM_SAMPLE_NUM_def)
  with Suc.IH [of "c\<lparr>samples := samples c @ [(center_angle g, pitch_angle g)]\<rparr>"] Suc.prems
  show ?case by simp
qed simp

lemma calib_frames_append: "calib_frames (ps @ qs) c =
   (case calib_frames ps c of (c', Calib_Continue) \<Rightarrow> calib_frames qs c' | r \<Rightarrow> r)"
  by (induction ps c rule: calib_frames.induct) (auto split: prod.splits calib_result.splits)

lemma angle_class_listed:
  assumes "\<bar>a\<bar> \<le> 60"
  shows "angle_class a \<in> set (map fst angle_classes)"
proof -
  define q where "q = (if 0 < a then (a + 5) div 10 else - ((5 - a) div 10))"
  have "angle_class a = q * 10" using assms angle_class_eq [of a] by (simp add: q_def)
  moreover have "q \<in> {-6, -5, -4, -3, -2, -1, 0, 1, 2, 3, 4, 5, 6}"
  proof -
    have "- 6 \<le> q \<and> q \<le> 6" using assms by (auto simp: q_def)
    then show ?thesis by (simp; presburger)
  qed
  ultimately show ?thesis by (auto simp: angle_classes_def)
qed

lemma one_wild_sample:
  assumes "\<bar>x\<bar> \<le> 1000" "\<bar>a\<bar> \<le> 60"
  shows "dmm_CalcAnglesAverage (x # replicate 54 a) \<noteq> - 1000 \<and>
    \<bar>dmm_CalcAnglesAverage (x # replicate 54 a) - angle_class a\<bar> \<le> 5"
proof -
  have "\<bar>dmm_CalcAnglesAverage (x # replicate 54 a) - angle_class a\<bar> \<le> 5"
    by (rule majority_average [THEN conjunct2])
      (use assms angle_class_listed [OF assms(2)] in auto)
  moreover have "\<bar>angle_class a - a\<bar> \<le> 5" using angle_class_near [of a] assms by simp
  ultimately show ?thesis using assms(2) by auto
qed

subsection \<open>Properties\<close>

text \<open>C29: the average is robust: when 30 of the samples fall into one ten-degree class, the result is the
  average of the first 30 of them and within five degrees of the class, however wild the other samples are;
  with the 55 samples the calibration takes, no other class can then outweigh it.\<close>

theorem calibration_average_robust:
  assumes "length as < 60" and "\<forall>a\<in>set as. \<bar>a\<bar> \<le> 1000" and "c \<in> set (map fst angle_classes)"
    and "30 \<le> length (filter (\<lambda>a. angle_class a = c) as)"
  shows "dmm_CalcAnglesAverage as = tdiv (sum_list (take 30 (filter (\<lambda>a. angle_class a = c) as))) 30 \<and>
    \<bar>dmm_CalcAnglesAverage as - c\<bar> \<le> 5"
  using assms by (rule majority_average)

theorem calibration_average_robust_witness:
  "dmm_CalcAnglesAverage (replicate 30 12 @ replicate 25 (- 60)) = 12"
proof -
  have c: "angle_class 12 = 10" "angle_class (- 60) = - 60"
    by (simp_all add: angle_class_def tdiv_def s32_id)
  have "10 \<in> set (map fst angle_classes)" by (simp add: angle_classes_def)
  with calibration_average_robust [of "replicate 30 12 @ replicate 25 (- 60)" 10]
  show ?thesis by (simp add: c sum_list_replicate tdiv_def)
qed

text \<open> the calibration counts frames without a face: after one frame with a face in place, 54 frames in
  which no face is detected complete the 55 samples, and the result is the angle those frames happen to carry.\<close>

theorem calibration_without_face:
  assumes "detectFace f" "calib_colour f \<noteq> GUI_COLOR_RED" and "\<not> detectFace g"
    and "\<bar>center_angle f\<bar> \<le> 1000" "\<bar>center_angle g\<bar> \<le> 60" "\<bar>pitch_angle f\<bar> \<le> 1000" "\<bar>pitch_angle g\<bar> \<le> 60"
  shows "\<exists>c ca pa. calib_frames ((2, f) # replicate 54 (2, g)) \<lparr>colour = GUI_COLOR_OTHER, samples = []\<rparr> =
      (c, Calib_Averages ca pa) \<and> \<bar>ca - angle_class (center_angle g)\<bar> \<le> 5 \<and> \<bar>pa - angle_class (pitch_angle g)\<bar> \<le> 5"
proof -
  have col: "calib_colour f = GUI_COLOR_GREEN \<or> calib_colour f = GUI_COLOR_YELLOW"
    using assms(2) by (auto simp: calib_colour_def Let_def split: if_splits)
  define c1 where "c1 = \<lparr>colour = calib_colour f, samples = [(center_angle f, pitch_angle f)]\<rparr>"
  define c2 where "c2 = c1\<lparr>samples := samples c1 @ replicate 53 (center_angle g, pitch_angle g)\<rparr>"
  have "calib_frame 2 f \<lparr>colour = GUI_COLOR_OTHER, samples = []\<rparr> = (c1, Calib_Continue)"
    using assms(1) col by (auto simp: calib_frame_def c1_def DMM_SAMPLE_NUM_def Let_def)
  moreover have "calib_frames (replicate 53 (2, g)) c1 = (c2, Calib_Continue)"
    unfolding c2_def by (rule faceless_frames [OF assms(3)]) (use col in \<open>simp_all add: c1_def\<close>)
  moreover obtain ca pa where "calib_frame 2 g c2 =
      (c2\<lparr>samples := samples c2 @ [(center_angle g, pitch_angle g)]\<rparr>, Calib_Averages ca pa)"
    "\<bar>ca - angle_class (center_angle g)\<bar> \<le> 5" "\<bar>pa - angle_class (pitch_angle g)\<bar> \<le> 5"
    using one_wild_sample [OF assms(4,5)] one_wild_sample [OF assms(6,7)] col assms(3)
    by (simp add: calib_frame_def c2_def c1_def DMM_SAMPLE_NUM_def Let_def replicate_append_same
        flip: replicate_Suc)
  ultimately show ?thesis
    using calib_frames_append [of "replicate 53 (2, g)" "[(2, g)]" c1]
    by (simp add: replicate_append_same flip: replicate_Suc)
qed

definition centred_face :: dmmParam where
  "centred_face = \<lparr>detectFace = True, HeadPose1 = 0, pfGaze2d1 = 0, showFaceRoi = referROi\<rparr>"

lemma centred_face_in_place: "face_in_place referROi"
proof -
  have a: "rect_and referROi referROi = referROi" by (simp add: rect_and_def referROi_def s32_id Let_def)
  have b: "rect_area referROi = 187500" by (simp add: rect_area_def referROi_def s32_id)
  have "f64 (f64 (15 / 100) * 187500) < 187500" "f64 (f64 (8 / 10) * 187500) < 187500"
    by (code_simp, code_simp)
  then show ?thesis by (simp add: face_in_place_def Let_def a b)
qed

theorem calibration_without_face_witness:
  "\<exists>c ca pa. calib_frames ((2, centred_face) # replicate 54 (2, centred_face\<lparr>detectFace := False\<rparr>))
      \<lparr>colour = GUI_COLOR_OTHER, samples = []\<rparr> = (c, Calib_Averages ca pa)"
proof -
  have z: "center_angle centred_face = 0" "pitch_angle centred_face = 0"
    "center_angle (centred_face\<lparr>detectFace := False\<rparr>) = 0" "pitch_angle (centred_face\<lparr>detectFace := False\<rparr>) = 0"
    by (simp_all add: center_angle_def pitch_angle_def centred_face_def f2s32_def rtrunc_def)
  have "calib_colour centred_face \<noteq> GUI_COLOR_RED"
    using centred_face_in_place by (simp add: calib_colour_def Let_def centred_face_def)
  with calibration_without_face [of centred_face "centred_face\<lparr>detectFace := False\<rparr>"] z
  show ?thesis by (simp add: centred_face_def) blast
qed

end
