(* ===== verification/Dmm_Run.thy ===== *)
theory Dmm_Run
  imports Dmm_Calibration
begin

section \<open>Run modes of the driver monitor (dmm/dmm.cpp)\<close>

text \<open>
  The driver monitor has one thread, \<open>dmm_alg_Body\<close>, which runs the body of the current mode
  (\<open>enRunStat\<close>): detection, the two calibration modes, registering a face, recognising a face, and comparing
  drivers.  Each body is a loop that ends when the mode is not its own any more.  The message thread changes the
  mode (\<open>DMM_SetRunStatus\<close>) and waits for the result (\<open>enRunResult\<close>).  A step of the thread is the part
  of a loop round up to the frame (\<open>head\<close>), the rest of the round (\<open>tail\<close>), or the write of the mode that
  recognition and comparison make on their own after they wrote the result; between two steps the message thread can run.
\<close>

subsection \<open>State\<close>

datatype DMM_RUN_E = DMM_RUN_INIT | DMM_RUN_IDEL | DMM_RUN_CALIBRATION_PRE | DMM_RUN_CALIBRATION | DMM_RUN_REGISTER
  | DMM_RUN_RECOGNITION | DMM_RUN_DETECTION | DMM_RUN_CHANGE_DRIVER | DMM_RUN_BUTT

datatype DMM_RES_E = DMM_RES_SUCCESS | DMM_RES_RUNNING | DMM_RES_FAILURE | DMM_RES_TIMEOUT | DMM_RES_BUTT

text \<open>The alarms and announcements of \<open>ALARM_TYPE_E\<close>, a header outside of the repository, that the code names.\<close>

datatype ALARM_TYPE_E = ALARM_NOTHING | ALARM_FATIGUE | ALARM_DISTRACTION | ALARM_NO_DRIVER | ALARM_SMOKE | ALARM_PHONE
  | ALARM_YAWN | ALARM_NO_MASK | ALARM_SUNGLASS | ALARM_NO_SEATBELT | ALARM_SHELTER | ALARM_FATIGUE_L2 | ALARM_DRINK_EAT
  | ALARM_OVERSPEED | ALARM_NO_HELMET | NOTIFY_LNGIN_FAILED | NOTIFY_LNGIN_SUCCESS | NOTIFY_LNGIN_TIMEOUT
  | NOTIFY_LNGIN_CHANGE_GUARD | NOTIFY_LOGIN_START | NOTIFY_REGISTER_START | NOTIFY_REGISTRE_SUCCESS
  | NOTIFY_CALIBRATION_START | NOTIFY_CALIBRATION_SUCCESS | NOTIFY_CALIBRATION_TOOLEFT | NOTIFY_CALIBRATION_TOORIGHT

text \<open>What the thread sends: sounds, alarm outputs, alarm events with the user, and drawings.\<close>

datatype dmm_out = Play ALARM_TYPE_E | Post ALARM_TYPE_E | Event ALARM_TYPE_E string | Gui_Alarm ALARM_TYPE_E
  | Gui_Face GUI_COLOR | Gui_Rect GUI_COLOR | Gui_Clear | Bar string rat bool | Dump string

datatype phase = At_Top | At_Head DMM_RUN_E | At_Tail DMM_RUN_E | Finishing DMM_RUN_E | Deadlocked | Overrun | Ended

text \<open>The locals of the detection body that decide when to recognise the driver.\<close>

record login_local =
  bAngleOut :: bool
  bStartDetAngle :: bool
  u32CorrectAngleCnt :: int
  u32FaceDetectTimeMs :: int
  u32NoFaceTimeMs :: int
  bCreareNoface :: bool

definition login_init :: login_local where
  "login_init = \<lparr>bAngleOut = False, bStartDetAngle = False, u32CorrectAngleCnt = 0, u32FaceDetectTimeMs = 0,
     u32NoFaceTimeMs = 0, bCreareNoface = False\<rparr>"

text \<open>\<open>m_stDmmInfo\<close>, the lock of the computing resource as far as this thread holds it, and the locals of the
  thread.  \<open>u8UsrName\<close> is the user in the dump data, empty when it was cleared; \<open>cfg_calibrated\<close> the stored
  centre and pitch angles (\<open>bDmsCalibrated\<close>, \<open>s32DmsCenterAngle\<close>, \<open>s32DmsPitchAngle\<close> of the configuration), while
  \<open>s32DmsCenterAngle\<close> is the copy in \<open>m_stDmmInfo\<close>.\<close>

record dmm_info =
  bRunning :: bool
  enRunStat :: DMM_RUN_E
  enRunResult :: DMM_RES_E
  bFirstFace :: bool
  bPlayLoginAudio :: bool
  bImageMirror :: bool
  s32DmsCenterAngle :: int
  cfg_calibrated :: "(int \<times> int) option"
  u8UsrName :: string
  calc_locked :: bool
  phase :: phase
  t_enter :: int
  t_now :: int
  calib :: calib_local
  login :: login_local
  s32Progress :: int
  sent :: "dmm_out list"

definition send :: "dmm_out list \<Rightarrow> dmm_info \<Rightarrow> dmm_info" where
  "send xs s = s\<lparr>sent := sent s @ xs\<rparr>"

text \<open>The answers of the system and of the libraries in one step: the clock in seconds, whether \<open>mmap\<close>, the
  lock, the semaphore and the inference succeed, the frame, and what the face recognition says of it; \<open>gps_ok\<close>: the
  detection round takes a frame (the GPS data was read and no overspeed alarm was raised, see \<open>Dmm_Detect\<close>).\<close>

record tick =
  tv :: int
  mmap_ok :: bool
  lock_ok :: bool
  sem_ok :: bool
  fwd_ok :: bool
  frame :: dmmParam
  feature_val :: bool
  fProgress :: rat
  fr_id :: int
  fr_user :: string
  fr_match :: int
  gps_ok :: bool
  step_ms :: int
  alarm_last :: ALARM_TYPE_E

datatype DMS_LOGIN = E_LOGIN_OFF | E_LOGIN_BOOT | E_LOGIN_AUTO

text \<open>\<open>fr_board\<close>: the boards with face recognition on a timer (\<open>BOARD_DMS31V2\<close>, \<open>BOARD_ADA47V1\<close>); \<open>creare\<close>: the
  customer; \<open>dms_channel\<close>: not an ADA42 board whose second channel runs another algorithm.\<close>

record dmm_cfg =
  fr_board :: bool
  creare :: bool
  dms_channel :: bool
  s32DmsFrInterval :: int
  s32ChangeGuardInterval :: int
  enDmsLoginMode :: DMS_LOGIN

subsection \<open>Entering and leaving a body\<close>

definition enter_body :: "tick \<Rightarrow> DMM_RUN_E \<Rightarrow> dmm_info \<Rightarrow> dmm_info" where
  "enter_body t m s =
     (if \<not> mmap_ok t then s
      else let s = s\<lparr>phase := At_Head m, t_enter := tv t, s32Progress := 0\<rparr>
        in case m of
            DMM_RUN_CALIBRATION \<Rightarrow> send [Play NOTIFY_CALIBRATION_START] (s\<lparr>calib := \<lparr>colour = GUI_COLOR_OTHER, samples = []\<rparr>\<rparr>)
          | DMM_RUN_REGISTER \<Rightarrow> send [Bar ''REGISTER'' 0 False, Play NOTIFY_REGISTER_START] s
          | DMM_RUN_RECOGNITION \<Rightarrow>
              send (Bar ''LOGIN'' 0 False # (if bPlayLoginAudio s then [Play NOTIFY_LOGIN_START] else []))
                (s\<lparr>bFirstFace := False, u8UsrName := []\<rparr>)
          | DMM_RUN_DETECTION \<Rightarrow> s\<lparr>login := login_init\<rparr>
          | _ \<Rightarrow> s)"

definition login_alarm :: "DMM_RES_E \<Rightarrow> ALARM_TYPE_E" where
  "login_alarm r = (if r = DMM_RES_SUCCESS then NOTIFY_LNGIN_SUCCESS
     else if r = DMM_RES_TIMEOUT then NOTIFY_LNGIN_TIMEOUT else NOTIFY_LNGIN_FAILED)"

definition leave_body :: "DMM_RUN_E \<Rightarrow> dmm_info \<Rightarrow> dmm_info" where
  "leave_body m s =
     (let s = s\<lparr>phase := At_Top\<rparr>
      in case m of
          DMM_RUN_CALIBRATION_PRE \<Rightarrow> if enRunStat s \<noteq> DMM_RUN_CALIBRATION then send [Gui_Clear] s else s
        | DMM_RUN_CALIBRATION \<Rightarrow> send [Gui_Clear] s
        | DMM_RUN_REGISTER \<Rightarrow> send [Bar ''REGISTER'' 0 True] s
        | DMM_RUN_RECOGNITION \<Rightarrow>
            let a = login_alarm (enRunResult s)
            in send ((if a \<noteq> NOTIFY_LNGIN_SUCCESS then [Post NOTIFY_LNGIN_FAILED] else []) @
                 [Event a (u8UsrName s), Bar ''LOGIN'' 0 True]) s
        | DMM_RUN_CHANGE_DRIVER \<Rightarrow>
            (case enRunResult s of
               DMM_RES_FAILURE \<Rightarrow> send [Event NOTIFY_LNGIN_CHANGE_GUARD (u8UsrName s), Gui_Alarm NOTIFY_LNGIN_CHANGE_GUARD] s
             | DMM_RES_TIMEOUT \<Rightarrow> send [Event NOTIFY_LNGIN_TIMEOUT (u8UsrName s), Gui_Alarm NOTIFY_LNGIN_TIMEOUT] s
             | _ \<Rightarrow> s\<lparr>bFirstFace := False\<rparr>)
        | DMM_RUN_DETECTION \<Rightarrow> if bRunning s then send [Gui_Clear] s else s
        | _ \<Rightarrow> s)"

subsection \<open>The head of a round\<close>

text \<open>The lock, the semaphore and the inference.  The mutex is not recursive: locking it again blocks for good.
  Register, recognition and comparison do not unlock when the semaphore fails.\<close>

definition keeps_lock :: "DMM_RUN_E \<Rightarrow> bool" where
  "keeps_lock m \<longleftrightarrow> m = DMM_RUN_REGISTER \<or> m = DMM_RUN_RECOGNITION \<or> m = DMM_RUN_CHANGE_DRIVER"

definition frame_gate :: "tick \<Rightarrow> DMM_RUN_E \<Rightarrow> dmm_info \<Rightarrow> dmm_info" where
  "frame_gate t m s =
     (if calc_locked s then s\<lparr>phase := Deadlocked\<rparr>
      else if \<not> lock_ok t then s
      else if \<not> sem_ok t then s\<lparr>calc_locked := keeps_lock m\<rparr>
      else if \<not> fwd_ok t then s
      else s\<lparr>phase := At_Tail m\<rparr>)"

text \<open>The seconds a mode may take; pre-calibration goes on with the round after it gave up.\<close>

fun run_limit :: "DMM_RUN_E \<Rightarrow> int option" where
  "run_limit DMM_RUN_CALIBRATION = Some 12"
| "run_limit DMM_RUN_REGISTER = Some 10"
| "run_limit DMM_RUN_RECOGNITION = Some 10"
| "run_limit DMM_RUN_CHANGE_DRIVER = Some 30"
| "run_limit _ = None"

definition run_timeout :: "DMM_RUN_E \<Rightarrow> dmm_info \<Rightarrow> dmm_info" where
  "run_timeout m s =
     (let s = (if m = DMM_RUN_RECOGNITION
               then send ((if bPlayLoginAudio s then [Play NOTIFY_LNGIN_FAILED] else []) @ [Dump (u8UsrName s)]) s else s)
      in s\<lparr>enRunStat := DMM_RUN_DETECTION,
           enRunResult := if m = DMM_RUN_REGISTER then DMM_RES_FAILURE else DMM_RES_TIMEOUT\<rparr>)"

definition body_head :: "tick \<Rightarrow> DMM_RUN_E \<Rightarrow> dmm_info \<Rightarrow> dmm_info" where
  "body_head t m s =
     (let s = s\<lparr>t_now := tv t\<rparr>
      in if \<not> bRunning s \<or> enRunStat s \<noteq> m then leave_body m s
         else case run_limit m of
             Some l \<Rightarrow> if l < tv t - t_enter s then run_timeout m s else frame_gate t m s
           | None \<Rightarrow>
               if m = DMM_RUN_DETECTION \<and> \<not> gps_ok t then s
               else frame_gate t m (if m = DMM_RUN_CALIBRATION_PRE \<and> t_enter s + 180 < tv t
                 then s\<lparr>enRunStat := DMM_RUN_DETECTION\<rparr> else s))"

subsection \<open>The tail of a round\<close>

definition DMM_MAX_ANGLE :: int where "DMM_MAX_ANGLE = 35"
definition DMM_MIN_ANGLE :: int where "DMM_MIN_ANGLE = - 35"

definition draw_face :: "(dmmParam \<Rightarrow> GUI_COLOR) \<Rightarrow> dmmParam \<Rightarrow> dmm_out list" where
  "draw_face col p = [if detectFace p then Gui_Face (col p) else Gui_Rect GUI_COLOR_RED]"

definition pre_tail :: "tick \<Rightarrow> dmm_info \<Rightarrow> dmm_info" where
  "pre_tail t s = send (draw_face pre_colour (frame t)) (s\<lparr>phase := At_Head DMM_RUN_CALIBRATION_PRE\<rparr>)"

definition calib_verdict :: "int \<Rightarrow> int \<Rightarrow> dmm_info \<Rightarrow> dmm_info" where
  "calib_verdict center pitch s =
     (if center < DMM_MIN_ANGLE then
        send [Play (if bImageMirror s then NOTIFY_CALIBRATION_TOORIGHT else NOTIFY_CALIBRATION_TOOLEFT)]
          (s\<lparr>enRunStat := DMM_RUN_CALIBRATION_PRE, enRunResult := DMM_RES_FAILURE\<rparr>)
      else if DMM_MAX_ANGLE < center then
        send [Play (if bImageMirror s then NOTIFY_CALIBRATION_TOOLEFT else NOTIFY_CALIBRATION_TOORIGHT)]
          (s\<lparr>enRunStat := DMM_RUN_CALIBRATION_PRE, enRunResult := DMM_RES_FAILURE\<rparr>)
      else
        send [Play NOTIFY_CALIBRATION_SUCCESS]
          (s\<lparr>cfg_calibrated := Some (center, pitch), s32DmsCenterAngle := center,
             enRunStat := DMM_RUN_DETECTION, enRunResult := DMM_RES_SUCCESS\<rparr>))"

definition calib_tail :: "tick \<Rightarrow> dmm_info \<Rightarrow> dmm_info" where
  "calib_tail t s =
     (let (c, r) = calib_frame (t_now s - t_enter s) (frame t) (calib s);
          s = send (draw_face calib_colour (frame t)) (s\<lparr>phase := At_Head DMM_RUN_CALIBRATION, calib := c\<rparr>)
      in case r of Calib_Continue \<Rightarrow> s
         | Calib_Overrun \<Rightarrow> s\<lparr>phase := Overrun\<rparr>
         | Calib_Averages center pitch \<Rightarrow> calib_verdict center pitch s)"

definition progress_percent :: "rat \<Rightarrow> int" where "progress_percent f = f2s32 (f32 (f * 100))"

definition register_tail :: "tick \<Rightarrow> dmm_info \<Rightarrow> dmm_info" where
  "register_tail t s =
     (let s = s\<lparr>phase := At_Head DMM_RUN_REGISTER\<rparr>;
          s = (if feature_val t then send [Bar ''REGISTER'' (fProgress t) False] (s\<lparr>s32Progress := progress_percent (fProgress t)\<rparr>)
               else s)
      in if 100 \<le> s32Progress s then
           send [Play NOTIFY_REGISTRE_SUCCESS] (s\<lparr>enRunStat := DMM_RUN_DETECTION, enRunResult := DMM_RES_SUCCESS\<rparr>)
         else s)"

definition recognition_tail :: "tick \<Rightarrow> dmm_info \<Rightarrow> dmm_info" where
  "recognition_tail t s =
     (let s = s\<lparr>phase := At_Head DMM_RUN_RECOGNITION\<rparr>;
          s = (if feature_val t then send [Bar ''LOGIN'' (fProgress t) False] (s\<lparr>s32Progress := progress_percent (fProgress t)\<rparr>)
               else s)
      in if 100 \<le> s32Progress s then
           let s = s\<lparr>phase := Finishing DMM_RUN_RECOGNITION\<rparr>;
               s = (if 0 < fr_id t then
                      send (if bPlayLoginAudio s then [Play NOTIFY_LNGIN_SUCCESS] else [])
                        (s\<lparr>enRunResult := DMM_RES_SUCCESS, u8UsrName := fr_user t\<rparr>)
                    else send (if bPlayLoginAudio s then [Play NOTIFY_LNGIN_FAILED] else []) (s\<lparr>enRunResult := DMM_RES_FAILURE\<rparr>))
           in send [Dump (u8UsrName s)] s
         else s)"

definition change_tail :: "tick \<Rightarrow> dmm_info \<Rightarrow> dmm_info" where
  "change_tail t s =
     (let s = s\<lparr>phase := At_Head DMM_RUN_CHANGE_DRIVER\<rparr>;
          s = (if feature_val t then s\<lparr>s32Progress := progress_percent (fProgress t)\<rparr> else s)
      in if 100 \<le> s32Progress s then
           s\<lparr>phase := Finishing DMM_RUN_CHANGE_DRIVER,
             enRunResult := if fr_match t = 0 then DMM_RES_SUCCESS else DMM_RES_FAILURE\<rparr>
         else s)"

text \<open>The part of a detection round that may change the mode: \<open>L_Leave\<close> and \<open>L_Wait\<close> skip the alarm.\<close>

datatype login_branch = L_Submit | L_Leave | L_Wait

definition DMM_NO_FACE_TIME_MS :: int where "DMM_NO_FACE_TIME_MS = 10000"

definition count_angle :: "int \<Rightarrow> dmmParam \<Rightarrow> login_local \<Rightarrow> login_local" where
  "count_angle center p l =
     (if detectFace p then
        let cnt = (if 30 \<le> \<bar>f32 (HeadPose1 p - f32 (of_int center))\<bar> then 0 else u32 (u32CorrectAngleCnt l + 1))
        in l\<lparr>u32CorrectAngleCnt := cnt, bAngleOut := \<not> 3 \<le> cnt\<rparr>
      else l\<lparr>u32CorrectAngleCnt := 0\<rparr>)"

definition fr_timer :: "dmm_cfg \<Rightarrow> int \<Rightarrow> login_local \<Rightarrow> login_local" where
  "fr_timer cfg step l =
     (let l = l\<lparr>u32FaceDetectTimeMs := u32 (u32FaceDetectTimeMs l + step)\<rparr>
      in if 0 < s32DmsFrInterval cfg \<and> u32 (s32DmsFrInterval cfg * 1000) < u32FaceDetectTimeMs l then
           if bStartDetAngle l then l else l\<lparr>bStartDetAngle := True, u32CorrectAngleCnt := 0, bAngleOut := True\<rparr>
         else l\<lparr>bStartDetAngle := False\<rparr>)"

definition no_face_timer :: "dmmParam \<Rightarrow> int \<Rightarrow> login_local \<Rightarrow> login_local" where
  "no_face_timer p step l =
     (if \<not> bCreareNoface l \<and> \<not> detectFace p then
        let n = u32 (u32NoFaceTimeMs l + step)
        in l\<lparr>u32NoFaceTimeMs := n, bCreareNoface := DMM_NO_FACE_TIME_MS \<le> n\<rparr>
      else if detectFace p then l\<lparr>u32NoFaceTimeMs := 0\<rparr> else l)"

definition login_auto :: "dmm_cfg \<Rightarrow> tick \<Rightarrow> dmm_info \<Rightarrow> dmm_info \<times> login_branch" where
  "login_auto cfg t s =
     (if enDmsLoginMode cfg = E_LOGIN_AUTO \<and> detectFace (frame t) \<and>
          (bFirstFace s \<or> alarm_last t = ALARM_NO_DRIVER \<or> alarm_last t = ALARM_SHELTER) then
        if \<not> bAngleOut (login s) then (s\<lparr>enRunStat := DMM_RUN_RECOGNITION, bPlayLoginAudio := True\<rparr>, L_Leave)
        else (s, L_Wait)
      else (s, L_Submit))"

definition login_check :: "dmm_cfg \<Rightarrow> tick \<Rightarrow> dmm_info \<Rightarrow> dmm_info \<times> login_branch" where
  "login_check cfg t s =
     (let s = s\<lparr>login := count_angle (s32DmsCenterAngle s) (frame t) (login s)\<rparr>
      in if \<not> fr_board cfg then login_auto cfg t s
         else let s = s\<lparr>login := fr_timer cfg (step_ms t) (login s)\<rparr>
           in if bStartDetAngle (login s) \<and> \<not> bAngleOut (login s) then
                (s\<lparr>enRunStat := DMM_RUN_RECOGNITION, bPlayLoginAudio := False\<rparr>, L_Leave)
              else if creare cfg \<and> 0 \<le> s32ChangeGuardInterval cfg then
                if detectFace (frame t) \<and> bFirstFace s then (s\<lparr>enRunStat := DMM_RUN_CHANGE_DRIVER\<rparr>, L_Leave)
                else let s = s\<lparr>login := no_face_timer (frame t) (step_ms t) (login s)\<rparr>
                  in if bCreareNoface (login s) \<and> detectFace (frame t) then
                       (s\<lparr>enRunStat := DMM_RUN_CHANGE_DRIVER, login := (login s)\<lparr>bCreareNoface := False\<rparr>\<rparr>, L_Leave)
                     else login_auto cfg t s
              else login_auto cfg t s)"

subsection \<open>The thread and the calls of the message thread\<close>

definition thread_top :: "dmm_cfg \<Rightarrow> tick \<Rightarrow> dmm_info \<Rightarrow> dmm_info" where
  "thread_top cfg t s =
     (if \<not> bRunning s then s\<lparr>phase := Ended\<rparr>
      else if \<not> dms_channel cfg then s
      else case enRunStat s of
          DMM_RUN_INIT \<Rightarrow> s | DMM_RUN_IDEL \<Rightarrow> s | DMM_RUN_BUTT \<Rightarrow> s
        | m \<Rightarrow> enter_body t m s)"

definition body_tail :: "dmm_cfg \<Rightarrow> tick \<Rightarrow> DMM_RUN_E \<Rightarrow> dmm_info \<Rightarrow> dmm_info" where
  "body_tail cfg t m s =
     (case m of
         DMM_RUN_CALIBRATION_PRE \<Rightarrow> pre_tail t s
       | DMM_RUN_CALIBRATION \<Rightarrow> calib_tail t s
       | DMM_RUN_REGISTER \<Rightarrow> register_tail t s
       | DMM_RUN_RECOGNITION \<Rightarrow> recognition_tail t s
       | DMM_RUN_CHANGE_DRIVER \<Rightarrow> change_tail t s
       | _ \<Rightarrow> (fst (login_check cfg t s))\<lparr>phase := At_Head m\<rparr>)"

definition dmm_alg_Body :: "dmm_cfg \<Rightarrow> tick \<Rightarrow> dmm_info \<Rightarrow> dmm_info" where
  "dmm_alg_Body cfg t s =
     (case phase s of
         At_Top \<Rightarrow> thread_top cfg t s
       | At_Head m \<Rightarrow> body_head t m s
       | At_Tail m \<Rightarrow> body_tail cfg t m s
       | Finishing m \<Rightarrow> s\<lparr>enRunStat := DMM_RUN_DETECTION, phase := At_Head m\<rparr>
       | _ \<Rightarrow> s)"

definition DMM_SetRunStatus :: "DMM_RUN_E \<Rightarrow> dmm_info \<Rightarrow> dmm_info" where
  "DMM_SetRunStatus m s =
     (let s = (if m = DMM_RUN_CALIBRATION \<or> m = DMM_RUN_REGISTER \<or> m = DMM_RUN_RECOGNITION
               then s\<lparr>enRunResult := DMM_RES_RUNNING\<rparr> else s);
          s = s\<lparr>enRunStat := m\<rparr>
      in if m = DMM_RUN_RECOGNITION then s\<lparr>bPlayLoginAudio := True\<rparr> else s)"

text \<open>\<open>DMM_Init\<close> clears \<open>m_stDmmInfo\<close> (so \<open>s32DmsCenterAngle\<close> is 0, whatever the configuration has), sets
  \<open>bFirstFace\<close> and copies the configuration; \<open>DMM_Start\<close> starts the thread.\<close>

definition DMM_Init :: "bool \<Rightarrow> (int \<times> int) option \<Rightarrow> dmm_info" where
  "DMM_Init mirror stored =
     \<lparr>bRunning = False, enRunStat = DMM_RUN_INIT, enRunResult = DMM_RES_SUCCESS, bFirstFace = True,
      bPlayLoginAudio = False, bImageMirror = mirror, s32DmsCenterAngle = 0, cfg_calibrated = stored, u8UsrName = [],
      calc_locked = False, phase = At_Top, t_enter = 0, t_now = 0,
      calib = \<lparr>colour = GUI_COLOR_OTHER, samples = []\<rparr>, login = login_init, s32Progress = 0, sent = []\<rparr>"

definition DMM_Start :: "dmm_cfg \<Rightarrow> dmm_info \<Rightarrow> dmm_info" where
  "DMM_Start cfg s =
     (let s = s\<lparr>enRunStat := DMM_RUN_DETECTION\<rparr>;
          s = (if enDmsLoginMode cfg \<noteq> E_LOGIN_OFF then
                 let s = s\<lparr>bPlayLoginAudio := True\<rparr>
                 in if enDmsLoginMode cfg = E_LOGIN_BOOT then s\<lparr>enRunStat := DMM_RUN_RECOGNITION\<rparr> else s
               else s)
      in s\<lparr>bRunning := True\<rparr>)"

datatype dmm_event = Set DMM_RUN_E | Stop | Tick tick

definition dmm_step :: "dmm_cfg \<Rightarrow> dmm_event \<Rightarrow> dmm_info \<Rightarrow> dmm_info" where
  "dmm_step cfg e s =
     (case e of Set m \<Rightarrow> DMM_SetRunStatus m s | Stop \<Rightarrow> s\<lparr>bRunning := False\<rparr> | Tick t \<Rightarrow> dmm_alg_Body cfg t s)"

definition dmm_run :: "dmm_cfg \<Rightarrow> dmm_event list \<Rightarrow> dmm_info \<Rightarrow> dmm_info" where
  "dmm_run cfg es s = fold (dmm_step cfg) es s"

text \<open>The states the module can get into, when it starts with the calibration \<open>stored\<close> in the configuration.\<close>

inductive reachable :: "dmm_cfg \<Rightarrow> (int \<times> int) option \<Rightarrow> dmm_info \<Rightarrow> bool" for cfg stored where
  start: "reachable cfg stored (DMM_Start cfg (DMM_Init mirror stored))"
| step: "reachable cfg stored s \<Longrightarrow> reachable cfg stored (dmm_step cfg e s)"

text \<open>The state diagram.\<close>

definition mode_edges :: "(DMM_RUN_E \<times> DMM_RUN_E) set" where
  "mode_edges = {DMM_RUN_CALIBRATION_PRE, DMM_RUN_CALIBRATION, DMM_RUN_REGISTER, DMM_RUN_RECOGNITION, DMM_RUN_CHANGE_DRIVER}
     \<times> {DMM_RUN_DETECTION} \<union> {(DMM_RUN_CALIBRATION, DMM_RUN_CALIBRATION_PRE)} \<union>
     {DMM_RUN_DETECTION} \<times> {DMM_RUN_RECOGNITION, DMM_RUN_CHANGE_DRIVER}"

subsection \<open>Lemmas\<close>

named_theorems body_defs \<open>the bodies of the run modes\<close>

declare send_def [body_defs] Let_def [body_defs] leave_body_def [body_defs] frame_gate_def [body_defs]
  run_timeout_def [body_defs] body_head_def [body_defs] pre_tail_def [body_defs] calib_verdict_def [body_defs]
  calib_tail_def [body_defs] register_tail_def [body_defs] recognition_tail_def [body_defs] change_tail_def [body_defs]

lemma tail_progress:
  assumes "phase s = At_Tail m" "run_limit m = Some l" "m = DMM_RUN_CALIBRATION \<longrightarrow> length (samples (calib s)) < 55"
    and "enRunStat s = m" "bRunning s"
  shows "let s' = dmm_alg_Body cfg t s in bRunning s' \<and> t_enter s' = t_enter s \<and>
    (enRunStat s' \<noteq> m \<and> enRunResult s' \<noteq> DMM_RES_RUNNING \<or>
     enRunStat s' = m \<and> (phase s' = At_Head m \<or> phase s' = Finishing m \<and> enRunResult s' \<noteq> DMM_RES_RUNNING))"
proof -
  consider "m = DMM_RUN_CALIBRATION" | "m = DMM_RUN_REGISTER" | "m = DMM_RUN_RECOGNITION" | "m = DMM_RUN_CHANGE_DRIVER"
    using assms(2) by (cases m) auto
  then show ?thesis
  proof cases
    case 1
    obtain c r where cr: "calib_frame (t_now s - t_enter s) (frame t) (calib s) = (c, r)" by fastforce
    then have "r \<noteq> Calib_Overrun"
      using calib_frame_samples [of "calib s" "t_now s - t_enter s" "frame t"] assms(3) 1 by simp
    with 1 assms cr show ?thesis
      by (cases r) (auto simp: dmm_alg_Body_def body_tail_def body_defs)
  qed (use assms in \<open>auto simp: dmm_alg_Body_def body_tail_def body_defs\<close>)
qed

lemma late_head:
  assumes "phase s = At_Head m" "run_limit m = Some l" "l < tv t - t_enter s" "bRunning s" "enRunStat s = m"
  shows "enRunStat (dmm_alg_Body cfg t s) = DMM_RUN_DETECTION \<and> enRunResult (dmm_alg_Body cfg t s) \<noteq> DMM_RES_RUNNING"
  using assms by (simp add: dmm_alg_Body_def body_head_def run_timeout_def Let_def send_def)

lemma login_check_edges:
  "enRunStat (fst (login_check cfg t s)) \<in> {enRunStat s, DMM_RUN_RECOGNITION, DMM_RUN_CHANGE_DRIVER}"
  by (simp add: login_check_def login_auto_def Let_def)

lemma head_edges:
  "enRunStat (body_head t m s) \<noteq> enRunStat s \<Longrightarrow> (m, enRunStat (body_head t m s)) \<in> mode_edges"
  by (cases m) (auto simp: body_defs mode_edges_def split: if_splits DMM_RES_E.splits)

text \<open>What every reachable state satisfies: the thread is only in modes that have a body, only recognition and
  comparison write the mode on their own, the thread never works on a frame while it still holds the lock, at
  most 55 samples are stored, and the stored centre angle is the one in use and within the limits.\<close>

definition run_modes :: "DMM_RUN_E set" where
  "run_modes = {DMM_RUN_CALIBRATION_PRE, DMM_RUN_CALIBRATION, DMM_RUN_REGISTER, DMM_RUN_RECOGNITION, DMM_RUN_DETECTION,
     DMM_RUN_CHANGE_DRIVER}"

definition well_formed :: "(int \<times> int) option \<Rightarrow> dmm_info \<Rightarrow> bool" where
  "well_formed stored s \<longleftrightarrow>
     phase s \<in> {At_Top, Deadlocked, Overrun, Ended} \<union> (At_Head ` run_modes) \<union> (At_Tail ` run_modes) \<union>
       (Finishing ` {DMM_RUN_RECOGNITION, DMM_RUN_CHANGE_DRIVER}) \<and>
     (calc_locked s \<longrightarrow> (\<forall>m. phase s \<noteq> At_Tail m)) \<and>
     length (samples (calib s)) \<le> 55 \<and>
     (cfg_calibrated s = stored \<and> s32DmsCenterAngle s = 0 \<or>
      (\<exists>c p. cfg_calibrated s = Some (c, p) \<and> s32DmsCenterAngle s = c \<and> - 35 \<le> c \<and> c \<le> 35))"

lemma well_formed_head:
  "well_formed stored s \<Longrightarrow> phase s = At_Head m \<Longrightarrow> well_formed stored (body_head t m s)"
  by (cases m) (auto simp: body_defs well_formed_def run_modes_def split: DMM_RES_E.splits)

lemma calib_frame_length: "length (samples c) \<le> 55 \<Longrightarrow> length (samples (fst (calib_frame e p c))) \<le> 55"
  by (auto simp: calib_frame_def Let_def DMM_SAMPLE_NUM_def)

lemma well_formed_calib:
  assumes "well_formed stored s" "phase s = At_Tail DMM_RUN_CALIBRATION"
  shows "well_formed stored (calib_tail t s)"
proof -
  obtain c r where cr: "calib_frame (t_now s - t_enter s) (frame t) (calib s) = (c, r)" by fastforce
  with assms calib_frame_length [of "calib s" "t_now s - t_enter s" "frame t"] show ?thesis
    by (cases r) (auto simp: body_defs well_formed_def run_modes_def DMM_MIN_ANGLE_def DMM_MAX_ANGLE_def)
qed

lemma login_check_keeps:
  "phase (fst (login_check cfg t s)) = phase s \<and> calc_locked (fst (login_check cfg t s)) = calc_locked s \<and>
   calib (fst (login_check cfg t s)) = calib s \<and> cfg_calibrated (fst (login_check cfg t s)) = cfg_calibrated s \<and>
   s32DmsCenterAngle (fst (login_check cfg t s)) = s32DmsCenterAngle s"
  by (simp add: login_check_def login_auto_def Let_def)

lemma well_formed_tail:
  assumes "well_formed stored s" "phase s = At_Tail m"
  shows "well_formed stored (body_tail cfg t m s)"
proof -
  have m: "m \<in> run_modes" and n: "\<not> calc_locked s" using assms by (auto simp: well_formed_def)
  show ?thesis
    using m n assms well_formed_calib [OF assms(1)] login_check_keeps [of cfg t s]
    by (cases m) (auto simp: body_tail_def body_defs well_formed_def run_modes_def)
qed

lemma well_formed_step:
  assumes "well_formed stored s"
  shows "well_formed stored (dmm_step cfg e s)"
proof (cases e)
  case (Set m)
  with assms show ?thesis by (simp add: dmm_step_def DMM_SetRunStatus_def well_formed_def Let_def)
next
  case Stop
  with assms show ?thesis by (simp add: dmm_step_def well_formed_def)
next
  case (Tick t)
  have "well_formed stored (thread_top cfg t s)" if "phase s = At_Top"
    using assms that
    by (cases "enRunStat s") (auto simp: thread_top_def enter_body_def well_formed_def run_modes_def send_def Let_def)
  moreover have "well_formed stored (s\<lparr>enRunStat := DMM_RUN_DETECTION, phase := At_Head m\<rparr>)" if "phase s = Finishing m" for m
    using assms that by (auto simp: well_formed_def run_modes_def)
  ultimately show ?thesis
    using assms Tick well_formed_head [OF assms] well_formed_tail [OF assms]
    by (cases "phase s") (simp_all add: dmm_step_def dmm_alg_Body_def)
qed

lemma reachable_well_formed: "reachable cfg stored s \<Longrightarrow> well_formed stored s"
proof (induction rule: reachable.induct)
  case (start mirror)
  show ?case by (simp add: well_formed_def DMM_Start_def DMM_Init_def Let_def)
qed (rule well_formed_step)

lemma tail_edges:
  assumes "m \<in> run_modes" "enRunStat (body_tail cfg t m s) \<noteq> enRunStat s"
  shows "(m, enRunStat (body_tail cfg t m s)) \<in> mode_edges"
proof -
  have c: "enRunStat (calib_tail t s) \<noteq> enRunStat s \<Longrightarrow>
      (DMM_RUN_CALIBRATION, enRunStat (calib_tail t s)) \<in> mode_edges"
    by (cases "calib_frame (t_now s - t_enter s) (frame t) (calib s)"; cases "snd (calib_frame (t_now s - t_enter s) (frame t) (calib s))")
      (auto simp: body_defs mode_edges_def split: if_splits)
  show ?thesis
    using assms c login_check_edges [of cfg t s]
    by (cases m) (auto simp: body_tail_def body_defs mode_edges_def run_modes_def split: if_splits)
qed

text \<open>A lock that was kept is never released: the thread does not see a frame again.\<close>

definition lost_lock :: "dmm_info \<Rightarrow> bool" where
  "lost_lock s \<longleftrightarrow> calc_locked s \<and> (\<forall>m. phase s \<noteq> At_Tail m)"

lemma lost_lock_head: "lost_lock s \<Longrightarrow> lost_lock (body_head t m s)"
  by (cases m) (auto simp: body_defs lost_lock_def split: DMM_RES_E.splits)

lemma lost_lock_step: "lost_lock s \<Longrightarrow> lost_lock (dmm_step cfg e s)"
proof (cases e)
  case (Tick t)
  have "lost_lock (thread_top cfg t s)" if "lost_lock s"
    using that by (cases "enRunStat s") (auto simp: thread_top_def enter_body_def lost_lock_def send_def Let_def)
  moreover assume "lost_lock s"
  ultimately show ?thesis
    using Tick lost_lock_head [of s t]
    by (cases "phase s") (auto simp: dmm_step_def dmm_alg_Body_def lost_lock_def)
qed (auto simp: dmm_step_def DMM_SetRunStatus_def lost_lock_def Let_def)

lemma lost_lock_run: "lost_lock s \<Longrightarrow> lost_lock (dmm_run cfg es s)"
  unfolding dmm_run_def by (induction es arbitrary: s) (auto intro: lost_lock_step)

text \<open>Room in the sample arrays, and runs that do not ask for a calibration while the loop of one has not ended.\<close>

definition room :: "dmm_info \<Rightarrow> bool" where
  "room s \<longleftrightarrow> (phase s = At_Head DMM_RUN_CALIBRATION \<and> enRunStat s = DMM_RUN_CALIBRATION \<or> phase s = At_Tail DMM_RUN_CALIBRATION
     \<longrightarrow> length (samples (calib s)) < 55) \<and> phase s \<noteq> Overrun"

fun no_early_restart :: "dmm_cfg \<Rightarrow> dmm_event list \<Rightarrow> dmm_info \<Rightarrow> bool" where
  "no_early_restart cfg [] s \<longleftrightarrow> True"
| "no_early_restart cfg (e # es) s \<longleftrightarrow>
     (e = Set DMM_RUN_CALIBRATION \<longrightarrow> phase s \<noteq> At_Head DMM_RUN_CALIBRATION) \<and>
     no_early_restart cfg es (dmm_step cfg e s)"

lemma room_calib:
  assumes "room s" "phase s = At_Tail DMM_RUN_CALIBRATION"
  shows "room (calib_tail t s)"
proof -
  obtain c r where cr: "calib_frame (t_now s - t_enter s) (frame t) (calib s) = (c, r)" by fastforce
  with assms calib_frame_samples [of "calib s" "t_now s - t_enter s" "frame t"] show ?thesis
    by (cases r) (auto simp: body_defs room_def)
qed

text \<open>A calibration that has its averages leaves the arrays full; a second one in the same loop overruns them.\<close>

lemma averages_full:
  assumes "snd (calib_frame e p c) = Calib_Averages ca pa"
  shows "55 \<le> length (samples (fst (calib_frame e p c))) \<and>
    (colour (fst (calib_frame e p c)) = GUI_COLOR_GREEN \<or> colour (fst (calib_frame e p c)) = GUI_COLOR_YELLOW)"
  using assms by (auto simp: calib_frame_def Let_def DMM_SAMPLE_NUM_def split: if_splits)

lemma calib_tail_averages:
  assumes "calib_frame (t_now s - t_enter s) (frame t) (calib s) = (c, Calib_Averages ca pa)"
  shows "calib (calib_tail t s) = c \<and> phase (calib_tail t s) = At_Head DMM_RUN_CALIBRATION \<and>
    t_enter (calib_tail t s) = t_enter s \<and> bRunning (calib_tail t s) = bRunning s \<and> calc_locked (calib_tail t s) = calc_locked s"
  using assms by (simp add: calib_tail_def calib_verdict_def send_def Let_def)

lemma second_calibration_overruns:
  assumes "phase s = At_Head DMM_RUN_CALIBRATION" "55 \<le> length (samples (calib s))"
    and "colour (calib s) = GUI_COLOR_GREEN \<or> colour (calib s) = GUI_COLOR_YELLOW"
    and "bRunning s" "\<not> calc_locked s" "lock_ok t1" "sem_ok t1" "fwd_ok t1" "\<not> detectFace (frame t2)"
    and "2 \<le> tv t1 - t_enter s" "tv t1 - t_enter s \<le> 12"
  shows "phase (dmm_run cfg [Set DMM_RUN_CALIBRATION, Tick t1, Tick t2] s) = Overrun"
proof -
  have "calib_frame (tv t1 - t_enter s) (frame t2) (calib s) = (calib s, Calib_Overrun)"
    using assms by (auto simp: calib_frame_def DMM_SAMPLE_NUM_def Let_def)
  with assms show ?thesis
    by (simp add: dmm_run_def dmm_step_def DMM_SetRunStatus_def dmm_alg_Body_def body_head_def frame_gate_def body_tail_def
        calib_tail_def send_def Let_def)
qed

lemma room_head:
  assumes "room s" "phase s = At_Head m"
  shows "room (body_head t m s)"
  using assms by (cases m) (auto simp: body_defs room_def split: DMM_RES_E.splits)

lemma room_step:
  assumes "room s" "e = Set DMM_RUN_CALIBRATION \<longrightarrow> phase s \<noteq> At_Head DMM_RUN_CALIBRATION"
  shows "room (dmm_step cfg e s)"
proof (cases e)
  case (Set m)
  with assms show ?thesis by (auto simp: dmm_step_def DMM_SetRunStatus_def room_def Let_def)
next
  case (Tick t)
  have top: "room (thread_top cfg t s)" if "phase s = At_Top"
    using that by (cases "enRunStat s") (auto simp: thread_top_def enter_body_def room_def send_def Let_def)
  have tail: "room (body_tail cfg t m s)" if "phase s = At_Tail m" for m
    using that room_calib [OF assms(1)] login_check_keeps [of cfg t s]
    by (cases m) (auto simp: body_tail_def body_defs room_def)
  show ?thesis
    using Tick assms(1) top tail room_head [OF assms(1)]
    by (cases "phase s") (auto simp: dmm_step_def dmm_alg_Body_def room_def)
qed (use assms in \<open>simp add: dmm_step_def room_def\<close>)

lemma room_run: "no_early_restart cfg es s \<Longrightarrow> room s \<Longrightarrow> room (dmm_run cfg es s)"
  by (induction es arbitrary: s) (simp_all add: dmm_run_def room_step)

subsection \<open>Properties\<close>


definition sample_tick :: "int \<Rightarrow> tick" where
  "sample_tick now = \<lparr>tv = now, mmap_ok = True, lock_ok = True, sem_ok = True, fwd_ok = True, frame = centred_face,
     feature_val = True, fProgress = 1, fr_id = 1, fr_user = ''a'', fr_match = 0, gps_ok = True, step_ms = 40,
     alarm_last = ALARM_NOTHING\<rparr>"

definition sample_in :: "DMM_RUN_E \<Rightarrow> phase \<Rightarrow> dmm_info" where
  "sample_in m p = (DMM_Init False None)\<lparr>bRunning := True, enRunStat := m, phase := p\<rparr>"

definition sample_cfg :: dmm_cfg where
  "sample_cfg = \<lparr>fr_board = True, creare = False, dms_channel = True, s32DmsFrInterval = 0,
     s32ChangeGuardInterval = 0, enDmsLoginMode = E_LOGIN_BOOT\<rparr>"

lemmas sample_defs = sample_tick_def sample_in_def DMM_Init_def






text \<open> one failure of the semaphore during registration, recognition or comparison blocks the driver monitor
  for good: the lock of the computing resource stays held, the next round in time blocks on it, and
  whatever happens afterwards no frame is ever looked at again, nor the lock released.\<close>

theorem semaphore_failure_blocks:
  assumes "keeps_lock m" "run_limit m = Some l" "phase s = At_Head m" "enRunStat s = m" "bRunning s" "\<not> calc_locked s"
    and "tv t - t_enter s \<le> l" "lock_ok t" "\<not> sem_ok t"
  shows "let s' = dmm_alg_Body cfg t s in
    (\<forall>t'. tv t' - t_enter s \<le> l \<longrightarrow> phase (dmm_alg_Body cfg t' s') = Deadlocked) \<and>
    (\<forall>es. calc_locked (dmm_run cfg es s') \<and> (\<forall>m'. phase (dmm_run cfg es s') \<noteq> At_Tail m'))"
proof -
  let ?s = "dmm_alg_Body cfg t s"
  have s': "?s = s\<lparr>t_now := tv t, calc_locked := True\<rparr>"
    using assms by (simp add: dmm_alg_Body_def body_head_def frame_gate_def Let_def)
  then have "lost_lock ?s" using assms(3) by (simp add: lost_lock_def)
  moreover have "phase (dmm_alg_Body cfg t' ?s) = Deadlocked" if "tv t' - t_enter s \<le> l" for t'
    using assms that by (simp add: s' dmm_alg_Body_def body_head_def frame_gate_def Let_def)
  ultimately show ?thesis using lost_lock_run [of ?s cfg] by (simp add: lost_lock_def)
qed

theorem semaphore_failure_blocks_witness:
  "phase (dmm_alg_Body sample_cfg (sample_tick 2) (dmm_alg_Body sample_cfg (sample_tick 1\<lparr>sem_ok := False\<rparr>)
     (sample_in DMM_RUN_REGISTER (At_Head DMM_RUN_REGISTER)))) = Deadlocked"
  using semaphore_failure_blocks [of DMM_RUN_REGISTER 10 "sample_in DMM_RUN_REGISTER (At_Head DMM_RUN_REGISTER)"
      "sample_tick 1\<lparr>sem_ok := False\<rparr>" sample_cfg]
  by (simp add: keeps_lock_def sample_defs Let_def)

text \<open> a calibration that is requested while the face recognition is about to finish is lost: the recognition
  overwrites the mode.  The request is then answered with the result of the recognition, success included, or, a
  moment later, left `running', although nothing was calibrated.\<close>

theorem calibration_request_lost:
  assumes "phase s = At_Tail DMM_RUN_RECOGNITION" "feature_val t" "100 \<le> progress_percent (fProgress t)" "0 < fr_id t"
  shows "(let s' = dmm_run cfg [Set DMM_RUN_CALIBRATION, Tick t, Tick t'] s in
      enRunStat s' = DMM_RUN_DETECTION \<and> enRunResult s' = DMM_RES_SUCCESS \<and> cfg_calibrated s' = cfg_calibrated s) \<and>
    (let s' = dmm_run cfg [Tick t, Set DMM_RUN_CALIBRATION, Tick t'] s in
      enRunStat s' = DMM_RUN_DETECTION \<and> enRunResult s' = DMM_RES_RUNNING \<and> cfg_calibrated s' = cfg_calibrated s)"
  using assms
  by (simp add: dmm_run_def dmm_step_def DMM_SetRunStatus_def dmm_alg_Body_def body_tail_def recognition_tail_def send_def Let_def)

lemma sample_progress: "progress_percent 1 = 100"
  using f32_of_int [of 100] by (simp add: progress_percent_def f2s32_def rtrunc_def)

theorem calibration_request_lost_witness:
  "let s' = dmm_run sample_cfg [Set DMM_RUN_CALIBRATION, Tick (sample_tick 1), Tick (sample_tick 1)]
       (sample_in DMM_RUN_RECOGNITION (At_Tail DMM_RUN_RECOGNITION))
   in enRunStat s' = DMM_RUN_DETECTION \<and> enRunResult s' = DMM_RES_SUCCESS \<and> cfg_calibrated s' = None"
  using calibration_request_lost [of "sample_in DMM_RUN_RECOGNITION (At_Tail DMM_RUN_RECOGNITION)" "sample_tick 1"
      sample_cfg "sample_tick 1"]
  by (simp add: sample_defs sample_progress)

text \<open> a recognition that is interrupted by a change of the mode reports the result of an earlier one: if
  that was a success, the event `login succeeded' is sent, with an empty user, although no face was compared.\<close>

theorem stale_login_reported:
  assumes "phase s = At_Top" "bRunning s" "dms_channel cfg" "enRunStat s = DMM_RUN_RECOGNITION"
    and "enRunResult s = DMM_RES_SUCCESS" "mmap_ok t"
  shows "let s' = dmm_run cfg [Tick t, Set DMM_RUN_CALIBRATION_PRE, Tick t'] s
    in Event NOTIFY_LNGIN_SUCCESS [] \<in> set (drop (length (sent s)) (sent s'))"
  using assms
  by (simp add: dmm_run_def dmm_step_def DMM_SetRunStatus_def dmm_alg_Body_def thread_top_def enter_body_def body_head_def
      leave_body_def login_alarm_def send_def Let_def)

theorem stale_login_reported_witness:
  "Event NOTIFY_LNGIN_SUCCESS [] \<in> set (sent (dmm_run sample_cfg
     [Tick (sample_tick 0), Set DMM_RUN_CALIBRATION_PRE, Tick (sample_tick 1)] (DMM_Start sample_cfg (DMM_Init False None))))"
  using stale_login_reported [of "DMM_Start sample_cfg (DMM_Init False None)" sample_cfg "sample_tick 0" "sample_tick 1"]
  by (simp add: sample_defs sample_cfg_def DMM_Start_def)

text \<open>C30: the sample arrays of the calibration are overrun when a new calibration is requested between the
  end of one and the moment its loop sees the new mode; without such a request the thread never gets there.\<close>

theorem sample_arrays_overrun_by_race:
  assumes "no_early_restart cfg es (DMM_Start cfg (DMM_Init mirror stored))"
    and "phase s = At_Tail DMM_RUN_CALIBRATION" "bRunning s" "\<not> calc_locked s"
    and "snd (calib_frame (t_now s - t_enter s) (frame t) (calib s)) = Calib_Averages ca pa"
    and "lock_ok t1" "sem_ok t1" "fwd_ok t1" "\<not> detectFace (frame t2)" "2 \<le> tv t1 - t_enter s" "tv t1 - t_enter s \<le> 12"
  shows "phase (dmm_run cfg es (DMM_Start cfg (DMM_Init mirror stored))) \<noteq> Overrun \<and>
    phase (dmm_run cfg [Tick t, Set DMM_RUN_CALIBRATION, Tick t1, Tick t2] s) = Overrun"
proof
  have "room (DMM_Start cfg (DMM_Init mirror stored))" by (simp add: room_def DMM_Start_def DMM_Init_def Let_def)
  from room_run [OF assms(1) this] show "phase (dmm_run cfg es (DMM_Start cfg (DMM_Init mirror stored))) \<noteq> Overrun"
    by (simp add: room_def)
  let ?s = "calib_tail t s"
  obtain c where c: "calib_frame (t_now s - t_enter s) (frame t) (calib s) = (c, Calib_Averages ca pa)"
    using assms(5) by (metis prod.collapse)
  have "dmm_run cfg [Tick t, Set DMM_RUN_CALIBRATION, Tick t1, Tick t2] s =
      dmm_run cfg [Set DMM_RUN_CALIBRATION, Tick t1, Tick t2] ?s"
    using assms(2) by (simp add: dmm_run_def dmm_step_def dmm_alg_Body_def body_tail_def)
  then show "phase (dmm_run cfg [Tick t, Set DMM_RUN_CALIBRATION, Tick t1, Tick t2] s) = Overrun"
    using second_calibration_overruns [of ?s t1 t2 cfg] averages_full [OF assms(5)] calib_tail_averages [OF c] c assms
    by simp
qed

definition last_sample :: dmm_info where
  "last_sample = (sample_in DMM_RUN_CALIBRATION (At_Tail DMM_RUN_CALIBRATION))\<lparr>t_now := 3,
     calib := \<lparr>colour = GUI_COLOR_GREEN, samples = replicate 54 (0, 0)\<rparr>\<rparr>"

lemma last_sample_averages:
  "\<exists>ca pa. snd (calib_frame (t_now last_sample - t_enter last_sample) (centred_face\<lparr>detectFace := False\<rparr>) (calib last_sample)) =
     Calib_Averages ca pa"
proof -
  have z: "center_angle (centred_face\<lparr>detectFace := False\<rparr>) = 0" "pitch_angle (centred_face\<lparr>detectFace := False\<rparr>) = 0"
    by (simp_all add: center_angle_def pitch_angle_def centred_face_def f2s32_def rtrunc_def)
  have "dmm_CalcAnglesAverage (0 # replicate 54 0) \<noteq> - 1000" using one_wild_sample [of 0 0] by simp
  then have "dmm_CalcAnglesAverage (replicate 54 0 @ [0]) \<noteq> - 1000"
    by (simp add: replicate_append_same flip: replicate_Suc)
  then show ?thesis
    using z by (simp add: calib_frame_def last_sample_def sample_in_def DMM_Init_def DMM_SAMPLE_NUM_def Let_def)
qed

theorem sample_arrays_overrun_by_race_witness:
  "phase (dmm_run sample_cfg [Tick ((sample_tick 3)\<lparr>frame := centred_face\<lparr>detectFace := False\<rparr>\<rparr>), Set DMM_RUN_CALIBRATION,
     Tick (sample_tick 4), Tick ((sample_tick 4)\<lparr>frame := centred_face\<lparr>detectFace := False\<rparr>\<rparr>)] last_sample) = Overrun"
proof -
  obtain ca pa where "snd (calib_frame (t_now last_sample - t_enter last_sample) (centred_face\<lparr>detectFace := False\<rparr>)
      (calib last_sample)) = Calib_Averages ca pa"
    using last_sample_averages by blast
  then show ?thesis
    using sample_arrays_overrun_by_race [of sample_cfg "[]" False None last_sample
        "(sample_tick 3)\<lparr>frame := centred_face\<lparr>detectFace := False\<rparr>\<rparr>" ca pa "sample_tick 4"
        "(sample_tick 4)\<lparr>frame := centred_face\<lparr>detectFace := False\<rparr>\<rparr>"]
    by (simp add: last_sample_def sample_defs centred_face_def)
qed

end
