(* ===== verification/Dmm_Users.thy ===== *)
theory Dmm_Users
  imports Dmm_Run "HOL-Library.Char_ord" "HOL-Library.List_Lexorder"
begin

section \<open>The users of the face recognition (dmm/dmm.cpp, alg.cpp)\<close>

text \<open>
  Every user has a directory \<open>user000\<close>, \<open>user001\<close>, \dots under \<open>/root/ID\<close> (two digits in older releases) with a
  file \<open>username\<close>.  \<open>DMM_GetUserList\<close> reads them in the order of \<open>scandir\<close> and \<open>alphasort\<close> (bytewise,
  as in the C locale); registering takes the first number whose place in that list does not have it.  The
  sizes of the structures come from headers outside of the repository and are parameters; the paths are those
  the code writes.  A list with more users than it has room for, a name with a character the shell would not
  take literally, and a command longer than its buffer are the answer \<open>None\<close> (undefined behaviour or an
  arbitrary command); \<open>mkdir\<close> and the shell may fail.
\<close>

subsection \<open>Strings and numbers\<close>

abbreviation NUL :: char where "NUL \<equiv> CHR 0x00"
abbreviation LF :: char where "LF \<equiv> CHR 0x0A"
abbreviation CR :: char where "CR \<equiv> CHR 0x0D"

definition c_str :: "string \<Rightarrow> string" where "c_str = takeWhile (\<lambda>c. c \<noteq> NUL)"

text \<open>The number of characters before the line break that \<open>cutLineBreak\<close> overwrites: the first carriage return,
  else the first line feed, else none.\<close>

definition cutLineBreak :: "string \<Rightarrow> string" where
  "cutLineBreak s = (let z = c_str s; k = length (takeWhile (\<lambda>c. c \<noteq> (if CR \<in> set z then CR else LF)) z)
     in if k < length z then s[k := NUL] else s)"

definition digit :: "nat \<Rightarrow> char" where "digit n = char_of (48 + n)"

fun decimal :: "nat \<Rightarrow> string" where
  "decimal n = (if n < 10 then [digit n] else decimal (n div 10) @ [digit (n mod 10)])"

declare decimal.simps [simp del]

text \<open>\<open>%0wd\<close>\<close>

definition zero_padded :: "nat \<Rightarrow> nat \<Rightarrow> string" where
  "zero_padded w n = (let d = decimal n in replicate (w - length d) (digit 0) @ d)"

text \<open>The directory of a new user.\<close>

definition user_dir :: "nat \<Rightarrow> string" where "user_dir n = ''user'' @ zero_padded 3 n"

definition strstr :: "string \<Rightarrow> string \<Rightarrow> bool" where
  "strstr s p \<longleftrightarrow> list_ex (\<lambda>i. take (length p) (drop i s) = p) [0..<Suc (length s)]"

subsection \<open>The directory\<close>

text \<open>A directory with its \<open>username\<close> file, if that can be read, or something else.\<close>

datatype entry = Dir "string option" | Other

type_synonym users_dir = "(string \<times> entry) list"

record users_cfg =
  FRS_USERINFOS_DIR :: string
  DMM_MAX_DIRLEN :: nat
  DMM_MAX_NAMELEN :: nat
  DMM_MAX_FR_NUM :: nat

definition scandir :: "users_dir \<Rightarrow> users_dir" where "scandir fs = sort_key fst fs"

text \<open>\<open>read\<close> into the buffer of 1024 bytes, which is neither initialised nor terminated, and the name after
  \<open>username=\<close>.\<close>

definition read_name :: "string \<Rightarrow> string \<Rightarrow> string \<times> string" where
  "read_name buf content =
     (let b = cutLineBreak (take 1024 content @ drop (length (take 1024 content)) buf)
      in (c_str (drop 9 b), b))"

fun list_users :: "users_cfg \<Rightarrow> string \<Rightarrow> users_dir \<Rightarrow> (string \<times> string) list" where
  "list_users cfg buf [] = []"
| "list_users cfg buf ((d, Dir (Some content)) # fs) =
     (if strstr d ''user'' then
        let (szName, buf') = read_name buf content
        in (szName, take (DMM_MAX_DIRLEN cfg - 1) (FRS_USERINFOS_DIR cfg @ ''/'' @ d)) # list_users cfg buf' fs
      else list_users cfg buf fs)"
| "list_users cfg buf (_ # fs) = list_users cfg buf fs"

definition DMM_GetUserList :: "users_cfg \<Rightarrow> string \<Rightarrow> users_dir \<Rightarrow> (string \<times> string) list option" where
  "DMM_GetUserList cfg buf fs =
     (let us = list_users cfg buf (scandir fs) in if DMM_MAX_FR_NUM cfg < length us then None else Some us)"

subsection \<open>The shell commands\<close>

text \<open>Inside the double quotes of \<open>echo\<close> these characters are not literal.\<close>

definition shell_literal :: "string \<Rightarrow> bool" where
  "shell_literal s \<longleftrightarrow> list_all (\<lambda>c. c \<notin> {CHR 0x22, CHR ''$'', CHR 0x60, CHR 0x5C, LF, CR, NUL}) s"

definition echo_username :: "string \<Rightarrow> string \<Rightarrow> bool \<Rightarrow> users_dir \<Rightarrow> (bool \<times> users_dir) option" where
  "echo_username name szDir ok fs =
     (let cmd = ''echo '' @ [CHR 0x22] @ ''username='' @ name @ [CHR 0x22] @ '' > /root/'' @ szDir @ ''/username''
      in if \<not> shell_literal name \<or> 128 \<le> length cmd then None
         else if \<not> ok \<or> szDir \<notin> (\<lambda>(e, _). ''ID/'' @ e) ` set fs then Some (False, fs)
         else Some (True, map (\<lambda>(e, x). if ''ID/'' @ e = szDir then (e, Dir (Some (''username='' @ name @ [LF]))) else (e, x)) fs))"

text \<open>\<open>rm -rf /root/<szDir>\<close>, where \<open>szDir\<close> is \<open>ID/<d>\<close>.\<close>

definition remove_dir :: "string \<Rightarrow> bool \<Rightarrow> users_dir \<Rightarrow> bool \<times> users_dir" where
  "remove_dir szDir ok fs = (if ok then (True, filter (\<lambda>(e, _). ''ID/'' @ e \<noteq> szDir) fs) else (False, fs))"

subsection \<open>Operations\<close>

definition free_number :: "users_cfg \<Rightarrow> (string \<times> string) list \<Rightarrow> nat option" where
  "free_number cfg us =
     find (\<lambda>i. let szDir = (if i < length us then snd (us ! i) else [])
               in szDir \<noteq> ''ID/user'' @ zero_padded 2 i \<and> szDir \<noteq> ''ID/user'' @ zero_padded 3 i) [0..<DMM_MAX_FR_NUM cfg]"

text \<open>The third component is the new value of \<open>szUserDir\<close>, if it is set.\<close>

definition DMM_RegisterUser :: "users_cfg \<Rightarrow> string \<Rightarrow> bool \<Rightarrow> bool \<Rightarrow> string \<Rightarrow> users_dir \<Rightarrow>
    (sv_ret \<times> users_dir \<times> string option) option" where
  "DMM_RegisterUser cfg buf mkdir_ok sys_ok name fs =
     (if DMM_MAX_NAMELEN cfg - 1 \<le> length name then Some (ERR_ILLEGAL_PARAM, fs, None)
      else case DMM_GetUserList cfg buf fs of None \<Rightarrow> None
      | Some us \<Rightarrow>
          if name \<in> fst ` set us then Some (ERR_EXIST, fs, None)
          else case free_number cfg us of None \<Rightarrow> Some (ERR_BUF_FULL, fs, None)
          | Some i \<Rightarrow>
              let d = user_dir i
              in if \<not> mkdir_ok \<or> d \<in> fst ` set fs then Some (SV_FAILURE, fs, None)
                 else case echo_username name (''ID/'' @ d) sys_ok ((d, Dir None) # fs) of None \<Rightarrow> None
                 | Some (ok, fs') \<Rightarrow> Some (if ok then (SV_SUCCESS, fs', Some d) else (SV_FAILURE, fs', None)))"

definition DMM_DeleteUser :: "users_cfg \<Rightarrow> string \<Rightarrow> bool \<Rightarrow> string \<Rightarrow> users_dir \<Rightarrow> (sv_ret \<times> users_dir) option" where
  "DMM_DeleteUser cfg buf sys_ok name fs =
     (case DMM_GetUserList cfg buf fs of None \<Rightarrow> None
      | Some us \<Rightarrow>
          (case find (\<lambda>(n, _). n = name) us of None \<Rightarrow> Some (ERR_UNEXIST, fs)
           | Some (_, szDir) \<Rightarrow>
               let (ok, fs') = remove_dir szDir sys_ok fs in Some (if ok then SV_SUCCESS else SV_FAILURE, fs')))"

text \<open>The batch looks every name up in the list made at the start, skips unknown names and stops at the first
  command that fails.\<close>

fun delete_each :: "(string \<times> string) list \<Rightarrow> (string \<times> bool) list \<Rightarrow> users_dir \<Rightarrow> sv_ret \<times> users_dir" where
  "delete_each us [] fs = (SV_SUCCESS, fs)"
| "delete_each us ((name, sys_ok) # ns) fs =
     (case find (\<lambda>(n, _). n = name) us of None \<Rightarrow> delete_each us ns fs
      | Some (_, szDir) \<Rightarrow>
          let (ok, fs') = remove_dir szDir sys_ok fs in if ok then delete_each us ns fs' else (SV_FAILURE, fs'))"

definition DMM_DeleteUserBatch :: "users_cfg \<Rightarrow> string \<Rightarrow> (string \<times> bool) list \<Rightarrow> users_dir \<Rightarrow> (sv_ret \<times> users_dir) option" where
  "DMM_DeleteUserBatch cfg buf names fs = map_option (\<lambda>us. delete_each us names fs) (DMM_GetUserList cfg buf fs)"

text \<open>The argument is \<open>old/new\<close>; the new name is not checked at all.\<close>

definition DMM_ModifyUser :: "users_cfg \<Rightarrow> string \<Rightarrow> bool \<Rightarrow> string \<Rightarrow> users_dir \<Rightarrow> (sv_ret \<times> users_dir) option" where
  "DMM_ModifyUser cfg buf sys_ok arg fs =
     (case DMM_GetUserList cfg buf fs of None \<Rightarrow> None
      | Some us \<Rightarrow>
          if CHR ''/'' \<notin> set arg then Some (SV_FAILURE, fs)
          else let old = takeWhile (\<lambda>c. c \<noteq> CHR ''/'') arg; new = drop (Suc (length old)) arg
            in case find (\<lambda>(n, _). n = old) us of None \<Rightarrow> Some (ERR_UNEXIST, fs)
               | Some (_, szDir) \<Rightarrow>
                   (case echo_username new szDir sys_ok fs of None \<Rightarrow> None
                    | Some (ok, fs') \<Rightarrow> Some (if ok then SV_SUCCESS else SV_FAILURE, fs')))"

subsection \<open>The requests of the message thread (alg.cpp)\<close>

datatype msg_ret = MSG_RANGE_OUT | MSG_RES_EXIST | MSG_NO_ENOUGH_MEMORY | MSG_DEFAULT_FAIL | MSG_TIMEOUT_FAIL
  | MSG_DATA_UNMATCH | MSG_SUCCESS_RES | Msg_Ret sv_ret

text \<open>\<open>polls\<close> are the results \<open>DMM_GetRunResult\<close> gives, one a second, 20 at most.\<close>

definition first_result :: "DMM_RES_E list \<Rightarrow> DMM_RES_E option" where
  "first_result polls = find (\<lambda>r. r \<noteq> DMM_RES_RUNNING) (take 20 polls)"

definition callbackAddUser :: "users_cfg \<Rightarrow> string \<Rightarrow> bool \<Rightarrow> bool \<Rightarrow> bool \<Rightarrow> DMM_RES_E list \<Rightarrow> string \<Rightarrow>
    users_dir \<times> dmm_info \<Rightarrow> (msg_ret \<times> users_dir \<times> dmm_info) option" where
  "callbackAddUser cfg buf mkdir_ok sys_ok rm_ok polls name st =
     (let (fs, s) = st
      in case DMM_RegisterUser cfg buf mkdir_ok sys_ok name fs of None \<Rightarrow> None
      | Some (ret, fs, _) \<Rightarrow>
          if ret \<noteq> SV_SUCCESS then
            Some (if ret = ERR_ILLEGAL_PARAM then MSG_RANGE_OUT else if ret = ERR_EXIST then MSG_RES_EXIST
                  else if ret = ERR_BUF_FULL then MSG_NO_ENOUGH_MEMORY else MSG_DEFAULT_FAIL, fs, s)
          else let s = DMM_SetRunStatus DMM_RUN_REGISTER s
            in if first_result polls = Some DMM_RES_SUCCESS then Some (Msg_Ret SV_SUCCESS, fs, s)
               else map_option (\<lambda>(_, fs'). (Msg_Ret SV_FAILURE, fs', s)) (DMM_DeleteUser cfg buf rm_ok name fs))"

definition user_ret :: "sv_ret \<Rightarrow> msg_ret" where
  "user_ret r = (if r = SV_SUCCESS then Msg_Ret SV_SUCCESS else if r = ERR_UNEXIST then MSG_RES_EXIST else MSG_DEFAULT_FAIL)"

text \<open>\<open>s32Param\<close> selects one user or the list of a JSON file, which is given as its names if it can be read.\<close>

definition callbackDelUser :: "users_cfg \<Rightarrow> string \<Rightarrow> int \<Rightarrow> bool \<Rightarrow> (string \<times> bool) list option \<Rightarrow> string \<Rightarrow> users_dir \<Rightarrow>
    (msg_ret \<times> users_dir) option" where
  "callbackDelUser cfg buf s32Param sys_ok json name fs =
     (if s32Param = 0 then map_option (\<lambda>(r, fs'). (user_ret r, fs')) (DMM_DeleteUser cfg buf sys_ok name fs)
      else if s32Param = 1 then
        (case json of None \<Rightarrow> Some (MSG_DEFAULT_FAIL, fs)
         | Some names \<Rightarrow> map_option (\<lambda>(r, fs'). (user_ret r, fs')) (DMM_DeleteUserBatch cfg buf names fs))
      else Some (Msg_Ret SV_FAILURE, fs))"

definition callbackModifyUser :: "users_cfg \<Rightarrow> string \<Rightarrow> bool \<Rightarrow> string \<Rightarrow> users_dir \<Rightarrow> (msg_ret \<times> users_dir) option" where
  "callbackModifyUser cfg buf sys_ok arg fs =
     map_option (\<lambda>(r, fs'). (user_ret r, fs')) (DMM_ModifyUser cfg buf sys_ok arg fs)"

definition callbackGetUsers :: "users_cfg \<Rightarrow> string \<Rightarrow> users_dir \<Rightarrow> (msg_ret \<times> (string \<times> string) list) option" where
  "callbackGetUsers cfg buf fs = map_option (\<lambda>us. (Msg_Ret SV_SUCCESS, us)) (DMM_GetUserList cfg buf fs)"

definition callbackLogin :: "DMM_RES_E list \<Rightarrow> dmm_info \<Rightarrow> msg_ret \<times> dmm_info" where
  "callbackLogin polls s =
     (let s = DMM_SetRunStatus DMM_RUN_RECOGNITION s;
          enRes = (case first_result polls of None \<Rightarrow> DMM_RES_TIMEOUT | Some r \<Rightarrow> r)
      in (if enRes = DMM_RES_TIMEOUT then MSG_TIMEOUT_FAIL else if enRes = DMM_RES_FAILURE then MSG_DATA_UNMATCH
          else MSG_SUCCESS_RES, s))"

text \<open>\<open>polls\<close> are the mode and the result, every 100 ms while the calibration runs; after 142 of them it gives up.
  The answer is the result as it is then, in \<open>final\<close>; the first component tells whether one was asked for.\<close>

definition callbackCalibration :: "int \<Rightarrow> (DMM_RUN_E \<times> DMM_RES_E) list \<Rightarrow> DMM_RES_E \<Rightarrow> dmm_info \<Rightarrow> nat \<times> DMM_RES_E \<times> dmm_info" where
  "callbackCalibration s32Param polls final s =
     (if s32Param = 0 then
        (0, DMM_RES_SUCCESS, if enRunStat s = DMM_RUN_CALIBRATION_PRE \<or> enRunStat s = DMM_RUN_CALIBRATION
           then DMM_SetRunStatus DMM_RUN_DETECTION s else s)
      else if s32Param = 1 then
        (0, DMM_RES_SUCCESS, if enRunStat s \<noteq> DMM_RUN_CALIBRATION_PRE then DMM_SetRunStatus DMM_RUN_CALIBRATION_PRE s else s)
      else if s32Param = 2 \<and> enRunStat s \<noteq> DMM_RUN_CALIBRATION then
        (length (takeWhile (\<lambda>p. p = (DMM_RUN_CALIBRATION, DMM_RES_RUNNING)) (take 141 polls)), final,
         DMM_SetRunStatus DMM_RUN_CALIBRATION s)
      else (0, DMM_RES_SUCCESS, s))"

subsection \<open>Lemmas: names\<close>

definition plain :: "string \<Rightarrow> bool" where "plain n \<longleftrightarrow> NUL \<notin> set n \<and> LF \<notin> set n \<and> CR \<notin> set n"

lemma takeWhile_upto: "x \<notin> set xs \<Longrightarrow> takeWhile (\<lambda>c. c \<noteq> x) (xs @ x # ys) = xs"
  by (induction xs) auto

lemma takeWhile_all: "x \<notin> set xs \<Longrightarrow> takeWhile (\<lambda>c. c \<noteq> x) xs = xs"
  by (induction xs) auto

lemma cutLineBreak_line:
  assumes "plain n" and "CR \<notin> set rest"
  shows "cutLineBreak (''username='' @ n @ LF # rest) = ''username='' @ n @ NUL # rest"
proof -
  let ?l = "''username='' @ n"
  have z: "c_str (?l @ LF # rest) = ?l @ LF # c_str rest"
    using assms(1) by (simp add: c_str_def plain_def takeWhile_append)
  have cr: "CR \<notin> set (c_str (?l @ LF # rest))"
    using assms set_takeWhileD [of CR] unfolding z by (auto simp: plain_def c_str_def dest: set_takeWhileD)
  have "takeWhile (\<lambda>c. c \<noteq> LF) (?l @ LF # c_str rest) = ?l"
    using assms(1) by (intro takeWhile_upto) (simp add: plain_def)
  then show ?thesis using cr z by (simp add: cutLineBreak_def Let_def list_update_append)
qed

lemma read_name_line:
  assumes "plain n" "length n \<le> 1000" "CR \<notin> set buf"
  shows "fst (read_name buf (''username='' @ n @ [LF])) = n" and "CR \<notin> set (snd (read_name buf (''username='' @ n @ [LF])))"
proof -
  let ?c = "''username='' @ n @ [LF]"
  have r: "CR \<notin> set (drop (length ?c) buf)" using assms(3) by (meson in_set_dropD)
  have "take 1024 ?c = ?c" using assms(2) by simp
  then have b: "cutLineBreak (take 1024 ?c @ drop (length (take 1024 ?c)) buf) =
      ''username='' @ n @ NUL # drop (length ?c) buf"
    using cutLineBreak_line [OF assms(1) r] by simp
  have "fst (read_name buf ?c) = c_str (n @ NUL # drop (length ?c) buf)"
    unfolding read_name_def Let_def fst_conv b by simp
  also have "\<dots> = n" using assms(1) unfolding c_str_def by (intro takeWhile_upto) (simp add: plain_def)
  finally show "fst (read_name buf ?c) = n" .
  show "CR \<notin> set (snd (read_name buf ?c))"
    unfolding read_name_def Let_def snd_conv b using r assms(1) by (auto simp: plain_def)
qed

text \<open>A directory as this code leaves it: the users with their directories.\<close>

definition store :: "(string \<times> string) list \<Rightarrow> users_dir" where
  "store us = map (\<lambda>(d, n). (d, Dir (Some (''username='' @ n @ [LF])))) us"

definition proper_user :: "users_cfg \<Rightarrow> string \<times> string \<Rightarrow> bool" where
  "proper_user cfg u \<longleftrightarrow> plain (snd u) \<and> length (snd u) \<le> 1000 \<and> strstr (fst u) ''user'' \<and>
     length (fst u) + 4 \<le> DMM_MAX_DIRLEN cfg"

definition proper_cfg :: "users_cfg \<Rightarrow> bool" where
  "proper_cfg cfg \<longleftrightarrow> FRS_USERINFOS_DIR cfg = ''ID'' \<and> 0 < DMM_MAX_FR_NUM cfg"

lemma list_users_store:
  assumes "proper_cfg cfg" "\<forall>u\<in>set us. proper_user cfg u" "CR \<notin> set buf"
  shows "list_users cfg buf (store us) = map (\<lambda>(d, n). (n, ''ID/'' @ d)) us"
  using assms(2,3)
proof (induction us arbitrary: buf)
  case (Cons u us)
  obtain d n where u: "u = (d, n)" by fastforce
  with Cons.prems have n: "plain n" "length n \<le> 1000" "strstr d ''user''" "length d + 4 \<le> DMM_MAX_DIRLEN cfg"
    by (simp_all add: proper_user_def)
  obtain m b where mb: "read_name buf (''username='' @ n @ [LF]) = (m, b)" by fastforce
  with read_name_line [OF n(1,2) Cons.prems(2)] have "m = n" "CR \<notin> set b" by simp_all
  with Cons mb n assms(1) u show ?case by (simp add: store_def proper_cfg_def)
qed (simp add: store_def)

lemma insort_key_map: "(\<And>x. k (h x) = j x) \<Longrightarrow> insort_key k (h x) (map h xs) = map h (insort_key j x xs)"
  by (induction xs) simp_all

lemma sort_key_map: "(\<And>x. k (h x) = j x) \<Longrightarrow> sort_key k (map h xs) = map h (sort_key j xs)"
  by (induction xs) (simp_all add: insort_key_map)

lemma scandir_store: "scandir (store us) = store (sort_key fst us)"
  unfolding scandir_def store_def by (rule sort_key_map) (simp add: case_prod_beta)

lemma GetUserList_store:
  assumes "proper_cfg cfg" "\<forall>u\<in>set us. proper_user cfg u" "CR \<notin> set buf" "length us \<le> DMM_MAX_FR_NUM cfg"
  shows "DMM_GetUserList cfg buf (store us) = Some (map (\<lambda>(d, n). (n, ''ID/'' @ d)) (sort_key fst us))"
  using list_users_store [OF assms(1) _ assms(3), of "sort_key fst us"] assms(2,4)
  by (simp add: DMM_GetUserList_def scandir_store Let_def)

subsection \<open>Lemmas: numbers\<close>

lemma decimal_small: "n < 10 \<Longrightarrow> decimal n = [digit n]"
  by (simp add: decimal.simps [of n])

lemma zero_padded_3:
  assumes "n < 1000"
  shows "zero_padded 3 n = [digit (n div 100), digit (n div 10 mod 10), digit (n mod 10)]"
proof -
  consider "n < 10" | "10 \<le> n" "n < 100" | "100 \<le> n" by linarith
  then show ?thesis
  proof cases
    case 2
    then show ?thesis by (simp add: zero_padded_def decimal.simps [of n] decimal_small Let_def)
  next
    case 3
    with assms have "decimal n = decimal (n div 10) @ [digit (n mod 10)]" "decimal (n div 10) =
        [digit (n div 10 div 10), digit (n div 10 mod 10)]"
      by (simp_all add: decimal.simps [of n] decimal.simps [of "n div 10"] decimal_small)
    then show ?thesis by (simp add: zero_padded_def div_mult2_eq [symmetric] Let_def)
  qed (simp add: zero_padded_def decimal_small Let_def numeral_3_eq_3)
qed

lemma digit_less: "a < 10 \<Longrightarrow> b < 10 \<Longrightarrow> digit a < digit b \<longleftrightarrow> a < b"
  and digit_eq: "a < 10 \<Longrightarrow> b < 10 \<Longrightarrow> digit a = digit b \<longleftrightarrow> a = b"
  by (auto simp: digit_def less_char_def of_char_of dest: arg_cong [of _ _ "of_char :: char \<Rightarrow> nat"])

lemma places_less:
  assumes "y < 10" "z < 10" "y' < 10" "z' < (10::nat)"
  shows "(x < x' \<or> x = x' \<and> (y < y' \<or> y = y' \<and> z < z')) \<longleftrightarrow> x * 100 + y * 10 + z < x' * 100 + y' * 10 + z'"
proof (cases x x' rule: linorder_cases)
  case equal
  with assms show ?thesis by (cases y y' rule: linorder_cases) simp_all
qed (use assms in simp_all)

lemma user_dir_less:
  assumes "a < 1000" "b < 1000"
  shows "user_dir a < user_dir b \<longleftrightarrow> a < b"
proof -
  have e: "n div 100 * 100 + n div 10 mod 10 * 10 + n mod 10 = n" for n :: nat
  proof -
    have "n div 100 = n div 10 div 10" using div_mult2_eq [of n 10 10] by simp
    with div_mult_mod_eq [of n 10] div_mult_mod_eq [of "n div 10" 10] show ?thesis by linarith
  qed
  have d: "n div 100 < 10" if "n < 1000" for n :: nat using that by auto
  have "user_dir a < user_dir b \<longleftrightarrow> a div 100 < b div 100 \<or> a div 100 = b div 100 \<and>
      (a div 10 mod 10 < b div 10 mod 10 \<or> a div 10 mod 10 = b div 10 mod 10 \<and> a mod 10 < b mod 10)"
    using d [OF assms(1)] d [OF assms(2)]
    by (simp add: user_dir_def zero_padded_3 assms digit_less digit_eq)
  also have "\<dots> \<longleftrightarrow> a < b" by (subst places_less) (simp_all add: e)
  finally show ?thesis .
qed

text \<open>In a strictly increasing list the first place that does not hold its own number gives the least number that
  is missing.\<close>

lemma first_gap:
  assumes "sorted_wrt (<) (js :: nat list)" "\<forall>j<i. j < length js \<and> js ! j = j" "i < length js \<longrightarrow> js ! i \<noteq> i"
  shows "i \<notin> set js \<and> {..<i} \<subseteq> set js"
proof
  show "{..<i} \<subseteq> set js" using assms(2) by (metis lessThan_iff nth_mem subsetI)
  show "i \<notin> set js"
  proof
    assume "i \<in> set js"
    then obtain k where k: "k < length js" "js ! k = i" by (auto simp: in_set_conv_nth)
    have "\<not> k < i" using assms(2) k by auto
    moreover have "k \<noteq> i" using assms(3) k by auto
    ultimately have "i < k" by simp
    have ge: "l \<le> js ! l" if "l < length js" for l
      using that
    proof (induction l)
      case (Suc l)
      then have "js ! l < js ! Suc l" using assms(1) by (simp add: sorted_wrt_iff_nth_less)
      with Suc show ?case by simp
    qed simp
    from ge [OF k(1)] k(2) \<open>i < k\<close> show False by simp
  qed
qed

lemma zero_padded_2: "i < 100 \<Longrightarrow> length (zero_padded 2 i) = 2" "100 \<le> i \<Longrightarrow> i < 1000 \<Longrightarrow> zero_padded 2 i = zero_padded 3 i"
proof -
  assume "i < 100"
  then show "length (zero_padded 2 i) = 2"
    by (cases "i < 10") (simp_all add: zero_padded_def decimal.simps [of i] decimal_small Let_def)
next
  assume "100 \<le> i" "i < 1000"
  then have "decimal i = decimal (i div 10) @ [digit (i mod 10)]" "decimal (i div 10) =
      [digit (i div 10 div 10), digit (i div 10 mod 10)]"
    by (simp_all add: decimal.simps [of i] decimal.simps [of "i div 10"] decimal_small)
  then show "zero_padded 2 i = zero_padded 3 i" by (simp add: zero_padded_def Let_def)
qed

lemma user_dir_inj: "a < 1000 \<Longrightarrow> b < 1000 \<Longrightarrow> user_dir a = user_dir b \<Longrightarrow> a = b"
  by (metis linorder_neqE_nat order_less_irrefl user_dir_less)

lemma old_name_differs:
  assumes "i < 1000" "j < 1000" "j \<noteq> i"
  shows "''user'' @ zero_padded 2 i \<noteq> user_dir j"
proof (cases "i < 100")
  case True
  then show ?thesis using zero_padded_2(1) [of i] zero_padded_3 [OF assms(2)] by (auto simp: user_dir_def)
next
  case False
  then show ?thesis using zero_padded_2(2) [of i] user_dir_inj [of i j] assms by (auto simp: user_dir_def)
qed

text \<open>The users of the numbered directories, in the order of the list.\<close>

definition numbered :: "(nat \<times> string) list \<Rightarrow> (string \<times> string) list" where
  "numbered kns = map (\<lambda>(k, n). (user_dir k, n)) kns"

definition in_order :: "(nat \<times> string) list \<Rightarrow> (nat \<times> string) list" where
  "in_order kns = sort_key (\<lambda>u. user_dir (fst u)) kns"

lemma length_numbered [simp]: "length (numbered kns) = length kns"
  by (simp add: numbered_def)

lemma sort_numbered: "sort_key fst (numbered kns) = numbered (in_order kns)"
  unfolding numbered_def in_order_def by (rule sort_key_map) (simp add: case_prod_beta)

lemma in_order_simps [simp]: "set (in_order kns) = set kns" "length (in_order kns) = length kns"
  "distinct (map fst (in_order kns)) = distinct (map fst kns)"
  by (simp_all add: in_order_def distinct_map)

lemma in_order_sorted:
  assumes "distinct (map fst kns)" "\<forall>u\<in>set kns. fst u < 1000"
  shows "sorted_wrt (<) (map fst (in_order kns))"
proof -
  let ?xs = "in_order kns"
  have s: "sorted_wrt (\<lambda>x y. user_dir (fst x) \<le> user_dir (fst y)) ?xs"
    using sorted_sort_key [of "\<lambda>u. user_dir (fst u)" kns] by (simp add: in_order_def sorted_map)
  have d: "distinct (map fst ?xs)" using assms(1) by simp
  have "fst (?xs ! i) < fst (?xs ! j)" if "i < j" "j < length ?xs" for i j
  proof -
    have "fst (?xs ! i) \<noteq> fst (?xs ! j)" using d that by (auto simp: distinct_conv_nth)
    moreover have "user_dir (fst (?xs ! i)) \<le> user_dir (fst (?xs ! j))"
      using s that by (simp add: sorted_wrt_iff_nth_less)
    moreover have "fst (?xs ! i) < 1000" "fst (?xs ! j) < 1000"
      using assms(2) that nth_mem [of _ ?xs] by (simp_all only: in_order_simps)
    ultimately show ?thesis using user_dir_less user_dir_inj by (metis order_le_less)
  qed
  then show ?thesis by (simp add: sorted_wrt_iff_nth_less)
qed

lemma free_number_gap:
  assumes "distinct (map fst kns)" "\<forall>u\<in>set kns. fst u < 1000" "length kns < DMM_MAX_FR_NUM cfg" "DMM_MAX_FR_NUM cfg \<le> 1000"
  shows "\<exists>i<DMM_MAX_FR_NUM cfg. free_number cfg (map (\<lambda>(d, n). (n, ''ID/'' @ d)) (numbered (in_order kns))) = Some i \<and>
    i \<notin> fst ` set kns \<and> {..<i} \<subseteq> fst ` set kns"
proof -
  define js where "js = map fst (in_order kns)"
  define us where "us = map (\<lambda>(d, n). (n, ''ID/'' @ d)) (numbered (in_order kns))"
  define P where "P = (\<lambda>i. let szDir = (if i < length us then snd (us ! i) else [])
               in szDir \<noteq> ''ID/user'' @ zero_padded 2 i \<and> szDir \<noteq> ''ID/user'' @ zero_padded 3 i)"
  have l: "length us = length js" "length js = length kns" by (simp_all add: us_def js_def numbered_def)
  have nth: "snd (us ! i) = ''ID/'' @ user_dir (js ! i)" "js ! i < 1000" if "i < length js" for i
    using that assms(2) nth_mem [of i "in_order kns"]
    by (simp_all add: us_def js_def numbered_def case_prod_beta)
  have P: "P i \<longleftrightarrow> \<not> (i < length js \<and> js ! i = i)" if "i < DMM_MAX_FR_NUM cfg" for i
    using nth [of i] old_name_differs [of i "js ! i"] user_dir_inj [of i "js ! i"] that assms(4) l(1)
    by (auto simp: P_def Let_def user_dir_def)
  define i where "i = (LEAST i. P i)"
  have p: "P (length js)" using P [of "length js"] assms(3) l(2) by simp
  have "P i" "i \<le> length js" "j < i \<Longrightarrow> \<not> P j" for j
    unfolding i_def using LeastI [of P, OF p] Least_le [of P, OF p] not_less_Least [of j P] by simp_all
  then have i: "i < DMM_MAX_FR_NUM cfg" "P i" "\<forall>j<i. \<not> P j" using assms(3) l(2) by auto
  then have f: "find P [0..<DMM_MAX_FR_NUM cfg] = Some i" by (auto simp: find_Some_iff)
  have "i \<notin> set js \<and> {..<i} \<subseteq> set js"
    using i P in_order_sorted [OF assms(1,2)] by (intro first_gap) (auto simp: js_def)
  with f i(1) show ?thesis unfolding free_number_def P_def us_def js_def by (auto simp: image_iff)
qed

subsection \<open>Lemmas: registering and deleting\<close>

text \<open>A directory of numbered users that the library sizes have room for, and a name it can take.\<close>

definition proper_users :: "users_cfg \<Rightarrow> string \<Rightarrow> (nat \<times> string) list \<Rightarrow> bool" where
  "proper_users cfg buf kns \<longleftrightarrow> proper_cfg cfg \<and> DMM_MAX_FR_NUM cfg \<le> 1000 \<and> 11 \<le> DMM_MAX_DIRLEN cfg \<and> CR \<notin> set buf \<and>
     distinct (map fst kns) \<and> (\<forall>u\<in>set kns. fst u < 1000 \<and> plain (snd u) \<and> length (snd u) \<le> 1000) \<and>
     length kns \<le> DMM_MAX_FR_NUM cfg"

definition new_name :: "users_cfg \<Rightarrow> (nat \<times> string) list \<Rightarrow> string \<Rightarrow> bool" where
  "new_name cfg kns name \<longleftrightarrow> shell_literal name \<and> length name < 84 \<and> length name < DMM_MAX_NAMELEN cfg - 1 \<and>
     name \<notin> snd ` set kns \<and> length kns < DMM_MAX_FR_NUM cfg"

lemma shell_literal_plain: "shell_literal n \<Longrightarrow> plain n"
  by (auto simp: shell_literal_def plain_def list_all_iff)

lemma user_dir_length: "k < 1000 \<Longrightarrow> length (user_dir k) = 7"
  by (simp add: user_dir_def zero_padded_3)

lemma user_dir_user: "strstr (user_dir k) ''user''"
proof -
  have "take (length ''user'') (drop 0 (user_dir k)) = ''user''" by (simp add: user_dir_def)
  then show ?thesis unfolding strstr_def list_ex_iff by (intro bexI [of _ 0]) (assumption, simp)
qed

lemma proper_users_GetUserList:
  assumes "proper_users cfg buf kns"
  shows "DMM_GetUserList cfg buf (store (numbered kns)) = Some (map (\<lambda>(d, n). (n, ''ID/'' @ d)) (numbered (in_order kns)))"
proof -
  have "\<forall>u\<in>set (numbered kns). proper_user cfg u"
    using assms user_dir_length user_dir_user
    by (auto simp: proper_users_def numbered_def proper_user_def)
  with assms show ?thesis
    by (subst GetUserList_store) (simp_all add: proper_users_def sort_numbered)
qed

lemma names_of_list [simp]: "fst ` set (map (\<lambda>(d, n). (n, ''ID/'' @ d)) (numbered (in_order kns))) = snd ` set kns"
  by (auto simp: numbered_def image_image case_prod_beta)

lemma echo_new:
  assumes "shell_literal name" "length name < 84" "length d = 7" "d \<notin> fst ` set us"
  shows "echo_username name (''ID/'' @ d) ok ((d, Dir None) # store us) =
    Some (if ok then (True, store ((d, name) # us)) else (False, (d, Dir None) # store us))"
proof -
  have "map (\<lambda>(e, x). if ''ID/'' @ e = ''ID/'' @ d then (e, Dir (Some (''username='' @ name @ [LF]))) else (e, x)) (store us) =
      store us"
    using assms(4) by (intro map_idI) (auto simp: store_def image_iff)
  then show ?thesis using assms(1-3) by (simp add: echo_username_def store_def)
qed

lemma register_new:
  assumes "proper_users cfg buf kns" "new_name cfg kns name"
  shows "\<exists>i. i \<notin> fst ` set kns \<and> {..<i} \<subseteq> fst ` set kns \<and> i < DMM_MAX_FR_NUM cfg \<and>
    (\<forall>mkdir_ok sys_ok. DMM_RegisterUser cfg buf mkdir_ok sys_ok name (store (numbered kns)) = Some (
       if \<not> mkdir_ok then (SV_FAILURE, store (numbered kns), None)
       else if \<not> sys_ok then (SV_FAILURE, (user_dir i, Dir None) # store (numbered kns), None)
       else (SV_SUCCESS, store (numbered ((i, name) # kns)), Some (user_dir i))))"
proof -
  obtain i where i: "i < DMM_MAX_FR_NUM cfg"
    "free_number cfg (map (\<lambda>(d, n). (n, ''ID/'' @ d)) (numbered (in_order kns))) = Some i"
    "i \<notin> fst ` set kns" "{..<i} \<subseteq> fst ` set kns"
    using free_number_gap [of kns cfg] assms by (auto simp: proper_users_def new_name_def)
  have d: "length (user_dir i) = 7" using i(1) assms(1) by (intro user_dir_length) (simp add: proper_users_def)
  have n: "user_dir i \<notin> fst ` set (numbered kns)"
    using i(1,3) assms(1) user_dir_inj [of i] by (force simp: numbered_def proper_users_def)
  have n': "user_dir i \<notin> fst ` set (store (numbered kns))" using n by (force simp: store_def)
  have st: "store ((user_dir i, name) # numbered kns) = store (numbered ((i, name) # kns))" by (simp add: numbered_def)
  have "DMM_RegisterUser cfg buf mkdir_ok sys_ok name (store (numbered kns)) = Some (
       if \<not> mkdir_ok then (SV_FAILURE, store (numbered kns), None)
       else if \<not> sys_ok then (SV_FAILURE, (user_dir i, Dir None) # store (numbered kns), None)
       else (SV_SUCCESS, store (numbered ((i, name) # kns)), Some (user_dir i)))" for mkdir_ok sys_ok
    using assms(2) n' i(2) echo_new [OF _ _ d n, of name sys_ok] st
    by (simp add: DMM_RegisterUser_def proper_users_GetUserList [OF assms(1)] new_name_def Let_def del: set_map append_Cons)
  with i show ?thesis by blast
qed

lemma find_user:
  assumes "(k, name) \<in> set xs" "distinct (map snd xs)"
  shows "find (\<lambda>(n, _). n = name) (map (\<lambda>(d, n). (n, ''ID/'' @ d)) (numbered xs)) = Some (name, ''ID/'' @ user_dir k)"
  using assms by (induction xs) (auto simp: numbered_def image_iff)

lemma remove_user:
  assumes "\<forall>u\<in>set kns. fst u < 1000" "k < 1000"
  shows "remove_dir (''ID/'' @ user_dir k) True (store (numbered kns)) = (True, store (numbered (filter (\<lambda>u. fst u \<noteq> k) kns)))"
proof -
  have "filter (\<lambda>(e, _). ''ID/'' @ e \<noteq> ''ID/'' @ user_dir k) (store (numbered kns)) =
      store (numbered (filter (\<lambda>u. fst u \<noteq> k) kns))"
    using assms user_dir_inj by (induction kns) (auto simp: store_def numbered_def)
  then show ?thesis by (simp add: remove_dir_def)
qed

lemma delete_user:
  assumes "proper_users cfg buf kns" "distinct (map snd kns)" "(k, name) \<in> set kns"
  shows "DMM_DeleteUser cfg buf True name (store (numbered kns)) =
    Some (SV_SUCCESS, store (numbered (filter (\<lambda>u. fst u \<noteq> k) kns)))"
proof -
  have d: "distinct (map snd (in_order kns))" using assms(2) by (simp add: in_order_def distinct_map)
  have "k < 1000" "\<forall>u\<in>set kns. fst u < 1000" using assms by (auto simp: proper_users_def)
  then show ?thesis
    using find_user [OF _ d, of k name] assms(3)
    by (simp add: DMM_DeleteUser_def proper_users_GetUserList [OF assms(1)] remove_user del: append_Cons)
qed

lemma list_users_skips: "list_users cfg buf (fs @ (d, Dir None) # gs) = list_users cfg buf (fs @ gs)"
  by (induction cfg buf fs rule: list_users.induct) (auto split: prod.split)

lemma insort_key_split: "\<exists>ys zs. insort_key f x xs = ys @ x # zs \<and> xs = ys @ zs"
proof (induction xs)
  case (Cons a xs)
  show ?case
  proof (cases "f x \<le> f a")
    case True
    then have "insort_key f x (a # xs) = [] @ x # a # xs" by simp
    then show ?thesis by (metis append_Nil)
  next
    case False
    from Cons.IH obtain ys zs where "insort_key f x xs = ys @ x # zs" "xs = ys @ zs" by blast
    with False have "insort_key f x (a # xs) = (a # ys) @ x # zs" "a # xs = (a # ys) @ zs" by simp_all
    then show ?thesis by blast
  qed
qed simp

lemma GetUserList_nameless: "DMM_GetUserList cfg buf ((d, Dir None) # fs) = DMM_GetUserList cfg buf fs"
proof -
  obtain ys zs where "scandir ((d, Dir None) # fs) = ys @ (d, Dir None) # zs" "scandir fs = ys @ zs"
    using insort_key_split [of fst "(d, Dir None)" "scandir fs"] by (auto simp: scandir_def)
  then show ?thesis by (simp add: DMM_GetUserList_def list_users_skips)
qed

subsection \<open>Properties\<close>


definition sample_users_cfg :: users_cfg where
  "sample_users_cfg = \<lparr>FRS_USERINFOS_DIR = ''ID'', DMM_MAX_DIRLEN = 32, DMM_MAX_NAMELEN = 64, DMM_MAX_FR_NUM = 100\<rparr>"

lemma sample_users: "proper_users sample_users_cfg [] [(0, ''ann''), (2, ''bob'')]"
  "new_name sample_users_cfg [(0, ''ann''), (2, ''bob'')] ''eve''"
  by (simp_all add: proper_users_def proper_cfg_def sample_users_cfg_def new_name_def plain_def shell_literal_def)


text \<open> one registration that fails in the shell blocks all further ones: it leaves a directory without a name,
  which the list of users does not show, so every later registration picks the same number and
  fails because the directory exists, as long as nobody removes it by hand.\<close>

theorem failed_registration_blocks:
  assumes "proper_users cfg buf kns" "new_name cfg kns name" "new_name cfg kns name'"
  shows "\<exists>fs'. DMM_RegisterUser cfg buf True False name (store (numbered kns)) = Some (SV_FAILURE, fs', None) \<and>
    DMM_GetUserList cfg buf fs' = DMM_GetUserList cfg buf (store (numbered kns)) \<and>
    (\<forall>mkdir_ok sys_ok. DMM_RegisterUser cfg buf mkdir_ok sys_ok name' fs' = Some (SV_FAILURE, fs', None))"
proof -
  obtain i where i: "i < DMM_MAX_FR_NUM cfg"
    "free_number cfg (map (\<lambda>(d, n). (n, ''ID/'' @ d)) (numbered (in_order kns))) = Some i"
    "i \<notin> fst ` set kns"
    using free_number_gap [of kns cfg] assms by (auto simp: proper_users_def new_name_def)
  have d: "length (user_dir i) = 7" using i(1) assms(1) by (intro user_dir_length) (simp add: proper_users_def)
  have n: "user_dir i \<notin> fst ` set (numbered kns)"
    using i(1,3) assms(1) user_dir_inj [of i] by (force simp: numbered_def proper_users_def)
  have n': "user_dir i \<notin> fst ` set (store (numbered kns))" using n by (force simp: store_def)
  let ?fs = "(user_dir i, Dir None) # store (numbered kns)"
  have "DMM_RegisterUser cfg buf True False name (store (numbered kns)) = Some (SV_FAILURE, ?fs, None)"
    using assms(2) n' i(2) echo_new [OF _ _ d n, of name False]
    by (simp add: DMM_RegisterUser_def proper_users_GetUserList [OF assms(1)] new_name_def Let_def del: set_map append_Cons)
  moreover have "DMM_RegisterUser cfg buf mkdir_ok sys_ok name' ?fs = Some (SV_FAILURE, ?fs, None)" for mkdir_ok sys_ok
    using assms(3) i(2)
    by (simp add: DMM_RegisterUser_def GetUserList_nameless proper_users_GetUserList [OF assms(1)] new_name_def Let_def del: set_map append_Cons)
  ultimately show ?thesis using GetUserList_nameless by blast
qed

theorem failed_registration_blocks_witness:
  "\<exists>fs'. DMM_RegisterUser sample_users_cfg [] True False ''eve'' (store (numbered [(0, ''ann''), (2, ''bob'')])) =
     Some (SV_FAILURE, fs', None) \<and>
     DMM_RegisterUser sample_users_cfg [] True True ''eve'' fs' = Some (SV_FAILURE, fs', None)"
  using failed_registration_blocks [OF sample_users(1) sample_users(2) sample_users(2)] by blast

text \<open> directories of older releases, with two digits, break the numbering: in a list with both kinds a new
  user gets a number that an old one has, here 1.\<close>

definition mixed_users :: "(string \<times> string) list" where
  "mixed_users = [(''user00'', ''ann''), (''user003'', ''dan''), (''user01'', ''bob''), (''user02'', ''eve'')]"

theorem old_numbers_clash:
  "map_option (\<lambda>(r, fs', d). (r, map fst fs', d))
     (DMM_RegisterUser sample_users_cfg [] True True ''tom'' (store mixed_users)) =
   Some (SV_SUCCESS, [''user001'', ''user00'', ''user003'', ''user01'', ''user02''], Some ''user001'')"
  by code_simp

end
