(* ===== verification/Dmm_Detect.thy ===== *)
theory Dmm_Detect
  imports Dmm_Run "HOL-Library.Signed_Division"
begin

section \<open>The detection round of the driver monitor (dmm/dmm.cpp)\<close>

text \<open>
  One round of \<open>dmm_DetctionBody\<close>: the count-down of every alarm (while it runs the analysis of that alarm is
  switched off), the overspeed check, which jumps over the frame, the frame and its analysis by the library,
  the decision to recognise the driver (\<open>Dmm_Run\<close>), and the alarm with its working-speed condition, sound,
  repetition rules and drawing.  The numbers of the alarms are in a header outside of the repository: arrays over them
  are functions, the order of the loop over them is a parameter, and number 0 is \<open>ALARM_NOTHING\<close>, which the code relies
  on when it compares zeroed alarms with it.
\<close>

subsection \<open>Configuration\<close>

record dmm_conf =
  s32DectectInterval :: int
  bIntervalChanged :: bool
  bDmsAlarmOut :: bool
  bDmsAudioEnable :: bool
  s32WorkSpeed :: int

text \<open>The fields of \<open>CFG_ALG_PARAM\<close> that \<open>DMM_ConfigSet\<close> copies for each alarm (intervals in seconds), and those the
  round reads.  An alarm without an interval field keeps the number it has, 0.\<close>

record dms_param =
  intervals :: "ALARM_TYPE_E \<Rightarrow> int"
  alarm_outs :: "ALARM_TYPE_E \<Rightarrow> bool"
  audios :: "ALARM_TYPE_E \<Rightarrow> bool"
  s32DmsWorkspeed :: "ALARM_TYPE_E \<Rightarrow> int"
  bDmsWorkspeed_almNoGPS :: bool
  s32DmsOverspeedLimit :: int
  s32DmsSensitivity :: int
  s32DmsMiddleSpeedThr :: int
  s32DmsHighSpeedThr :: int
  bDmsOsdEnable :: bool
  s32DmsPwmDutyCycle :: int

datatype dms_customer = CUST_CREARE | CUST_VUE | CUST_SHIQI | CUST_202032 | CUST_OTHER

text \<open>The alarms that have an interval, an output and a sound of their own in the configuration.\<close>

definition has_interval :: "ALARM_TYPE_E \<Rightarrow> bool" where
  "has_interval a \<longleftrightarrow> a \<in> {ALARM_FATIGUE, ALARM_DISTRACTION, ALARM_NO_DRIVER, ALARM_SMOKE, ALARM_PHONE, ALARM_YAWN, ALARM_NO_MASK,
     ALARM_SUNGLASS, ALARM_NO_SEATBELT, ALARM_SHELTER, ALARM_FATIGUE_L2, ALARM_DRINK_EAT, ALARM_OVERSPEED, ALARM_NO_HELMET,
     NOTIFY_LNGIN_CHANGE_GUARD}"

definition has_output :: "ALARM_TYPE_E \<Rightarrow> bool" where
  "has_output a \<longleftrightarrow> has_interval a \<and> a \<noteq> NOTIFY_LNGIN_CHANGE_GUARD \<or> a = NOTIFY_LNGIN_FAILED"

definition has_audio :: "ALARM_TYPE_E \<Rightarrow> bool" where
  "has_audio a \<longleftrightarrow> has_interval a \<and> a \<noteq> NOTIFY_LNGIN_CHANGE_GUARD \<or> a = ALARM_NOTHING"

text \<open>\<open>DMM_ConfigSet\<close>, with the configuration (\<open>stCfgParam\<close>) and \<open>m_stDmmConf\<close>; the last component of the result is the
  duty cycle written to the PWM device of one customer.  The thresholds it hands to the analyser are left out.\<close>

definition alarm_conf :: "dms_customer \<Rightarrow> dms_param \<Rightarrow> ALARM_TYPE_E \<Rightarrow> dmm_conf \<Rightarrow> dmm_conf" where
  "alarm_conf cust p a c =
     (let n = s32 (intervals p a * 1000);
          c = (if has_interval a then c\<lparr>bIntervalChanged := s32DectectInterval c \<noteq> n, s32DectectInterval := n\<rparr> else c);
          c = c\<lparr>s32WorkSpeed := s32DmsWorkspeed p (if cust = CUST_CREARE \<and> a = ALARM_SHELTER then ALARM_NO_DRIVER else a)\<rparr>;
          c = (if has_output a then c\<lparr>bDmsAlarmOut := alarm_outs p a\<rparr> else c)
      in if has_audio a then c\<lparr>bDmsAudioEnable := audios p a\<rparr> else c)"

definition DMM_ConfigSet :: "dms_customer \<Rightarrow> dms_param option \<Rightarrow> dms_param \<times> (ALARM_TYPE_E \<Rightarrow> dmm_conf) \<Rightarrow>
    (dms_param \<times> (ALARM_TYPE_E \<Rightarrow> dmm_conf)) \<times> sv_ret \<times> int option" where
  "DMM_ConfigSet cust pstCfgParam s =
     (case pstCfgParam of None \<Rightarrow> (s, ERR_NULL_PTR, None)
      | Some p \<Rightarrow> ((p, \<lambda>a. alarm_conf cust p a (snd s a)), SV_SUCCESS,
          if cust = CUST_202032 \<and> s32DmsPwmDutyCycle (fst s) \<noteq> s32DmsPwmDutyCycle p
          then Some (2500 * s32DmsPwmDutyCycle p) else None))"

definition sensitivity :: "dms_param \<Rightarrow> int \<Rightarrow> rat" where
  "sensitivity p s32GpsSpeed =
     (if s32DmsSensitivity p = - 1 then
        if s32GpsSpeed < s32DmsMiddleSpeedThr p then 1
        else if s32GpsSpeed < s32DmsHighSpeedThr p then f32 (f64 (66 / 100)) else f32 (f64 (33 / 100))
      else if s32DmsSensitivity p = 1 then f32 (f64 (66 / 100))
      else if s32DmsSensitivity p = 2 then f32 (f64 (33 / 100)) else 1)"

subsection \<open>State of the round\<close>

datatype WarnState = NoWarn | Fatigue | Distractoin | No_Driver | Smoke | Phone | Yawn | No_Mask | SunGlass | No_Seatbelt
  | Camera_Occlusion | FatigueL2 | DrinkEat | No_Helmet | OutSize | AngleTrue | WarnStateMax

text \<open>\<open>switches\<close>: what the analyser was last told to look for (\<open>SetFatigueS\<close> and so on); \<open>dmmP\<close>: the last frame.\<close>

record det_round =
  s32AlarmTimeMs :: "ALARM_TYPE_E \<Rightarrow> int"
  s32AlarmTimeMsLast :: "ALARM_TYPE_E \<Rightarrow> int"
  bAlarm :: "ALARM_TYPE_E \<Rightarrow> bool"
  switches :: "ALARM_TYPE_E \<Rightarrow> bool"
  s32FatigueLast :: int
  enAlarmType :: ALARM_TYPE_E
  enAlarmTypeLast :: ALARM_TYPE_E
  s32RepeatTime :: int
  bGetShelter :: bool
  u32ShelterCnt :: int
  s32ClearOsdWtdTimeMs :: int
  bOsd :: bool
  dmmP :: dmmParam

definition round_init :: "dmmParam \<Rightarrow> (ALARM_TYPE_E \<Rightarrow> dmm_conf) \<Rightarrow> (ALARM_TYPE_E \<Rightarrow> bool) \<Rightarrow> det_round" where
  "round_init fr conf sw =
     \<lparr>s32AlarmTimeMs = (\<lambda>a. if a = ALARM_OVERSPEED then 0 else s32DectectInterval (conf a)),
      s32AlarmTimeMsLast = (\<lambda>a. s32DectectInterval (conf a)), bAlarm = (\<lambda>_. False), switches = sw, s32FatigueLast = 0,
      enAlarmType = ALARM_NOTHING, enAlarmTypeLast = ALARM_NOTHING, s32RepeatTime = 0, bGetShelter = False, u32ShelterCnt = 0,
      s32ClearOsdWtdTimeMs = - 1, bOsd = False, dmmP = fr\<rparr>"

datatype round_out = R_Post ALARM_TYPE_E | R_Event ALARM_TYPE_E | R_Gui ALARM_TYPE_E bool | R_Play ALARM_TYPE_E
  | R_Dump ALARM_TYPE_E | R_Osd | R_ClearOsd | R_TimerZero

subsection \<open>The count-downs\<close>

definition set_time :: "ALARM_TYPE_E \<Rightarrow> int \<Rightarrow> det_round \<Rightarrow> det_round" where
  "set_time a t s = s\<lparr>s32AlarmTimeMs := (s32AlarmTimeMs s)(a := t)\<rparr>"

definition set_alarm :: "ALARM_TYPE_E \<Rightarrow> bool \<Rightarrow> det_round \<Rightarrow> det_round" where
  "set_alarm a b s = s\<lparr>bAlarm := (bAlarm s)(a := b)\<rparr>"

definition set_switch :: "ALARM_TYPE_E \<Rightarrow> bool \<Rightarrow> det_round \<Rightarrow> det_round" where
  "set_switch a b s = s\<lparr>switches := (switches s)(a := b)\<rparr>"

definition interval_changed :: "ALARM_TYPE_E \<Rightarrow> dmm_conf \<Rightarrow> det_round \<Rightarrow> det_round" where
  "interval_changed a c s =
     (if bIntervalChanged c then
        let s = (if 0 \<le> s32AlarmTimeMsLast s a then set_alarm a True (set_time a (s32DectectInterval c) s) else s)
        in s\<lparr>s32AlarmTimeMsLast := (s32AlarmTimeMsLast s)(a := s32DectectInterval c)\<rparr>
      else s)"

text \<open>The case all alarms but fatigue and overspeed have.\<close>

definition count_down_plain :: "int \<Rightarrow> ALARM_TYPE_E \<Rightarrow> dmm_conf \<Rightarrow> det_round \<Rightarrow> det_round" where
  "count_down_plain step a c s =
     (if 0 \<le> s32DectectInterval c then
        if bAlarm s a then
          let t = s32 (s32AlarmTimeMs s a - step)
          in if t \<le> 0 then set_switch a True (set_alarm a False (set_time a (s32DectectInterval c) s))
             else set_switch a False (set_time a t s)
        else set_switch a True s
      else set_switch a False s)"

text \<open>Fatigue: while the second level is enabled, the analysis stays on for the five seconds in \<open>s32FatigueLast\<close>.\<close>

definition count_down_fatigue :: "int \<Rightarrow> dmm_conf \<Rightarrow> dmm_conf \<Rightarrow> det_round \<Rightarrow> det_round" where
  "count_down_fatigue step c c2 s =
     (if 0 \<le> s32DectectInterval c then
        if bAlarm s ALARM_FATIGUE then
          let t = s32 (s32AlarmTimeMs s ALARM_FATIGUE - step);
              s = set_switch ALARM_FATIGUE (t \<le> 0) (set_time ALARM_FATIGUE t s);
              s = (if 0 \<le> s32DectectInterval c2 \<and> 0 \<le> s32FatigueLast s then
                     let l = s32 (s32FatigueLast s - step) in set_switch ALARM_FATIGUE (0 \<le> l) (s\<lparr>s32FatigueLast := l\<rparr>)
                   else s)
          in if t \<le> 0 then set_alarm ALARM_FATIGUE False (set_alarm ALARM_FATIGUE_L2 False
               (set_time ALARM_FATIGUE (s32DectectInterval c) s)) else s
        else set_switch ALARM_FATIGUE True s
      else set_switch ALARM_FATIGUE False s)"

text \<open>Overspeed: the second component says that the alarm is raised at once.\<close>

definition count_down_overspeed :: "int \<Rightarrow> int \<Rightarrow> int \<Rightarrow> int \<Rightarrow> dmm_conf \<Rightarrow> det_round \<Rightarrow> det_round \<times> bool" where
  "count_down_overspeed limit step s32GpsStatus s32GpsSpeed c s =
     (if 0 \<le> s32DectectInterval c then
        if s32AlarmTimeMs s ALARM_OVERSPEED \<le> 0 \<and> s32GpsStatus \<noteq> 0 \<and> limit < s32GpsSpeed then
          (s\<lparr>enAlarmType := ALARM_OVERSPEED\<rparr>, True)
        else
          let s = (if s32AlarmTimeMs s ALARM_OVERSPEED \<le> 0 then set_time ALARM_OVERSPEED 0 s else s)
          in if bAlarm s ALARM_OVERSPEED then
               let t = s32 (s32AlarmTimeMs s ALARM_OVERSPEED - step); s = set_time ALARM_OVERSPEED t s
               in (if t \<le> 0 then set_alarm ALARM_OVERSPEED False s else s, False)
             else (s, False)
      else (s, False))"

text \<open>The alarms with an analysis, which have a case in the loop; fatigue of the second level has none.\<close>

definition analysed :: "ALARM_TYPE_E \<Rightarrow> bool" where
  "analysed a \<longleftrightarrow> has_interval a \<and> a \<notin> {ALARM_FATIGUE_L2, ALARM_OVERSPEED, NOTIFY_LNGIN_CHANGE_GUARD}"

text \<open>One round of the loop over the alarms, and the loop; \<open>l\<close>: the locals that decide when to recognise the driver.
  The last component of the result is the jump to the alarm.\<close>

definition count_down :: "dms_param \<Rightarrow> int \<Rightarrow> int \<times> int \<Rightarrow> (ALARM_TYPE_E \<Rightarrow> dmm_conf) \<Rightarrow> ALARM_TYPE_E \<Rightarrow> det_round \<Rightarrow> det_round \<times> bool" where
  "count_down p step gps conf a s =
     (let s = interval_changed a (conf a) s
      in if a = ALARM_FATIGUE then (count_down_fatigue step (conf a) (conf ALARM_FATIGUE_L2) s, False)
         else if a = ALARM_OVERSPEED then count_down_overspeed (s32DmsOverspeedLimit p) step (fst gps) (snd gps) (conf a) s
         else if analysed a then (count_down_plain step a (conf a) s, False)
         else (s, False))"

fun count_downs :: "dms_param \<Rightarrow> int \<Rightarrow> int \<times> int \<Rightarrow> ALARM_TYPE_E list \<Rightarrow> (ALARM_TYPE_E \<Rightarrow> dmm_conf) \<Rightarrow> det_round \<Rightarrow> login_local \<Rightarrow>
    (ALARM_TYPE_E \<Rightarrow> dmm_conf) \<times> det_round \<times> login_local \<times> bool" where
  "count_downs p step gps [] conf s l = (conf, s, l, False)"
| "count_downs p step gps (a # as) conf s l =
     (let (s, now) = count_down p step gps conf a s;
          l = (if bIntervalChanged (conf a) \<and> a = NOTIFY_LNGIN_CHANGE_GUARD then l\<lparr>bCreareNoface := False, u32NoFaceTimeMs := 0\<rparr>
               else l);
          conf = conf(a := (conf a)\<lparr>bIntervalChanged := False\<rparr>)
      in if now then (conf, s, l, True) else count_downs p step gps as conf s l)"

subsection \<open>The alarm\<close>

definition warn_alarm :: "dms_customer \<Rightarrow> WarnState \<Rightarrow> ALARM_TYPE_E option" where
  "warn_alarm cust w =
     (case w of NoWarn \<Rightarrow> Some ALARM_NOTHING | Fatigue \<Rightarrow> Some ALARM_FATIGUE | FatigueL2 \<Rightarrow> Some ALARM_FATIGUE_L2
      | Distractoin \<Rightarrow> Some ALARM_DISTRACTION | No_Driver \<Rightarrow> Some ALARM_NO_DRIVER | Smoke \<Rightarrow> Some ALARM_SMOKE
      | Phone \<Rightarrow> Some ALARM_PHONE | Yawn \<Rightarrow> Some ALARM_YAWN | No_Mask \<Rightarrow> Some ALARM_NO_MASK | SunGlass \<Rightarrow> Some ALARM_SUNGLASS
      | No_Seatbelt \<Rightarrow> Some ALARM_NO_SEATBELT
      | Camera_Occlusion \<Rightarrow> Some (if cust = CUST_CREARE then ALARM_NO_DRIVER else ALARM_SHELTER)
      | DrinkEat \<Rightarrow> Some ALARM_DRINK_EAT | No_Helmet \<Rightarrow> Some ALARM_NO_HELMET | _ \<Rightarrow> None)"

definition take_warning :: "dms_customer \<Rightarrow> WarnState \<Rightarrow> det_round \<Rightarrow> det_round" where
  "take_warning cust w s =
     (let s = (case warn_alarm cust w of Some a \<Rightarrow> s\<lparr>enAlarmType := a\<rparr> | None \<Rightarrow> s)
      in if w = Camera_Occlusion then s\<lparr>bGetShelter := True\<rparr> else s)"

text \<open>The working-speed condition: \<open>Some True\<close> reports the alarm as one at low speed.\<close>

definition work_speed :: "dms_customer \<Rightarrow> dms_param \<Rightarrow> int \<times> int \<Rightarrow> ALARM_TYPE_E \<Rightarrow> bool option" where
  "work_speed cust p gps a =
     (let v = s32DmsWorkspeed p (if cust = CUST_CREARE then a else ALARM_NOTHING)
      in if 0 < v then
           if fst gps = 0 then if \<not> bDmsWorkspeed_almNoGPS p then None else Some (cust = CUST_VUE)
           else if snd gps < v then if cust = CUST_VUE then Some True else None
           else Some False
         else Some False)"

text \<open>The delays of one customer after the alarm was repeated.\<close>

definition repeat_delay :: "ALARM_TYPE_E \<Rightarrow> int \<Rightarrow> int option" where
  "repeat_delay a n =
     (if a = ALARM_NO_DRIVER \<or> a = ALARM_PHONE \<or> a = ALARM_SMOKE then
        if n mod 9 = 0 then Some (if a = ALARM_NO_DRIVER then 30 * 60 * 1000 else 10 * 60 * 1000)
        else if n mod 3 = 0 then Some (3 * 60 * 1000) else None
      else None)"

text \<open>After the label \<open>submit_msg\<close>.  \<open>nothing_reported\<close> is the branch without an alarm, \<open>raise_alarm\<close> what follows the
  working-speed condition.\<close>

definition nothing_reported :: "dms_param \<Rightarrow> det_round \<Rightarrow> det_round" where
  "nothing_reported p s =
     (let s = (if enAlarmTypeLast s = ALARM_NO_DRIVER \<and> 1 < s32RepeatTime s \<and> detectFace (dmmP s) then
                 (set_time ALARM_NO_DRIVER (s32 (intervals p ALARM_NO_DRIVER * 1000)) s)
                   \<lparr>enAlarmTypeLast := ALARM_NOTHING, s32RepeatTime := 0\<rparr>
               else s)
      in s\<lparr>bOsd := s32DmsWorkspeed p ALARM_NOTHING \<le> 0 \<or> bDmsWorkspeed_almNoGPS p\<rparr>)"

definition start_interval :: "(ALARM_TYPE_E \<Rightarrow> dmm_conf) \<Rightarrow> det_round \<Rightarrow> det_round" where
  "start_interval conf s =
     (let a = enAlarmType s; s = set_time a (s32DectectInterval (conf a)) (set_alarm a True (s\<lparr>bOsd := True\<rparr>))
      in if a = ALARM_FATIGUE then s\<lparr>s32FatigueLast := if 0 \<le> s32DectectInterval (conf ALARM_FATIGUE_L2) then 5 * 1000 else - 1\<rparr>
         else s)"

definition alarm_reports :: "(ALARM_TYPE_E \<Rightarrow> dmm_conf) \<Rightarrow> bool \<Rightarrow> det_round \<Rightarrow> round_out list" where
  "alarm_reports conf low s =
     (let a = enAlarmType s
      in (if low then [] else [R_Post a, R_Event a]) @ [R_Gui a low] @
         (if (a = ALARM_NO_DRIVER \<or> a = ALARM_SHELTER) \<and> 5 \<le> s32RepeatTime s then []
          else if bDmsAudioEnable (conf ALARM_NOTHING) \<and> bDmsAudioEnable (conf a) \<and> \<not> low then [R_Play a] else []))"

definition repeat_rule :: "dms_customer \<Rightarrow> det_round \<Rightarrow> det_round" where
  "repeat_rule cust s =
     (let a = enAlarmType s
      in if a \<noteq> enAlarmTypeLast s then s\<lparr>s32RepeatTime := 1, enAlarmTypeLast := a\<rparr>
         else let s = s\<lparr>s32RepeatTime := s32 (s32RepeatTime s + 1)\<rparr>
           in case if cust = CUST_SHIQI then repeat_delay a (s32RepeatTime s) else None of
               Some d \<Rightarrow> set_time a d s | None \<Rightarrow> s)"

definition raise_alarm :: "dms_customer \<Rightarrow> (ALARM_TYPE_E \<Rightarrow> dmm_conf) \<Rightarrow> bool \<Rightarrow> det_round \<Rightarrow> det_round \<times> round_out list" where
  "raise_alarm cust conf low s = (let s = start_interval conf s in (repeat_rule cust s, alarm_reports conf low s))"

definition submit :: "dms_customer \<Rightarrow> dms_param \<Rightarrow> (ALARM_TYPE_E \<Rightarrow> dmm_conf) \<Rightarrow> int \<times> int \<Rightarrow> det_round \<Rightarrow>
    det_round \<times> round_out list" where
  "submit cust p conf gps s =
     (let s = s\<lparr>bOsd := False\<rparr>
      in if enAlarmType s = ALARM_NOTHING then (nothing_reported p s, [])
         else let s = (if enAlarmType s = ALARM_OVERSPEED
                       then set_time ALARM_OVERSPEED (s32 (intervals p ALARM_OVERSPEED * 1000)) s else s)
           in case work_speed cust p gps (enAlarmType s) of
               None \<Rightarrow> (s\<lparr>enAlarmTypeLast := enAlarmType s\<rparr>, if fst gps = 0 then [] else [R_TimerZero])
             | Some low \<Rightarrow> raise_alarm cust conf low s)"

subsection \<open>The rest of the round\<close>

definition clear_osd :: "int \<Rightarrow> det_round \<Rightarrow> det_round \<times> round_out list" where
  "clear_osd step s =
     (if s32ClearOsdWtdTimeMs s \<noteq> - 1 then
        let n = s32 (s32ClearOsdWtdTimeMs s + step)
        in if 1000 \<le> n then (s\<lparr>s32ClearOsdWtdTimeMs := - 1\<rparr>, [R_ClearOsd]) else (s\<lparr>s32ClearOsdWtdTimeMs := n\<rparr>, [])
      else (s, []))"

definition dump_alarm :: "det_round \<Rightarrow> det_round \<times> round_out list" where
  "dump_alarm s =
     (if bGetShelter s then
        if enAlarmType s = ALARM_NOTHING then
          if u32ShelterCnt s \<le> 5 then (s\<lparr>u32ShelterCnt := u32ShelterCnt s + 1\<rparr>, [R_Dump ALARM_SHELTER])
          else (s, [R_Dump ALARM_NOTHING])
        else if enAlarmType s \<noteq> ALARM_SHELTER then (s\<lparr>bGetShelter := False, u32ShelterCnt := 0\<rparr>, [R_Dump (enAlarmType s)])
        else (s\<lparr>u32ShelterCnt := 0\<rparr>, [R_Dump ALARM_SHELTER])
      else (s, [R_Dump (enAlarmType s)]))"

definition draw_osd :: "dms_customer \<Rightarrow> dms_param \<Rightarrow> det_round \<Rightarrow> det_round \<times> round_out list" where
  "draw_osd cust p s =
     (let s = (if cust = CUST_CREARE \<and> enAlarmType s = ALARM_NOTHING then s\<lparr>bOsd := True\<rparr> else s)
      in if bDmsOsdEnable p \<and> bOsd s then (s\<lparr>s32ClearOsdWtdTimeMs := 0\<rparr>, [R_Osd]) else (s, []))"

text \<open>The angle of the face that is drawn.\<close>

definition face_angle :: "rat \<Rightarrow> int" where
  "face_angle h =
     (if h < - 85 then - 90 else if 85 < h then 90
      else (f2s32 (f64 (h + (if 0 < h then 5 / 2 else - (5 / 2)))) sdiv 5) * 5)"

definition finish_round :: "dms_customer \<Rightarrow> dms_param \<Rightarrow> det_round \<Rightarrow> det_round \<times> round_out list" where
  "finish_round cust p s = (let (s, d) = dump_alarm s; (s, g) = draw_osd cust p s in (s, d @ g))"

text \<open>The round up to the frame (\<open>det_head\<close>) and after it (\<open>det_tail\<close>), as in \<open>Dmm_Run\<close>; \<open>gps\<close>: the GPS status and speed, when
  they could be read.\<close>

type_synonym det_state = "(ALARM_TYPE_E \<Rightarrow> dmm_conf) \<times> det_round \<times> dmm_info"

definition det_head :: "dms_customer \<Rightarrow> dms_param \<Rightarrow> ALARM_TYPE_E list \<Rightarrow> (int \<times> int) option \<Rightarrow> tick \<Rightarrow> det_state \<Rightarrow>
    det_state \<times> round_out list" where
  "det_head cust p order gps t st =
     (let (conf, s, i) = st; i = i\<lparr>t_now := tv t\<rparr>
      in if \<not> bRunning i \<or> enRunStat i \<noteq> DMM_RUN_DETECTION then
           ((conf, s, leave_body DMM_RUN_DETECTION i), if bRunning i then [R_ClearOsd] else [])
         else case gps of None \<Rightarrow> ((conf, s, i), [])
         | Some g \<Rightarrow>
             let (s, o1) = clear_osd (step_ms t) s;
                 (conf, s, l, now) = count_downs p (step_ms t) g order conf s (login i);
                 i = i\<lparr>login := l\<rparr>
             in if now then let (s, o2) = submit cust p conf g s; (s, o3) = finish_round cust p s in ((conf, s, i), o1 @ o2 @ o3)
                else let i = frame_gate t DMM_RUN_DETECTION i
                  in ((conf, if phase i = At_Tail DMM_RUN_DETECTION then s\<lparr>dmmP := frame t\<rparr> else s, i), o1))"

definition det_tail :: "dms_customer \<Rightarrow> dms_param \<Rightarrow> dmm_cfg \<Rightarrow> int \<times> int \<Rightarrow> WarnState \<Rightarrow> tick \<Rightarrow> det_state \<Rightarrow>
    det_state \<times> round_out list" where
  "det_tail cust p cfg gps w t st =
     (let (conf, s, i) = st; s = take_warning cust w s;
          (i, b) = login_check cfg (t\<lparr>frame := dmmP s, alarm_last := enAlarmTypeLast s\<rparr>) i;
          (s, o1) = (if b = L_Submit then submit cust p conf gps s else (s, []));
          (s, o2) = finish_round cust p s
      in ((conf, s, i\<lparr>phase := At_Head DMM_RUN_DETECTION\<rparr>), o1 @ o2))"

text \<open>A whole round, with what the analyser answers to the sensitivity, its switches and the frame, and a sequence of them.\<close>

record round_in =
  r_gps :: "(int \<times> int) option"
  r_tick :: tick
  r_analyse :: "rat \<Rightarrow> (ALARM_TYPE_E \<Rightarrow> bool) \<Rightarrow> dmmParam \<Rightarrow> WarnState"

definition dmm_DetctionBody :: "dms_customer \<Rightarrow> dms_param \<Rightarrow> ALARM_TYPE_E list \<Rightarrow> dmm_cfg \<Rightarrow> round_in \<Rightarrow> det_state \<Rightarrow>
    det_state \<times> round_out list" where
  "dmm_DetctionBody cust p order cfg r st =
     (if phase (snd (snd st)) \<noteq> At_Head DMM_RUN_DETECTION then (st, [])
      else let (st, o1) = det_head cust p order (r_gps r) (r_tick r) st; (conf, s, i) = st
        in case r_gps r of
            Some g \<Rightarrow>
              if phase i = At_Tail DMM_RUN_DETECTION then
                let (st, o2) = det_tail cust p cfg g (r_analyse r (sensitivity p (snd g)) (switches s) (dmmP s)) (r_tick r) st in (st, o1 @ o2)
              else (st, o1)
          | None \<Rightarrow> (st, o1))"

fun det_rounds :: "dms_customer \<Rightarrow> dms_param \<Rightarrow> ALARM_TYPE_E list \<Rightarrow> dmm_cfg \<Rightarrow> round_in list \<Rightarrow> det_state \<Rightarrow>
    det_state \<times> round_out list" where
  "det_rounds cust p order cfg [] st = (st, [])"
| "det_rounds cust p order cfg (r # rs) st =
     (let (st, o1) = dmm_DetctionBody cust p order cfg r st; (st, o2) = det_rounds cust p order cfg rs st in (st, o1 @ o2))"

text \<open>The outputs that report the alarm.\<close>

fun about :: "ALARM_TYPE_E \<Rightarrow> round_out \<Rightarrow> bool" where
  "about a (R_Post b) \<longleftrightarrow> a = b"
| "about a (R_Event b) \<longleftrightarrow> a = b"
| "about a (R_Gui b _) \<longleftrightarrow> a = b"
| "about a (R_Play b) \<longleftrightarrow> a = b"
| "about a _ \<longleftrightarrow> False"

subsection \<open>Lemmas\<close>

named_theorems round_defs \<open>the parts of a detection round\<close>

declare set_time_def [round_defs] set_alarm_def [round_defs] set_switch_def [round_defs] interval_changed_def [round_defs]
  count_down_plain_def [round_defs] count_down_fatigue_def [round_defs] count_down_overspeed_def [round_defs] Let_def [round_defs]

text \<open>What the count-downs do to the entry of one plain alarm.\<close>

definition plain :: "ALARM_TYPE_E \<Rightarrow> bool" where "plain a \<longleftrightarrow> analysed a \<and> a \<noteq> ALARM_FATIGUE"

lemma plainD: "plain a \<Longrightarrow> analysed a \<and> a \<notin> {ALARM_NOTHING, ALARM_FATIGUE, ALARM_FATIGUE_L2, ALARM_OVERSPEED, NOTIFY_LNGIN_CHANGE_GUARD}"
  by (auto simp: plain_def analysed_def has_interval_def)

definition entry :: "ALARM_TYPE_E \<Rightarrow> det_round \<Rightarrow> int \<times> bool \<times> bool" where
  "entry a s = (s32AlarmTimeMs s a, bAlarm s a, switches s a)"

lemma count_down_other:
  assumes "plain a" "a \<noteq> b" "count_down p step gps conf b s = (s', now)"
  shows "entry a s' = entry a s"
  using assms plainD [OF assms(1)] by (auto simp: entry_def count_down_def round_defs split: if_splits)

lemma count_downs_other:
  assumes "plain a"
  shows "a \<notin> set order \<Longrightarrow> count_downs p step gps order conf s l = (conf', s', l', now) \<Longrightarrow>
    entry a s' = entry a s \<and> conf' a = conf a"
proof (induction order arbitrary: conf s l)
  case (Cons b order)
  then show ?case
    using count_down_other [OF assms, of b p step gps conf s]
    by (fastforce simp: Let_def split: prod.splits if_splits)
qed simp

lemma count_down_plain_held:
  assumes "bAlarm s a" "n \<le> s32AlarmTimeMs s a" "s32AlarmTimeMs s a < 2147483648" "0 \<le> step" "step < n"
  shows "let s' = count_down_plain step a c s in bAlarm s' a \<and> n - step \<le> s32AlarmTimeMs s' a \<and>
    s32AlarmTimeMs s' a < 2147483648 \<and> \<not> switches s' a"
proof -
  have "s32 (s32AlarmTimeMs s a - step) = s32AlarmTimeMs s a - step" using assms by (intro s32_id) auto
  then show ?thesis using assms by (auto simp: round_defs)
qed

text \<open>While an alarm is held, \<open>n\<close> milliseconds at least, the count-downs keep it held and switch its analysis off.\<close>

definition held :: "ALARM_TYPE_E \<Rightarrow> int \<Rightarrow> det_round \<Rightarrow> bool" where
  "held a n s \<longleftrightarrow> bAlarm s a \<and> n \<le> s32AlarmTimeMs s a \<and> s32AlarmTimeMs s a < 2147483648"

lemma held_entry: "entry a s = entry a s' \<Longrightarrow> held a n s = held a n s'"
  by (simp add: held_def entry_def)

lemma held_mono: "held a n s \<Longrightarrow> m \<le> n \<Longrightarrow> held a m s"
  by (simp add: held_def)

lemma count_downs_held:
  assumes "plain a" "0 \<le> step" "step < n"
  shows "distinct order \<Longrightarrow> a \<in> set order \<Longrightarrow> held a n s \<Longrightarrow> \<not> bIntervalChanged (conf a) \<Longrightarrow>
    count_downs p step gps order conf s l = (conf', s', l', now) \<Longrightarrow>
    held a (n - step) s' \<and> (now \<or> \<not> switches s' a) \<and> conf' a = conf a"
proof (induction order arbitrary: conf s l)
  case (Cons b order)
  show ?case
  proof (cases "b = a")
    case True
    let ?s = "count_down_plain step a (conf a) s"
    have u: "(conf a)\<lparr>bIntervalChanged := False\<rparr> = conf a" using Cons.prems(4) by (cases "conf a") simp
    then have c: "count_downs p step gps order conf ?s l = (conf', s', l', now)"
      using Cons.prems(4,5) True plainD [OF assms(1)] by (simp add: Let_def count_down_def interval_changed_def u)
    have "held a (n - step) ?s \<and> \<not> switches ?s a"
      using count_down_plain_held [of s a n step "conf a"] Cons.prems(3) assms by (simp add: held_def Let_def)
    then show ?thesis
      using count_downs_other [OF assms(1) _ c] Cons.prems(1) True held_entry [of a s' ?s] by (auto simp: entry_def)
  next
    case False
    obtain s1 now1 where one: "count_down p step gps conf b s = (s1, now1)" by fastforce
    have e: "entry a s1 = entry a s" using count_down_other [OF assms(1) _ one] False by simp
    then have h: "held a n s1" using held_entry Cons.prems(3) by blast
    show ?thesis
    proof (cases now1)
      case True
      then show ?thesis using Cons.prems(5) one held_mono [OF h, of "n - step"] assms(2) False by (auto simp: Let_def)
    next
      case nor: False
      define conf1 where "conf1 = conf(b := (conf b)\<lparr>bIntervalChanged := False\<rparr>)"
      have a: "conf1 a = conf a" using False by (simp add: conf1_def)
      obtain l1 where "count_downs p step gps order conf1 s1 l1 = (conf', s', l', now)"
        using Cons.prems(5) one nor by (auto simp: Let_def conf1_def)
      from Cons.IH [OF _ _ h _ this] show ?thesis using Cons.prems(1,2,4) False a by simp
    qed
  qed
qed simp

lemma nothing_reported_held:
  assumes "held a n s" "a = ALARM_NO_DRIVER \<longrightarrow> n \<le> s32 (intervals p ALARM_NO_DRIVER * 1000)"
  shows "held a n (nothing_reported p s)"
  using assms s32_range [of "intervals p ALARM_NO_DRIVER * 1000"] by (auto simp: nothing_reported_def held_def set_time_def Let_def)

lemma start_interval_other:
  "a \<noteq> enAlarmType s \<Longrightarrow> entry a (start_interval conf s) = entry a s" "enAlarmType (start_interval conf s) = enAlarmType s"
  by (auto simp: start_interval_def set_time_def set_alarm_def entry_def Let_def)

lemma repeat_rule_other: "a \<noteq> enAlarmType s \<Longrightarrow> entry a (repeat_rule cust s) = entry a s"
  by (auto simp: repeat_rule_def set_time_def entry_def Let_def split: option.split)

lemma raise_alarm_other:
  assumes "a \<noteq> enAlarmType s"
  shows "entry a (fst (raise_alarm cust conf low s)) = entry a s" "\<not> list_ex (about a) (snd (raise_alarm cust conf low s))"
  using assms by (simp_all add: raise_alarm_def alarm_reports_def start_interval_other repeat_rule_other Let_def)

lemma submit_held:
  assumes "plain a" "held a n s" "enAlarmType s \<noteq> a" "a = ALARM_NO_DRIVER \<longrightarrow> n \<le> s32 (intervals p ALARM_NO_DRIVER * 1000)"
    and "submit cust p conf gps s = (s', outs)"
  shows "held a n s' \<and> \<not> list_ex (about a) outs"
proof -
  define s0 where "s0 = s\<lparr>bOsd := False\<rparr>"
  define s1 where "s1 = (if enAlarmType s0 = ALARM_OVERSPEED
    then set_time ALARM_OVERSPEED (s32 (intervals p ALARM_OVERSPEED * 1000)) s0 else s0)"
  have t0: "enAlarmType s0 = enAlarmType s" by (simp add: s0_def)
  have t: "enAlarmType s1 = enAlarmType s" "held a n s0" "held a n s1"
    using assms(2) plainD [OF assms(1)] by (auto simp: s0_def s1_def set_time_def held_def)
  note r = raise_alarm_other [of a s1 cust conf, unfolded t(1)]
  show ?thesis
  proof (cases "enAlarmType s = ALARM_NOTHING")
    case True
    then show ?thesis
      using assms(5) nothing_reported_held [OF t(2) assms(4)] by (auto simp: submit_def s0_def Let_def)
  next
    case False
    then have "submit cust p conf gps s = (case work_speed cust p gps (enAlarmType s1) of
        None \<Rightarrow> (s1\<lparr>enAlarmTypeLast := enAlarmType s1\<rparr>, if fst gps = 0 then [] else [R_TimerZero])
      | Some low \<Rightarrow> raise_alarm cust conf low s1)"
      unfolding submit_def Let_def s0_def [symmetric] s1_def [symmetric] using t0 by simp
    then show ?thesis
      using assms(3,5) t(3) r held_entry [of a s' s1 n] by (auto simp: held_def split: option.splits if_splits) (metis fst_conv snd_conv)+
  qed
qed

lemma clear_osd_held: "clear_osd step s = (s', o1) \<Longrightarrow>
    entry a s' = entry a s \<and> \<not> list_ex (about b) o1 \<and> list_all (\<lambda>x. x = R_ClearOsd) o1"
  by (auto simp: clear_osd_def entry_def Let_def split: if_splits)

lemma finish_round_held:
  "finish_round cust p s = (s', o1) \<Longrightarrow> entry a s' = entry a s \<and> \<not> list_ex (about b) o1 \<and> dmmP s' = dmmP s"
  by (auto simp: finish_round_def dump_alarm_def draw_osd_def entry_def Let_def split: if_splits)

lemma take_warning_held:
  "entry a (take_warning cust w s) = entry a s"
  "warn_alarm cust w = Some b \<Longrightarrow> enAlarmType (take_warning cust w s) = b"
  by (auto simp: take_warning_def entry_def Let_def split: option.splits)

lemma overspeed_now:
  "count_downs p step gps order conf s l = (conf', s', l', True) \<Longrightarrow> enAlarmType s' = ALARM_OVERSPEED"
proof (induction order arbitrary: conf s l)
  case (Cons b order)
  then show ?case
    by (fastforce simp: Let_def count_down_def count_down_overspeed_def split: prod.splits if_splits)
qed simp

text \<open>One round while the alarm is held.  The analyser reports something, and no alarm whose analysis is off.\<close>

definition obeys_switches :: "dms_customer \<Rightarrow> (rat \<Rightarrow> (ALARM_TYPE_E \<Rightarrow> bool) \<Rightarrow> dmmParam \<Rightarrow> WarnState) \<Rightarrow> bool" where
  "obeys_switches cust ana \<longleftrightarrow> (\<forall>v sw f. \<exists>a. warn_alarm cust (ana v sw f) = Some a \<and> (a = ALARM_NOTHING \<or> sw a))"

lemma det_head_held:
  assumes "plain a" "distinct order" "a \<in> set order" "held a n s" "\<not> bIntervalChanged (conf a)"
    and "0 \<le> step_ms t" "step_ms t < n" "a = ALARM_NO_DRIVER \<longrightarrow> n \<le> s32 (intervals p ALARM_NO_DRIVER * 1000)"
    and "phase i = At_Head DMM_RUN_DETECTION" "det_head cust p order gps t (conf, s, i) = ((conf', s', i'), o1)"
  shows "held a (n - step_ms t) s' \<and> \<not> bIntervalChanged (conf' a) \<and> \<not> list_ex (about a) o1 \<and>
    (phase i' = At_Tail DMM_RUN_DETECTION \<longrightarrow> \<not> switches s' a)"
proof (cases "\<not> bRunning i \<or> enRunStat i \<noteq> DMM_RUN_DETECTION \<or> gps = None")
  case True
  then show ?thesis
    using assms(5-10) held_mono [OF assms(4), of "n - step_ms t"]
    by (auto simp: det_head_def Let_def leave_body_def send_def split: option.splits if_splits)
next
  case False
  then obtain g where g: "gps = Some g" by auto
  obtain s1 o2 where c: "clear_osd (step_ms t) s = (s1, o2)" by fastforce
  obtain conf2 s2 l2 now where d: "count_downs p (step_ms t) g order conf s1 (login i) = (conf2, s2, l2, now)"
    by (metis prod_cases4)
  have "held a n s1" using assms(4) held_entry clear_osd_held [OF c] by blast
  note h = count_downs_held [OF assms(1,6,7,2,3) this assms(5) d]
  obtain s3 o3 where sub: "submit cust p conf2 g s2 = (s3, o3)" by fastforce
  obtain s4 o4 where fin: "finish_round cust p s3 = (s4, o4)" by fastforce
  note S = submit_held [OF assms(1) _ _ _ sub, of "n - step_ms t"]
  show ?thesis
  proof (cases now)
    case True
    have "enAlarmType s2 \<noteq> a" using overspeed_now [of p "step_ms t" g order conf s1] d True plainD [OF assms(1)] by auto
    then have "held a (n - step_ms t) s3 \<and> \<not> list_ex (about a) o3" using S h assms(6,8) by auto
    then show ?thesis
      using assms(5,9,10) False g c d sub fin True h finish_round_held [OF fin, of a a] clear_osd_held [OF c] held_entry [of a s4 s3]
      by (auto simp: det_head_def Let_def)
  next
    case nor: False
    then show ?thesis
      using assms(5,9,10) False g c d h clear_osd_held [OF c]
      by (auto simp: det_head_def Let_def held_def split: if_splits)
  qed
qed

lemma det_tail_held:
  assumes "plain a" "held a n s" "\<not> switches s a" "obeys_switches cust ana"
    and "a = ALARM_NO_DRIVER \<longrightarrow> n \<le> s32 (intervals p ALARM_NO_DRIVER * 1000)"
    and "det_tail cust p cfg g (ana v (switches s) (dmmP s)) t (conf, s, i) = ((conf', s', i'), o1)"
  shows "held a n s' \<and> conf' = conf \<and> \<not> list_ex (about a) o1"
proof -
  let ?w = "ana v (switches s) (dmmP s)"
  let ?s = "take_warning cust ?w s"
  obtain b where "warn_alarm cust ?w = Some b" "b = ALARM_NOTHING \<or> switches s b"
    using assms(4) unfolding obeys_switches_def by blast
  then have b: "enAlarmType ?s \<noteq> a" using take_warning_held(2) assms(3) plainD [OF assms(1)] by auto
  have h: "held a n ?s" using assms(2) held_entry take_warning_held(1) by blast
  obtain i1 br where l: "login_check cfg (t\<lparr>frame := dmmP ?s, alarm_last := enAlarmTypeLast ?s\<rparr>) i = (i1, br)" by fastforce
  obtain s1 o2 where sub: "(if br = L_Submit then submit cust p conf g ?s else (?s, [])) = (s1, o2)" by fastforce
  obtain s2 o3 where fin: "finish_round cust p s1 = (s2, o3)" by fastforce
  have "held a n s1 \<and> \<not> list_ex (about a) o2"
    using sub h submit_held [OF assms(1) h b assms(5)] by (auto split: if_splits)
  then show ?thesis
    using assms(6) l sub fin finish_round_held [OF fin, of a a] held_entry [of a s2 s1] by (auto simp: det_tail_def Let_def)
qed

lemma body_held:
  assumes "plain a" "distinct order" "a \<in> set order" "held a n s" "\<not> bIntervalChanged (conf a)"
    and "0 \<le> step_ms (r_tick r)" "step_ms (r_tick r) < n" "obeys_switches cust (r_analyse r)"
    and "a = ALARM_NO_DRIVER \<longrightarrow> n \<le> s32 (intervals p ALARM_NO_DRIVER * 1000)"
    and "phase i = At_Head DMM_RUN_DETECTION" "dmm_DetctionBody cust p order cfg r (conf, s, i) = ((conf', s', i'), o1)"
  shows "held a (n - step_ms (r_tick r)) s' \<and> \<not> bIntervalChanged (conf' a) \<and> \<not> list_ex (about a) o1"
proof -
  obtain conf1 s1 i1 o2 where hd: "det_head cust p order (r_gps r) (r_tick r) (conf, s, i) = ((conf1, s1, i1), o2)"
    by (metis prod_cases4 prod.collapse)
  note H = det_head_held [OF assms(1-7,9,10) hd]
  have nd: "a = ALARM_NO_DRIVER \<longrightarrow> n - step_ms (r_tick r) \<le> s32 (intervals p ALARM_NO_DRIVER * 1000)" using assms(6,9) by auto
  show ?thesis
    using assms(10,11) hd H det_tail_held [OF assms(1) _ _ assms(8) nd, of s1 cfg _ _ "r_tick r" conf1 i1 conf' s' i']
    by (auto simp: dmm_DetctionBody_def split: option.splits if_splits prod.splits)
qed

lemma rounds_left: "phase i \<noteq> At_Head DMM_RUN_DETECTION \<Longrightarrow> snd (det_rounds cust p order cfg rs (conf, s, i)) = []"
  by (induction rs) (simp_all add: dmm_DetctionBody_def split: prod.splits)

lemma rounds_held:
  assumes "plain a" "distinct order" "a \<in> set order"
  shows "held a n s \<Longrightarrow> \<not> bIntervalChanged (conf a) \<Longrightarrow>
    list_all (\<lambda>r. 0 \<le> step_ms (r_tick r) \<and> obeys_switches cust (r_analyse r)) rs \<Longrightarrow> (\<Sum>r\<leftarrow>rs. step_ms (r_tick r)) < n \<Longrightarrow>
    a = ALARM_NO_DRIVER \<longrightarrow> n \<le> s32 (intervals p ALARM_NO_DRIVER * 1000) \<Longrightarrow>
    \<not> list_ex (about a) (snd (det_rounds cust p order cfg rs (conf, s, i)))"
proof (induction rs arbitrary: n conf s i)
  case (Cons r rs)
  show ?case
  proof (cases "phase i = At_Head DMM_RUN_DETECTION")
    case True
    obtain conf1 s1 i1 o1 where b: "dmm_DetctionBody cust p order cfg r (conf, s, i) = ((conf1, s1, i1), o1)"
      by (metis prod_cases4 prod.collapse)
    have "0 \<le> (\<Sum>r\<leftarrow>rs. step_ms (r_tick r))" using Cons.prems(3) by (auto simp: list_all_iff intro!: sum_list_nonneg)
    then have st: "0 \<le> step_ms (r_tick r)" "step_ms (r_tick r) < n" "obeys_switches cust (r_analyse r)"
      using Cons.prems(3,4) by auto
    note B = body_held [OF assms Cons.prems(1,2) st Cons.prems(5) True b]
    then have "\<not> list_ex (about a) (snd (det_rounds cust p order cfg rs (conf1, s1, i1)))"
      using Cons.prems(3,4,5) st by (intro Cons.IH [of "n - step_ms (r_tick r)"]) auto
    then show ?thesis using b B by (auto split: prod.splits)
  next
    case False
    then show ?thesis using rounds_left [of i cust p order cfg "r # rs" conf s] by simp
  qed
qed simp

lemma submit_quiet:
  assumes "work_speed cust p g (enAlarmType s) = None" "submit cust p conf g s = (s', outs)"
  shows "\<not> list_ex (about b) outs"
  using assms by (auto simp: submit_def set_time_def Let_def split: if_splits)

lemma count_downs_login:
  "\<not> bIntervalChanged (conf NOTIFY_LNGIN_CHANGE_GUARD) \<Longrightarrow> count_downs p step g order conf s l = (conf', s', l', now) \<Longrightarrow> l' = l"
proof (induction order arbitrary: conf s)
  case (Cons b order)
  show ?case
  proof (cases "snd (count_down p step g conf b s)")
    case True
    then show ?thesis using Cons.prems by (auto simp: Let_def split: prod.splits)
  next
    case False
    define conf1 where "conf1 = conf(b := (conf b)\<lparr>bIntervalChanged := False\<rparr>)"
    have "\<not> bIntervalChanged (conf1 NOTIFY_LNGIN_CHANGE_GUARD)" using Cons.prems(1) by (simp add: conf1_def)
    moreover have "count_downs p step g order conf1 (fst (count_down p step g conf b s)) l = (conf', s', l', now)"
      using Cons.prems False by (auto simp: Let_def conf1_def split: prod.splits if_splits)
    ultimately show ?thesis by (rule Cons.IH)
  qed
qed simp

lemma frame_gate_phase: "phase i = At_Head DMM_RUN_DETECTION \<Longrightarrow>
    phase (frame_gate t DMM_RUN_DETECTION i) \<in> {At_Head DMM_RUN_DETECTION, At_Tail DMM_RUN_DETECTION, Deadlocked}"
  by (simp add: frame_gate_def)

text \<open>The head and the tail of a round are steps of the thread of \<open>Dmm_Run\<close>.\<close>

lemma det_head_step:
  assumes "phase i = At_Head DMM_RUN_DETECTION" "\<not> bIntervalChanged (conf NOTIFY_LNGIN_CHANGE_GUARD)"
    and "det_head cust p order gps t (conf, s, i) = ((conf', s', i'), o1)"
  shows "\<exists>ok. i' = dmm_alg_Body cfg (t\<lparr>gps_ok := ok\<rparr>) i"
proof (cases gps)
  case None
  then have "i' = dmm_alg_Body cfg (t\<lparr>gps_ok := False\<rparr>) i"
    using assms(1,3) by (auto simp: det_head_def dmm_alg_Body_def body_head_def Let_def split: if_splits)
  then show ?thesis ..
next
  case (Some g)
  obtain s1 o2 where c: "clear_osd (step_ms t) s = (s1, o2)" by fastforce
  obtain conf2 s2 l2 now where d: "count_downs p (step_ms t) g order conf s1 (login i) = (conf2, s2, l2, now)"
    by (metis prod_cases4)
  then have l: "l2 = login i" using count_downs_login [of conf] assms(2) by blast
  have "i' = dmm_alg_Body cfg (t\<lparr>gps_ok := \<not> now\<rparr>) i"
    using assms(1,3) Some c d l
    by (auto simp: det_head_def dmm_alg_Body_def body_head_def frame_gate_def Let_def split: if_splits prod.splits)
  then show ?thesis ..
qed

lemma det_tail_step:
  assumes "phase i = At_Tail DMM_RUN_DETECTION" "det_tail cust p cfg g w t (conf, s, i) = ((conf', s', i'), o1)"
  shows "\<exists>t'. i' = dmm_alg_Body cfg t' i"
proof -
  let ?s = "take_warning cust w s"
  have "i' = dmm_alg_Body cfg (t\<lparr>frame := dmmP ?s, alarm_last := enAlarmTypeLast ?s\<rparr>) i"
    using assms by (auto simp: det_tail_def dmm_alg_Body_def body_tail_def Let_def split: prod.splits)
  then show ?thesis ..
qed

lemma count_down_frame: "count_down p step gps conf b s = (s', now) \<Longrightarrow> dmmP s' = dmmP s"
  by (auto simp: count_down_def round_defs split: if_splits)

lemma count_down_keeps_overspeed:
  assumes "count_down p step gps conf b s = (s', now)" "b \<noteq> ALARM_OVERSPEED"
  shows "s32AlarmTimeMs s' ALARM_OVERSPEED = s32AlarmTimeMs s ALARM_OVERSPEED \<and> \<not> now"
  using assms by (auto simp: count_down_def round_defs analysed_def split: if_splits)

lemma overspeed_jumps:
  assumes "fst gps \<noteq> 0" "s32DmsOverspeedLimit p < snd gps"
  shows "ALARM_OVERSPEED \<in> set order \<Longrightarrow> s32DectectInterval (conf ALARM_OVERSPEED) = 0 \<Longrightarrow> s32AlarmTimeMs s ALARM_OVERSPEED \<le> 0 \<Longrightarrow>
    count_downs p step gps order conf s l = (conf', s', l', now) \<Longrightarrow>
    now \<and> enAlarmType s' = ALARM_OVERSPEED \<and> dmmP s' = dmmP s \<and> s32DectectInterval (conf' ALARM_OVERSPEED) = 0"
proof (induction order arbitrary: conf s l)
  case (Cons b order)
  obtain s1 now1 where one: "count_down p step gps conf b s = (s1, now1)" by fastforce
  show ?case
  proof (cases "b = ALARM_OVERSPEED")
    case True
    then have "now1 \<and> enAlarmType s1 = ALARM_OVERSPEED"
      using one Cons.prems(2,3) assms by (auto simp: count_down_def round_defs split: if_splits)
    then show ?thesis using Cons.prems(2,4) one count_down_frame [OF one] by (auto simp: Let_def)
  next
    case False
    define conf1 where "conf1 = conf(b := (conf b)\<lparr>bIntervalChanged := False\<rparr>)"
    obtain l1 where "count_downs p step gps order conf1 s1 l1 = (conf', s', l', now)"
      using Cons.prems(4) one count_down_keeps_overspeed [OF one False] by (auto simp: Let_def conf1_def)
    from Cons.IH [OF _ _ _ this] show ?thesis
      using Cons.prems(1-3) False count_down_keeps_overspeed [OF one False] count_down_frame [OF one] by (simp add: conf1_def)
  qed
qed simp

lemma submit_overspeed:
  assumes "enAlarmType s = ALARM_OVERSPEED" "intervals p ALARM_OVERSPEED = 0" "s32DectectInterval (conf ALARM_OVERSPEED) = 0"
    and "submit cust p conf g s = (s', outs)" "a \<noteq> ALARM_OVERSPEED"
  shows "s32AlarmTimeMs s' ALARM_OVERSPEED = 0 \<and> dmmP s' = dmmP s \<and> \<not> list_ex (about a) outs"
  using assms
  by (auto simp: submit_def raise_alarm_def alarm_reports_def start_interval_def repeat_rule_def repeat_delay_def set_time_def
      set_alarm_def s32_id Let_def split: option.splits if_splits)

lemma overspeed_round:
  assumes "ALARM_OVERSPEED \<in> set order" "s32DectectInterval (conf ALARM_OVERSPEED) = 0" "intervals p ALARM_OVERSPEED = 0"
    and "s32AlarmTimeMs s ALARM_OVERSPEED \<le> 0" "a \<noteq> ALARM_OVERSPEED" "r_gps r = Some (g, v)" "g \<noteq> 0" "s32DmsOverspeedLimit p < v"
    and b: "dmm_DetctionBody cust p order cfg r (conf, s, i) = ((conf1, s1, i1), o1)"
  shows "s32DectectInterval (conf1 ALARM_OVERSPEED) = 0 \<and> s32AlarmTimeMs s1 ALARM_OVERSPEED \<le> 0 \<and> dmmP s1 = dmmP s \<and>
    \<not> list_ex (about a) o1"
proof (cases "phase i \<noteq> At_Head DMM_RUN_DETECTION \<or> \<not> bRunning i \<or> enRunStat i \<noteq> DMM_RUN_DETECTION")
  case True
  then show ?thesis
    using b assms(2,4,6)
    by (auto simp: dmm_DetctionBody_def det_head_def leave_body_def send_def Let_def split: if_splits)
next
  case False
  obtain s2 o2 where c: "clear_osd (step_ms (r_tick r)) s = (s2, o2)" by fastforce
  then have s2: "s32AlarmTimeMs s2 = s32AlarmTimeMs s" "dmmP s2 = dmmP s"
    by (auto simp: clear_osd_def Let_def split: if_splits)
  obtain conf3 s3 l3 now where d: "count_downs p (step_ms (r_tick r)) (g, v) order conf s2 (login i) = (conf3, s3, l3, now)"
    by (metis prod_cases4)
  note O = overspeed_jumps [of "(g, v)" p, OF _ _ assms(1,2) _ d]
  obtain s4 o4 where sub: "submit cust p conf3 (g, v) s3 = (s4, o4)" by fastforce
  obtain s5 o5 where fin: "finish_round cust p s4 = (s5, o5)" by fastforce
  have e: "s32AlarmTimeMs s5 = s32AlarmTimeMs s4"
    using fin by (auto simp: finish_round_def dump_alarm_def draw_osd_def Let_def split: if_splits)
  from O have "s32AlarmTimeMs s4 ALARM_OVERSPEED = 0 \<and> dmmP s4 = dmmP s3 \<and> \<not> list_ex (about a) o4"
    using submit_overspeed [OF _ assms(3) _ sub assms(5)] assms(4,6-8) s2 by simp
  then show ?thesis
    using b O False assms(4,6-8) s2 c d sub fin e finish_round_held [OF fin, of a a] clear_osd_held [OF c, of a a]
    by (auto simp: dmm_DetctionBody_def det_head_def Let_def)
qed

subsection \<open>Properties\<close>


definition sample_conf :: "int \<Rightarrow> ALARM_TYPE_E \<Rightarrow> dmm_conf" where
  "sample_conf n = (\<lambda>_. \<lparr>s32DectectInterval = n, bIntervalChanged = False, bDmsAlarmOut = True, bDmsAudioEnable = True, s32WorkSpeed = 0\<rparr>)"

definition sample_param :: "int \<Rightarrow> dms_param" where
  "sample_param v = \<lparr>intervals = (\<lambda>_. 5), alarm_outs = (\<lambda>_. True), audios = (\<lambda>_. True), s32DmsWorkspeed = (\<lambda>_. v),
     bDmsWorkspeed_almNoGPS = False, s32DmsOverspeedLimit = 100, s32DmsSensitivity = 0, s32DmsMiddleSpeedThr = 30,
     s32DmsHighSpeedThr = 60, bDmsOsdEnable = True, s32DmsPwmDutyCycle = 0\<rparr>"

definition yawning :: round_in where
  "yawning = \<lparr>r_gps = Some (1, 50), r_tick = (sample_tick 1)\<lparr>step_ms := 100\<rparr>,
     r_analyse = (\<lambda>v sw f. if sw ALARM_YAWN then Yawn else NoWarn)\<rparr>"

definition after_yawn :: det_round where
  "after_yawn = (round_init centred_face (sample_conf 5000) (\<lambda>_. True))\<lparr>bAlarm := (\<lambda>a. a = ALARM_YAWN)\<rparr>"




text \<open> below the working speed no alarm is reported, shown or heard, whatever the analyser says; without a GPS signal
  none is either, unless the configuration asks for it (the customers with rules of their own excepted).\<close>

theorem no_alarm_below_working_speed:
  assumes "cust \<noteq> CUST_CREARE" "cust \<noteq> CUST_VUE" "0 < s32DmsWorkspeed p ALARM_NOTHING" "r_gps r = Some (status, speed)"
    and "if status = 0 then \<not> bDmsWorkspeed_almNoGPS p else speed < s32DmsWorkspeed p ALARM_NOTHING"
  shows "\<not> list_ex (about a) (snd (dmm_DetctionBody cust p order cfg r (conf, s, i)))"
proof -
  have w: "work_speed cust p (status, speed) b = None" for b using assms by (auto simp: work_speed_def Let_def split: if_splits)
  obtain conf1 s1 i1 o1 where hd: "det_head cust p order (r_gps r) (r_tick r) (conf, s, i) = ((conf1, s1, i1), o1)"
    by (metis prod_cases4 prod.collapse)
  have q1: "\<not> list_ex (about a) o1"
    using hd assms(4) clear_osd_held [of "step_ms (r_tick r)" s _ _ a] submit_quiet [OF w] finish_round_held [of cust p]
    by (fastforce simp: det_head_def Let_def split: prod.splits if_splits)
  have "\<not> list_ex (about a) (snd (det_tail cust p cfg (status, speed) (r_analyse r (sensitivity p speed) (switches s1) (dmmP s1)) (r_tick r) (conf1, s1, i1)))"
    using submit_quiet [OF w] finish_round_held [of cust p] by (fastforce simp: det_tail_def Let_def split: prod.splits if_splits)
  then show ?thesis using q1 hd assms(4) by (auto simp: dmm_DetctionBody_def split: prod.splits)
qed

theorem no_alarm_below_working_speed_witness:
  "\<not> list_ex (about ALARM_YAWN) (snd (dmm_DetctionBody CUST_OTHER (sample_param 60) [ALARM_YAWN] sample_cfg yawning
     (sample_conf 5000, after_yawn, sample_in DMM_RUN_DETECTION (At_Head DMM_RUN_DETECTION))))"
  by (rule no_alarm_below_working_speed [where status = 1 and speed = 50]) (simp_all add: sample_param_def yawning_def)

lemma start_interval_repeat:
  "enAlarmTypeLast (start_interval conf s) = enAlarmTypeLast s" "s32RepeatTime (start_interval conf s) = s32RepeatTime s"
  by (auto simp: start_interval_def set_time_def set_alarm_def Let_def)

lemma raise_alarm_repeat:
  assumes "s' = fst (raise_alarm cust conf low s)"
  shows "enAlarmType s' = enAlarmType s" "enAlarmTypeLast s' = enAlarmType s"
    "s32RepeatTime s' = (if enAlarmTypeLast s = enAlarmType s then s32 (s32RepeatTime s + 1) else 1)"
  unfolding assms
  by (simp_all add: raise_alarm_def repeat_rule_def start_interval_repeat start_interval_other set_time_def Let_def split: option.split)

lemma raise_again:
  assumes "enAlarmType s = a" "enAlarmTypeLast s \<noteq> a" "n < 2147483648" "0 < n"
  shows "let s' = ((\<lambda>s. fst (raise_alarm cust conf low s)) ^^ n) s
    in enAlarmType s' = a \<and> enAlarmTypeLast s' = a \<and> s32RepeatTime s' = int n"
  using assms
proof (induction n)
  case (Suc n)
  let ?s = "((\<lambda>s. fst (raise_alarm cust conf low s)) ^^ n) s"
  note r = raise_alarm_repeat [OF refl, of cust conf low ?s]
  show ?case
  proof (cases "n = 0")
    case True
    then show ?thesis using r Suc.prems by (simp add: Let_def)
  next
    case False
    then have "enAlarmType ?s = a \<and> enAlarmTypeLast ?s = a \<and> s32RepeatTime ?s = int n" using Suc by (simp add: Let_def)
    moreover have "s32 (int n + 1) = int n + 1" using Suc.prems by (intro s32_id) auto
    ultimately show ?thesis using r by (simp add: Let_def)
  qed
qed simp

text \<open> the counter of repetitions is read before it is started again for the new alarm: the first alarm for a missing driver
  (or a covered camera) after five or more equal alarms of another kind is reported and shown, but makes no sound.\<close>

theorem first_alarm_silent:
  assumes "a \<noteq> b" "b = ALARM_NO_DRIVER \<or> b = ALARM_SHELTER" "enAlarmType s = a" "enAlarmTypeLast s \<noteq> a"
    and "5 \<le> n" "n < 2147483648"
  shows "let s' = ((\<lambda>s. fst (raise_alarm cust conf False s)) ^^ n) s; outs = snd (raise_alarm cust conf False (s'\<lparr>enAlarmType := b\<rparr>))
    in R_Event b \<in> set outs \<and> R_Gui b False \<in> set outs \<and> R_Play b \<notin> set outs"
  using raise_again [of s a n cust conf False] assms
  by (auto simp: raise_alarm_def alarm_reports_def start_interval_repeat start_interval_other Let_def)

theorem first_alarm_silent_witness:
  "let s' = ((\<lambda>s. fst (raise_alarm CUST_OTHER (sample_conf 5000) False s)) ^^ 5) (after_yawn\<lparr>enAlarmType := ALARM_YAWN\<rparr>);
       outs = snd (raise_alarm CUST_OTHER (sample_conf 5000) False (s'\<lparr>enAlarmType := ALARM_NO_DRIVER\<rparr>))
   in R_Event ALARM_NO_DRIVER \<in> set outs \<and> R_Gui ALARM_NO_DRIVER False \<in> set outs \<and> R_Play ALARM_NO_DRIVER \<notin> set outs"
  by (rule first_alarm_silent [where a = ALARM_YAWN]) (simp_all add: after_yawn_def round_init_def)

text \<open>C34: with the interval 0 for the overspeed alarm the driver is not watched at all while the car is too fast: every round
  jumps to the overspeed alarm, no frame is looked at and no other alarm is ever raised.\<close>

theorem overspeed_starves_detection:
  assumes "ALARM_OVERSPEED \<in> set order" "s32DectectInterval (conf ALARM_OVERSPEED) = 0" "intervals p ALARM_OVERSPEED = 0"
    and "s32AlarmTimeMs s ALARM_OVERSPEED \<le> 0" "a \<noteq> ALARM_OVERSPEED"
    and "list_all (\<lambda>r. \<exists>g v. r_gps r = Some (g, v) \<and> g \<noteq> 0 \<and> s32DmsOverspeedLimit p < v) rs"
  shows "let ((conf', s', i'), outs) = det_rounds cust p order cfg rs (conf, s, i) in dmmP s' = dmmP s \<and> \<not> list_ex (about a) outs"
  using assms(2,4,6)
proof (induction rs arbitrary: conf s i)
  case (Cons r rs)
  obtain conf1 s1 i1 o1 where b: "dmm_DetctionBody cust p order cfg r (conf, s, i) = ((conf1, s1, i1), o1)"
    by (metis prod_cases4 prod.collapse)
  obtain g v where gv: "r_gps r = Some (g, v)" "g \<noteq> 0" "s32DmsOverspeedLimit p < v" using Cons.prems(3) by auto
  note overspeed_round [OF assms(1) Cons.prems(1) assms(3) Cons.prems(2) assms(5) gv b]
  then show ?case using Cons.IH [of conf1 s1 i1] Cons.prems(3) b by (auto split: prod.splits)
qed simp

theorem overspeed_starves_detection_witness:
  "let ((conf', s', i'), outs) = det_rounds CUST_OTHER (sample_param 0\<lparr>intervals := \<lambda>_. 0\<rparr>) [ALARM_YAWN, ALARM_OVERSPEED] sample_cfg
       (replicate 1000 (yawning\<lparr>r_gps := Some (1, 120)\<rparr>))
       (sample_conf 0, after_yawn, sample_in DMM_RUN_DETECTION (At_Head DMM_RUN_DETECTION))
   in dmmP s' = dmmP after_yawn \<and> \<not> list_ex (about ALARM_YAWN) outs"
  by (rule overspeed_starves_detection)
    (simp_all add: sample_conf_def sample_param_def after_yawn_def round_init_def list_all_iff)

end
