(* ===== verification/Apc.thy ===== *)
theory Apc
  imports Detection Geometry
begin

section \<open>Counting of passengers (apc/apc.cpp)\<close>

text \<open>
  The counting library reports the heads in the picture and how many have passed a line in each direction.  The module
  sets the line and the area from the configuration, colours the heads by the side they are on, sends the numbers when they
  change, and raises an alarm when the car is overloaded or crowded.  Two further threads take the alarm from a flag each:
  one plays it, the other switches the relay on for two seconds.
\<close>

subsection \<open>Configuration\<close>

datatype CFG_APC_DIRECTION = CFG_APC_DIRECTION_UP | CFG_APC_DIRECTION_DOWM | CFG_APC_DIRECTION_LEFT | CFG_APC_DIRECTION_RIGHT
  | CFG_APC_DIRECTION_OTHER

record CFG_APC_PARAM =
  enApcDirection :: CFG_APC_DIRECTION
  stApcDivider :: SV_POINT2
  apc_point0 :: SV_POINT2
  apc_point1 :: SV_POINT2
  bOverLoadAlarm :: bool
  s32LoadNum :: int
  bCrowdedAlarm :: bool
  s32CrowdedNum :: int

datatype EAlgHeadLineType = E_COUNT_HEAD_X | E_COUNT_HEAD_Y

text \<open>The fields of \<open>STCountHeadParam\<close> (include/pds_alg.h) that the module sets or reads; points and line are \<open>float\<close>.\<close>

record STCountHeadParam =
  bClean :: bool
  eMode :: EAlgHeadLineType
  fRectScope1 :: "rat \<times> rat"
  fRectScope2 :: "rat \<times> rat"
  fLinePosition :: rat
  u32InNums :: int
  u32OutNums :: int

definition count_param :: "CFG_APC_PARAM \<Rightarrow> STCountHeadParam \<Rightarrow> STCountHeadParam" where
  "count_param p c =
     c\<lparr>fRectScope1 := (f32 (dX (apc_point0 p)), f32 (dY (apc_point0 p))),
       fRectScope2 := (f32 (dX (apc_point1 p)), f32 (dY (apc_point1 p))),
       eMode := if enApcDirection p = CFG_APC_DIRECTION_LEFT \<or> enApcDirection p = CFG_APC_DIRECTION_RIGHT
         then E_COUNT_HEAD_X else E_COUNT_HEAD_Y,
       fLinePosition := f32 (dY (stApcDivider p))\<rparr>"

text \<open>\<open>APC_Init\<close> clears the parameters; \<open>APC_ConfigSet\<close> also asks the library to start the counts again.\<close>

definition APC_Init_param :: "CFG_APC_PARAM \<Rightarrow> STCountHeadParam" where
  "APC_Init_param p = count_param p \<lparr>bClean = False, eMode = E_COUNT_HEAD_X, fRectScope1 = (0, 0), fRectScope2 = (0, 0),
     fLinePosition = 0, u32InNums = 0, u32OutNums = 0\<rparr>"

definition APC_ConfigSet :: "CFG_APC_PARAM option \<Rightarrow> CFG_APC_PARAM \<times> STCountHeadParam \<Rightarrow>
    (CFG_APC_PARAM \<times> STCountHeadParam) \<times> sv_ret" where
  "APC_ConfigSet pstCfgParam s =
     (case pstCfgParam of None \<Rightarrow> (s, ERR_NULL_PTR)
      | Some p \<Rightarrow> ((p, (count_param p (snd s))\<lparr>bClean := True\<rparr>), SV_SUCCESS))"

subsection \<open>Alarms\<close>

datatype APC_ALARM_TYPE = APC_ALARM_NONE | APC_ALARM_PERSON_ON | APC_ALARM_PERSON_OFF | APC_ALARM_OVERLOAD | APC_ALARM_CROWDED
  | APC_ALARM_BUTT

record apc_static =
  bOverloaded :: bool
  bCrowded :: bool

definition apc_alarm_getEvent :: "CFG_APC_PARAM \<Rightarrow> int \<Rightarrow> int \<Rightarrow> apc_static \<Rightarrow> APC_ALARM_TYPE \<times> apc_static" where
  "apc_alarm_getEvent p s32TotalNum crowd s =
     (let crowded = (\<lambda>s.
        if bCrowdedAlarm p then
          if s32CrowdedNum p < crowd then
            if \<not> bCrowded s then (APC_ALARM_CROWDED, s\<lparr>bCrowded := True\<rparr>) else (APC_ALARM_NONE, s)
          else (APC_ALARM_NONE, s\<lparr>bCrowded := False\<rparr>)
        else (APC_ALARM_NONE, s))
      in if bOverLoadAlarm p then
           if s32LoadNum p < s32TotalNum then
             if \<not> bOverloaded s then (APC_ALARM_OVERLOAD, s\<lparr>bOverloaded := True\<rparr>) else crowded s
           else crowded (s\<lparr>bOverloaded := False\<rparr>)
         else crowded s)"

text \<open>The flags of the two threads.\<close>

record apc_flags =
  stAudio :: APC_ALARM_TYPE
  stAlarmOut :: APC_ALARM_TYPE

definition apc_alarm_event :: "APC_ALARM_TYPE \<Rightarrow> apc_flags \<Rightarrow> apc_flags" where
  "apc_alarm_event enType f =
     (if enType = APC_ALARM_OVERLOAD \<or> enType = APC_ALARM_CROWDED then f\<lparr>stAlarmOut := enType, stAudio := enType\<rparr> else f)"

text \<open>The message to the web page, and the values it was last sent for.\<close>

record apc_message =
  msg_In :: int
  msg_Out :: int
  msg_Rect :: int
  msg_Warning :: string

record apc_sent =
  enPreType :: APC_ALARM_TYPE
  u32PreIn :: int
  u32PreOut :: int
  u32PreRect :: int

definition apc_sent_init :: apc_sent where
  "apc_sent_init = \<lparr>enPreType = APC_ALARM_BUTT, u32PreIn = 0, u32PreOut = 0, u32PreRect = 0\<rparr>"

definition warning_text :: "APC_ALARM_TYPE \<Rightarrow> string" where
  "warning_text t = (if t = APC_ALARM_OVERLOAD then ''overload'' else if t = APC_ALARM_CROWDED then ''crowded'' else ''no_warning'')"

definition apc_send_websocket_msg :: "sv_ret \<Rightarrow> int \<Rightarrow> int \<Rightarrow> int \<Rightarrow> APC_ALARM_TYPE \<Rightarrow> apc_sent \<Rightarrow>
    apc_sent \<times> apc_message option \<times> sv_ret" where
  "apc_send_websocket_msg submit u32In u32Out u32Rect enType w =
     (if u32PreIn w = u32In \<and> u32PreOut w = u32Out \<and> u32PreRect w = u32Rect \<and> enPreType w = enType then (w, None, SV_SUCCESS)
      else if submit \<noteq> SV_SUCCESS then (w, None, SV_FAILURE)
      else (\<lparr>enPreType = enType, u32PreIn = u32In, u32PreOut = u32Out, u32PreRect = u32Rect\<rparr>,
        Some \<lparr>msg_In = s32 u32In, msg_Out = s32 u32Out, msg_Rect = s32 u32Rect, msg_Warning = warning_text enType\<rparr>, SV_SUCCESS))"

subsection \<open>A frame\<close>

datatype apc_colour = GUI_ORANGE | GUI_GREEN

definition head_colour :: "CFG_APC_PARAM \<Rightarrow> STAlgResult \<Rightarrow> apc_colour" where
  "head_colour p r =
     (let xmiddle = f32 (fadd (fX1 r) (fX2 r) / 2); ymiddle = f32 (fadd (fY1 r) (fY2 r) / 2);
          orange = (case enApcDirection p of
              CFG_APC_DIRECTION_DOWM \<Rightarrow> dY (stApcDivider p) < ymiddle
            | CFG_APC_DIRECTION_UP \<Rightarrow> ymiddle < dY (stApcDivider p)
            | CFG_APC_DIRECTION_LEFT \<Rightarrow> dX (stApcDivider p) < xmiddle
            | _ \<Rightarrow> xmiddle < dX (stApcDivider p))
      in if orange then GUI_ORANGE else GUI_GREEN)"

text \<open>The arrow drawn on the dividing line, by its end points; the old one stays when the direction is unknown.\<close>

definition apc_arrow :: "CFG_APC_PARAM \<Rightarrow> (rat \<times> rat) \<times> (rat \<times> rat) \<Rightarrow> (rat \<times> rat) \<times> (rat \<times> rat)" where
  "apc_arrow p old =
     (if enApcDirection p = CFG_APC_DIRECTION_DOWM \<or> enApcDirection p = CFG_APC_DIRECTION_UP then
        ((dX (apc_point0 p), dY (stApcDivider p)), (dX (apc_point1 p), dY (stApcDivider p)))
      else if enApcDirection p = CFG_APC_DIRECTION_LEFT \<or> enApcDirection p = CFG_APC_DIRECTION_RIGHT then
        ((dX (stApcDivider p), dY (apc_point0 p)), (dX (stApcDivider p), dY (apc_point1 p)))
      else old)"

definition in_out :: "CFG_APC_PARAM \<Rightarrow> STCountHeadParam \<Rightarrow> int \<times> int" where
  "in_out p c =
     (if enApcDirection p = CFG_APC_DIRECTION_DOWM \<or> enApcDirection p = CFG_APC_DIRECTION_RIGHT
      then (u32OutNums c, u32InNums c) else (u32InNums c, u32OutNums c))"

record apc_state =
  conf :: CFG_APC_PARAM
  count_head :: STCountHeadParam
  static :: apc_static
  flags :: apc_flags
  last_sent :: apc_sent

record apc_out =
  heads :: "(apc_colour \<times> STAlgResult) list"
  shown_counts :: "int \<times> int \<times> int"
  event :: APC_ALARM_TYPE
  websocket :: "apc_message option"

text \<open>A round of \<open>apc_alg_Body\<close> in which the library returned \<open>rs\<close>; \<open>submit\<close>: what the message system answers.\<close>

definition apc_frame :: "sv_ret \<Rightarrow> STAlgResult list \<Rightarrow> apc_state \<Rightarrow> apc_state \<times> apc_out" where
  "apc_frame submit rs s =
     (let (u32InNum, u32OutNum) = in_out (conf s) (count_head s);
          s32TotalNum = s32 (u32 (u32InNum - u32OutNum));
          hs = map (\<lambda>r. (head_colour (conf s) r, r)) (take 20 rs);
          u32RectCnt = int (length hs);
          (ev, st) = apc_alarm_getEvent (conf s) s32TotalNum u32RectCnt (static s);
          fl = apc_alarm_event ev (flags s);
          (w, m, _) = apc_send_websocket_msg submit u32InNum u32OutNum u32RectCnt ev (last_sent s)
      in (s\<lparr>static := st, flags := fl, last_sent := w\<rparr>,
          \<lparr>heads = hs, shown_counts = (u32InNum, u32OutNum, int (length rs)), event = ev, websocket = m\<rparr>))"

fun apc_frames :: "(sv_ret \<times> (int \<times> int) \<times> STAlgResult list) list \<Rightarrow> apc_state \<Rightarrow> apc_state \<times> apc_out list" where
  "apc_frames [] s = (s, [])"
| "apc_frames ((submit, (i, k), rs) # fs) s =
     (let (s, out) = apc_frame submit rs (s\<lparr>count_head := (count_head s)\<lparr>u32InNums := i, u32OutNums := k\<rparr>\<rparr>);
          (s, outs) = apc_frames fs s
      in (s, out # outs))"

subsection \<open>The alarm threads\<close>

datatype out_place = Out_Loop | Out_Got | Out_Check

record apc_threads =
  shared :: apc_flags
  audio_got :: "APC_ALARM_TYPE option"
  played :: "APC_ALARM_TYPE list"
  out_at :: out_place
  tvStart :: int
  bTrigger :: bool
  alarm_relay :: bool

text \<open>\<open>apc_audio_Body\<close> reads the flag and clears it in two accesses, then plays the alarm.\<close>

definition apc_audio_Body :: "apc_threads \<Rightarrow> apc_threads" where
  "apc_audio_Body s =
     (case audio_got s of
        None \<Rightarrow> if stAudio (shared s) = APC_ALARM_NONE then s else s\<lparr>audio_got := Some (stAudio (shared s))\<rparr>
      | Some a \<Rightarrow> s\<lparr>audio_got := None, shared := (shared s)\<lparr>stAudio := APC_ALARM_NONE\<rparr>, played := played s @ [a]\<rparr>)"

text \<open>\<open>apc_alarmout_Body\<close> at the time \<open>now\<close> (milliseconds); \<open>gpio\<close>: the relay obeys.\<close>

definition apc_alarmout_Body :: "int \<Rightarrow> bool \<Rightarrow> apc_threads \<Rightarrow> apc_threads" where
  "apc_alarmout_Body now gpio s =
     (case out_at s of
        Out_Loop \<Rightarrow> s\<lparr>out_at := if stAlarmOut (shared s) \<noteq> APC_ALARM_NONE then Out_Got else Out_Check\<rparr>
      | Out_Got \<Rightarrow>
          let s = s\<lparr>shared := (shared s)\<lparr>stAlarmOut := APC_ALARM_NONE\<rparr>, tvStart := now, out_at := Out_Check\<rparr>
          in if \<not> bTrigger s then s\<lparr>bTrigger := True, alarm_relay := gpio \<or> alarm_relay s\<rparr> else s
      | Out_Check \<Rightarrow>
          let s = s\<lparr>out_at := Out_Loop\<rparr>
          in if bTrigger s \<and> 2 * 1000 < now - tvStart s then s\<lparr>alarm_relay := alarm_relay s \<and> \<not> gpio, bTrigger := False\<rparr> else s)"

datatype apc_step = Raise APC_ALARM_TYPE | Audio | Out int bool

definition apc_thread_step :: "apc_step \<Rightarrow> apc_threads \<Rightarrow> apc_threads" where
  "apc_thread_step e s =
     (case e of Raise a \<Rightarrow> s\<lparr>shared := apc_alarm_event a (shared s)\<rparr> | Audio \<Rightarrow> apc_audio_Body s
      | Out now gpio \<Rightarrow> apc_alarmout_Body now gpio s)"

definition apc_threads_run :: "apc_step list \<Rightarrow> apc_threads \<Rightarrow> apc_threads" where
  "apc_threads_run es s = fold apc_thread_step es s"

definition apc_threads_init :: apc_threads where
  "apc_threads_init = \<lparr>shared = \<lparr>stAudio = APC_ALARM_NONE, stAlarmOut = APC_ALARM_NONE\<rparr>, audio_got = None, played = [],
     out_at = Out_Loop, tvStart = 0, bTrigger = False, alarm_relay = False\<rparr>"

subsection \<open>Lemmas\<close>

lemma getEvent_overload:
  assumes "bOverLoadAlarm p" "apc_alarm_getEvent p tot crowd s = (ev, s')"
  shows "(ev = APC_ALARM_OVERLOAD \<longleftrightarrow> s32LoadNum p < tot \<and> \<not> bOverloaded s) \<and> (bOverloaded s' \<longleftrightarrow> s32LoadNum p < tot)"
  using assms by (auto simp: apc_alarm_getEvent_def Let_def split: if_splits)

lemma getEvent_crowded:
  assumes "apc_alarm_getEvent p tot crowd s = (ev, s')"
  shows "ev = APC_ALARM_CROWDED \<longrightarrow> s32CrowdedNum p < crowd"
  using assms by (auto simp: apc_alarm_getEvent_def Let_def split: if_splits)

lemma apc_frame_conf: "apc_frame submit rs s = (s', out) \<Longrightarrow> conf s' = conf s"
  by (auto simp: apc_frame_def Let_def split: prod.splits)

text \<open>The number of people in the car as the module computes it.\<close>

definition apc_total :: "CFG_APC_PARAM \<Rightarrow> int \<times> int \<Rightarrow> int" where
  "apc_total p n =
     (if enApcDirection p = CFG_APC_DIRECTION_DOWM \<or> enApcDirection p = CFG_APC_DIRECTION_RIGHT then snd n - fst n else fst n - snd n)"

lemma apc_frame_overload:
  assumes "bOverLoadAlarm (conf s)" "\<bar>fst n - snd n\<bar> < 2147483648"
    and "apc_frame submit rs (s\<lparr>count_head := (count_head s)\<lparr>u32InNums := fst n, u32OutNums := snd n\<rparr>\<rparr>) = (s', out)"
  shows "(event out = APC_ALARM_OVERLOAD \<longleftrightarrow> s32LoadNum (conf s) < apc_total (conf s) n \<and> \<not> bOverloaded (static s)) \<and>
    (bOverloaded (static s') \<longleftrightarrow> s32LoadNum (conf s) < apc_total (conf s) n) \<and> conf s' = conf s"
proof -
  let ?c = "(count_head s)\<lparr>u32InNums := fst n, u32OutNums := snd n\<rparr>"
  have wrap: "s32 (u32 x) = x" if "\<bar>x\<bar> < 2147483648" for x
  proof -
    have "s32 (u32 x) = s32 x" by (simp add: s32_def u32_def mod_add_left_eq)
    then show ?thesis using that by (simp add: s32_id)
  qed
  obtain a b where ab: "in_out (conf s) ?c = (a, b)" by fastforce
  then have "a - b = apc_total (conf s) n" by (auto simp: in_out_def apc_total_def split: if_splits)
  moreover have "\<bar>a - b\<bar> < 2147483648" using calculation assms(2) by (auto simp: apc_total_def split: if_splits)
  ultimately have t: "s32 (u32 (a - b)) = apc_total (conf s) n" using wrap by simp
  show ?thesis
    using assms(1,3) ab getEvent_overload [OF assms(1)] apc_frame_conf [OF assms(3)] unfolding apc_frame_def
    by (auto simp: Let_def t split: prod.splits)
qed

subsection \<open>Properties\<close>

text \<open>C35: the overload alarm is raised exactly when the number of people comes to exceed the limit: in each frame in which
  it does and did not in the frame before, once, in either mounting of the camera.\<close>

theorem overload_alarm_edges:
  assumes "bOverLoadAlarm (conf s)" "list_all (\<lambda>(_, n, _). \<bar>fst n - snd n\<bar> < 2147483648) fs" "k < length fs"
  shows "event (snd (apc_frames fs s) ! k) = APC_ALARM_OVERLOAD \<longleftrightarrow>
    s32LoadNum (conf s) < apc_total (conf s) (fst (snd (fs ! k))) \<and>
    (if k = 0 then \<not> bOverloaded (static s) else apc_total (conf s) (fst (snd (fs ! (k - 1)))) \<le> s32LoadNum (conf s))"
  using assms
proof (induction fs arbitrary: s k)
  case (Cons f fs)
  obtain submit i j rs where f: "f = (submit, (i, j), rs)" by (metis prod.collapse)
  obtain s1 out where fr: "apc_frame submit rs (s\<lparr>count_head := (count_head s)\<lparr>u32InNums := i, u32OutNums := j\<rparr>\<rparr>) = (s1, out)"
    by fastforce
  note F = apc_frame_overload [of s "(i, j)" submit rs s1 out, simplified fst_conv snd_conv, OF Cons.prems(1) _ fr]
  have r: "snd (apc_frames (f # fs) s) = out # snd (apc_frames fs s1)" using fr f by (simp add: case_prod_unfold Let_def)
  show ?case
  proof (cases k)
    case 0
    then show ?thesis using F Cons.prems(2) r f by simp
  next
    case (Suc k')
    have "bOverLoadAlarm (conf s1)" using F Cons.prems(1,2) f by simp
    then show ?thesis using Cons.IH [of s1 k'] Cons.prems F r f Suc by (cases k') auto
  qed
qed simp

definition sample_apc :: apc_state where
  "sample_apc = \<lparr>conf = \<lparr>enApcDirection = CFG_APC_DIRECTION_UP, stApcDivider = \<lparr>dX = 1 / 4, dY = 1 / 2\<rparr>,
     apc_point0 = \<lparr>dX = 0, dY = 0\<rparr>, apc_point1 = \<lparr>dX = 1, dY = 1\<rparr>, bOverLoadAlarm = True, s32LoadNum = 10,
     bCrowdedAlarm = True, s32CrowdedNum = 20\<rparr>,
     count_head = APC_Init_param \<lparr>enApcDirection = CFG_APC_DIRECTION_UP, stApcDivider = \<lparr>dX = 1 / 4, dY = 1 / 2\<rparr>,
       apc_point0 = \<lparr>dX = 0, dY = 0\<rparr>, apc_point1 = \<lparr>dX = 1, dY = 1\<rparr>, bOverLoadAlarm = True, s32LoadNum = 10,
       bCrowdedAlarm = True, s32CrowdedNum = 20\<rparr>,
     static = \<lparr>bOverloaded = False, bCrowded = False\<rparr>, flags = \<lparr>stAudio = APC_ALARM_NONE, stAlarmOut = APC_ALARM_NONE\<rparr>,
     last_sent = apc_sent_init\<rparr>"

theorem overload_alarm_edges_witness:
  "event (snd (apc_frames [(SV_SUCCESS, (10, 0), []), (SV_SUCCESS, (12, 1), []), (SV_SUCCESS, (12, 0), [])] sample_apc) ! 1) =
     APC_ALARM_OVERLOAD"
  by (subst overload_alarm_edges) (simp_all add: sample_apc_def apc_total_def)

text \<open> with a limit of 20 or more the crowded alarm is never raised, however many people the library reports: the module
  counts the boxes it draws, and it draws at most 20.\<close>

theorem crowded_alarm_capped:
  assumes "20 \<le> s32CrowdedNum (conf s)"
  shows "\<forall>out \<in> set (snd (apc_frames fs s)). event out \<noteq> APC_ALARM_CROWDED"
  using assms
proof (induction fs arbitrary: s)
  case (Cons f fs)
  obtain submit i j rs where f: "f = (submit, (i, j), rs)" by (metis prod.collapse)
  obtain s1 out where fr: "apc_frame submit rs (s\<lparr>count_head := (count_head s)\<lparr>u32InNums := i, u32OutNums := j\<rparr>\<rparr>) = (s1, out)"
    by fastforce
  have "event out \<noteq> APC_ALARM_CROWDED"
    using fr Cons.prems getEvent_crowded by (fastforce simp: apc_frame_def Let_def split: prod.splits)
  moreover have "conf s1 = conf s" using apc_frame_conf [OF fr] by simp
  ultimately show ?case using Cons.IH [of s1] Cons.prems fr f by (simp add: case_prod_unfold Let_def)
qed simp

theorem crowded_alarm_capped_witness:
  "list_all (\<lambda>out. event out \<noteq> APC_ALARM_CROWDED) (snd (apc_frames
     [(SV_SUCCESS, (0, 0), replicate 50 \<lparr>classes = E_CLS_HEAD, fX1 = 0, fY1 = 0, fX2 = 1, fY2 = 1, fConfidence = 1\<rparr>)] sample_apc))"
  using crowded_alarm_capped [of sample_apc] unfolding list_all_iff by (simp add: sample_apc_def del: apc_frames.simps)

text \<open> in the two sideways mountings the line that is counted at is set from the wrong coordinate of the divider: the
  counted line is at its \<open>y\<close>, the arrow is drawn and the heads are coloured at its \<open>x\<close>.\<close>

theorem sideways_line_differs:
  assumes "enApcDirection p = CFG_APC_DIRECTION_LEFT \<or> enApcDirection p = CFG_APC_DIRECTION_RIGHT"
  shows "eMode (count_param p c) = E_COUNT_HEAD_X \<and> fLinePosition (count_param p c) = f32 (dY (stApcDivider p)) \<and>
    fst (fst (apc_arrow p old)) = dX (stApcDivider p) \<and> fst (snd (apc_arrow p old)) = dX (stApcDivider p) \<and>
    (is_f32 (dX (stApcDivider p)) \<longrightarrow> is_f32 (dY (stApcDivider p)) \<longrightarrow>
      (fLinePosition (count_param p c) = fst (fst (apc_arrow p old)) \<longleftrightarrow> dX (stApcDivider p) = dY (stApcDivider p)))"
  using assms by (auto simp: count_param_def apc_arrow_def is_f32_def)

theorem sideways_line_differs_witness:
  "fLinePosition (count_param (conf sample_apc\<lparr>enApcDirection := CFG_APC_DIRECTION_LEFT\<rparr>) (count_head sample_apc)) = f32 (1 / 2) \<and>
   fst (fst (apc_arrow (conf sample_apc\<lparr>enApcDirection := CFG_APC_DIRECTION_LEFT\<rparr>) ((0, 0), (0, 0)))) = 1 / 4"
  using sideways_line_differs [of "conf sample_apc\<lparr>enApcDirection := CFG_APC_DIRECTION_LEFT\<rparr>"] by (simp add: sample_apc_def)

fun relay_checks :: "int list \<Rightarrow> apc_threads \<Rightarrow> bool list" where
  "relay_checks [] s = []"
| "relay_checks (t # ts) s = (let s = apc_threads_run [Out t True, Out t True] s in alarm_relay s # relay_checks ts s)"

lemma relay_checks_off:
  "out_at s = Out_Check \<Longrightarrow> stAlarmOut (shared s) = APC_ALARM_NONE \<Longrightarrow> \<not> bTrigger s \<Longrightarrow> \<not> alarm_relay s \<Longrightarrow>
    relay_checks ts s = replicate (length ts) False"
  by (induction ts arbitrary: s)
    (simp_all add: apc_threads_run_def apc_thread_step_def apc_alarmout_Body_def Let_def)

text \<open> the relay of the alarm is on for two seconds after the last alarm that its thread has taken, and then off: while no
  new alarm comes it is on before each check within 2000 ms and off after the first check later than that.\<close>

theorem relay_two_seconds:
  assumes "out_at s = Out_Got" "alarm_relay s = bTrigger s" "sorted ts"
  shows "relay_checks ts (apc_threads_run [Out t0 True] s) = map (\<lambda>t. t \<le> t0 + 2000) ts"
proof -
  define s0 where "s0 = apc_threads_run [Out t0 True] s"
  have "out_at s0 = Out_Check" "stAlarmOut (shared s0) = APC_ALARM_NONE" "bTrigger s0" "alarm_relay s0" "tvStart s0 = t0"
    using assms(1,2) by (simp_all add: s0_def apc_threads_run_def apc_thread_step_def apc_alarmout_Body_def Let_def)
  then have "relay_checks ts s0 = map (\<lambda>t. t \<le> t0 + 2000) ts"
    using assms(3)
  proof (induction ts arbitrary: s0)
    case (Cons t ts)
    let ?s = "apc_threads_run [Out t True, Out t True] s0"
    show ?case
    proof (cases "t \<le> t0 + 2000")
      case True
      then show ?thesis
        using Cons.prems Cons.IH [of ?s]
        by (simp add: apc_threads_run_def apc_thread_step_def apc_alarmout_Body_def Let_def)
    next
      case False
      then have "relay_checks ts ?s = replicate (length ts) False"
        using Cons.prems
        by (intro relay_checks_off) (simp_all add: apc_threads_run_def apc_thread_step_def apc_alarmout_Body_def Let_def)
      moreover have "map (\<lambda>t. t \<le> t0 + 2000) ts = replicate (length ts) False"
        using Cons.prems(6) False by (intro replicate_eqI) auto
      ultimately show ?thesis
        using Cons.prems False by (simp add: apc_threads_run_def apc_thread_step_def apc_alarmout_Body_def Let_def)
    qed
  qed simp
  then show ?thesis by (simp add: s0_def)
qed

theorem relay_two_seconds_witness:
  "relay_checks [10, 1500, 2001, 2060] (apc_threads_run [Raise APC_ALARM_OVERLOAD, Out 0 True, Out 0 True] apc_threads_init) =
     [True, True, False, False]"
proof -
  have "apc_threads_run [Raise APC_ALARM_OVERLOAD, Out 0 True, Out 0 True] apc_threads_init =
      apc_threads_run [Out 0 True] (apc_threads_run [Raise APC_ALARM_OVERLOAD, Out 0 True] apc_threads_init)"
    by (simp add: apc_threads_run_def)
  then show ?thesis
    using relay_two_seconds [of "apc_threads_run [Raise APC_ALARM_OVERLOAD, Out 0 True] apc_threads_init" "[10, 1500, 2001, 2060]" 0]
    by (simp add: apc_threads_run_def apc_thread_step_def apc_threads_init_def apc_alarm_event_def apc_alarmout_Body_def
        del: relay_checks.simps)
qed

text \<open>An alarm that is raised between the two accesses of the sound thread, or before it has taken the last one, is never
  played; the alarm thread does not raise it again while its condition lasts.\<close>

theorem audio_alarm_lost:
  assumes "audio_got s = None" "stAudio (shared s) = APC_ALARM_NONE" "a \<in> {APC_ALARM_OVERLOAD, APC_ALARM_CROWDED}"
    "b \<in> {APC_ALARM_OVERLOAD, APC_ALARM_CROWDED}"
  shows "played (apc_threads_run [Raise a, Audio, Raise b, Audio, Audio, Audio] s) = played s @ [a]"
    "played (apc_threads_run [Raise a, Raise b, Audio, Audio, Audio, Audio] s) = played s @ [b]"
  using assms by (auto simp: apc_threads_run_def apc_thread_step_def apc_alarm_event_def apc_audio_Body_def)

text \<open>A warning that cannot be sent is not sent later: the next frame has no alarm any more.\<close>

theorem failed_warning_lost:
  assumes "bOverLoadAlarm p" "s32LoadNum p < n" "\<not> bOverloaded st" "enPreType w = APC_ALARM_NONE" "submit \<noteq> SV_SUCCESS"
    and "u32PreIn w = i" "u32PreOut w = k" "u32PreRect w = r" "crowd \<le> s32CrowdedNum p"
  shows "let (e1, st1) = apc_alarm_getEvent p n crowd st; (w1, m1, _) = apc_send_websocket_msg submit i k r e1 w;
             (e2, st2) = apc_alarm_getEvent p n crowd st1; (w2, m2, _) = apc_send_websocket_msg SV_SUCCESS i k r e2 w1
         in e1 = APC_ALARM_OVERLOAD \<and> m1 = None \<and> m2 = None"
  using assms by (simp add: apc_alarm_getEvent_def apc_send_websocket_msg_def Let_def)

theorem failed_warning_lost_witness:
  "let (e1, st1) = apc_alarm_getEvent (conf sample_apc) 11 0 (static sample_apc);
       (w1, m1, _) = apc_send_websocket_msg SV_FAILURE 11 0 0 e1 \<lparr>enPreType = APC_ALARM_NONE, u32PreIn = 11, u32PreOut = 0, u32PreRect = 0\<rparr>;
       (e2, st2) = apc_alarm_getEvent (conf sample_apc) 11 0 st1; (w2, m2, _) = apc_send_websocket_msg SV_SUCCESS 11 0 0 e2 w1
   in e1 = APC_ALARM_OVERLOAD \<and> m1 = None \<and> m2 = None"
  by (rule failed_warning_lost) (simp_all add: sample_apc_def)

end
