(* ===== verification/Track.thy ===== *)
theory Track
  imports Anti_Shake
begin

section \<open>Tracking of a target (track/track.cpp)\<close>

text \<open>
  The user marks a target; the tracking library is prepared with its box and reports a box and a score for each frame.
  The thread reports the box to the camera mount, holds still when the score was low, and goes on when it is high again.
  The library (\<open>SFCP::prepare\<close>, \<open>SFCP::update\<close>), the lock, the semaphore and the message system are arguments: what they
  answer in a round.  The thread works under the lock of the computing resource, which all detection modules share.  A
  round is one step, except for the branch that drops a target, between whose test and writes the message thread may run.
\<close>

subsection \<open>State\<close>

definition TRACK_IMAGE_WIDTH :: int where "TRACK_IMAGE_WIDTH = 1280"
definition TRACK_IMAGE_HEIGHT :: int where "TRACK_IMAGE_HEIGHT = 720"

record SFCP_BOX =
  cx :: int
  cy :: int
  box_w :: int
  box_h :: int

record track_rect =
  tr_x1 :: rat
  tr_y1 :: rat
  tr_x2 :: rat
  tr_y2 :: rat

record PTZ_POS_S =
  dLeftX :: rat
  dLeftY :: rat
  dRightX :: rat
  dRightY :: rat
  bVaild :: bool

datatype track_out = Gui_Clear | Prepare SFCP_BOX | Ptz track_rect rat | Gui_Rect track_rect

text \<open>\<open>Gone\<close>: the thread has returned.\<close>

datatype track_place = Round | Dropping | Tracking | Gone

record TARGET_TRACK_INFO_S =
  track_running :: bool
  bTrackConf :: bool
  bIsFinishConf :: bool
  stTrackPos :: PTZ_POS_S
  bLoss :: bool
  bClear :: bool
  stNextBox :: SFCP_BOX
  fScore :: rat
  track_at :: track_place
  lock_held :: bool
  sem_held :: bool
  s_stOldResult :: "track_rect list"
  track_sent :: "track_out list"

record track_tick =
  tt_lock :: bool
  tt_sem :: bool
  tt_box :: SFCP_BOX
  tt_score :: rat
  tt_submit :: bool

definition emit :: "track_out list \<Rightarrow> TARGET_TRACK_INFO_S \<Rightarrow> TARGET_TRACK_INFO_S" where
  "emit xs s = s\<lparr>track_sent := track_sent s @ xs\<rparr>"

subsection \<open>The filter\<close>

text \<open>Like the filter of the pedestrian detection, but the corners are truncated to pixels.\<close>

definition pixels :: "rat \<Rightarrow> int \<Rightarrow> int" where "pixels f n = f2s32 (fmul f (f32 (of_int n)))"

definition track_match :: "rat \<Rightarrow> rat \<Rightarrow> track_rect \<Rightarrow> track_rect \<Rightarrow> bool" where
  "track_match fThresholdX fThresholdY new old =
     (let nx1 = pixels (tr_x1 new) TRACK_IMAGE_WIDTH; ny1 = pixels (tr_y1 new) TRACK_IMAGE_HEIGHT;
          nx2 = pixels (tr_x2 new) TRACK_IMAGE_WIDTH; ny2 = pixels (tr_y2 new) TRACK_IMAGE_HEIGHT;
          ox1 = pixels (tr_x1 old) TRACK_IMAGE_WIDTH; oy1 = pixels (tr_y1 old) TRACK_IMAGE_HEIGHT;
          ox2 = pixels (tr_x2 old) TRACK_IMAGE_WIDTH; oy2 = pixels (tr_y2 old) TRACK_IMAGE_HEIGHT;
          dist = (\<lambda>a b. let a = f32 (of_int (s32 a)); b = f32 (of_int (s32 b)) in sqrtf (fadd (fmul a a) (fmul b b)))
      in dist (ox1 - nx1) (oy1 - ny1) < fmul fThresholdX (f32 (of_int (s32 (nx2 - nx1)))) \<and>
         dist (ox2 - nx2) (oy2 - ny2) < fmul fThresholdY (f32 (of_int (s32 (ny2 - ny1)))))"

fun track_shake :: "(track_rect \<Rightarrow> track_rect \<Rightarrow> bool) \<Rightarrow> track_rect list \<Rightarrow> track_rect list \<Rightarrow> track_rect list" where
  "track_shake M [] old = []"
| "track_shake M (n # ns) old =
     (case take_match (M n) old of None \<Rightarrow> n # track_shake M ns old | Some (r, old') \<Rightarrow> r # track_shake M ns old')"

text \<open>The results kept for the next frame are those of the channel of the camera.\<close>

definition target_track_RectAntiShakeFilter :: "rat \<Rightarrow> rat \<Rightarrow> track_rect list \<Rightarrow> track_rect list \<Rightarrow> track_rect list \<times> track_rect list" where
  "target_track_RectAntiShakeFilter fThresholdX fThresholdY new old =
     (let new = track_shake (track_match fThresholdX fThresholdY) new old in (new, new))"

subsection \<open>A round\<close>

definition first_box :: "PTZ_POS_S \<Rightarrow> SFCP_BOX" where
  "first_box p =
     (let lx = f2s32 (f64 (dLeftX p * 1280)); ly = f2s32 (f64 (dLeftY p * 720));
          rx = f2s32 (f64 (dRightX p * 1280)); ry = f2s32 (f64 (dRightY p * 720))
      in \<lparr>cx = s32 (lx + rx) div 2, cy = s32 (ly + ry) div 2, box_w = s32 \<bar>s32 (rx - lx)\<bar>, box_h = s32 \<bar>s32 (ry - ly)\<bar>\<rparr>)"

definition box_rect :: "SFCP_BOX \<Rightarrow> track_rect" where
  "box_rect b =
     \<lparr>tr_x1 = f32 (f32 (of_int (s32 (cx b - box_w b div 2))) / 1280), tr_y1 = f32 (f32 (of_int (s32 (cy b - box_h b div 2))) / 720),
      tr_x2 = f32 (f32 (of_int (s32 (cx b + box_w b div 2))) / 1280), tr_y2 = f32 (f32 (of_int (s32 (cy b + box_h b div 2))) / 720)\<rparr>"

definition unlock :: "TARGET_TRACK_INFO_S \<Rightarrow> TARGET_TRACK_INFO_S" where
  "unlock s = s\<lparr>lock_held := False, sem_held := False, track_at := Round\<rparr>"

text \<open>The decision whether the target is lost, on the score of the frame.\<close>

definition judge :: "SFCP_BOX \<Rightarrow> rat \<Rightarrow> TARGET_TRACK_INFO_S \<Rightarrow> TARGET_TRACK_INFO_S" where
  "judge bx score s =
     (let stLastBox = stNextBox s; s = s\<lparr>stNextBox := bx, fScore := score\<rparr>;
          s = (if fScore s < f64 (3 / 10)
               then s\<lparr>bLoss := True, bClear := False, stNextBox := stLastBox, fScore := f32 (f64 (3 / 10))\<rparr> else s)
      in if bLoss s then
           if f64 (6 / 10) < fScore s then s\<lparr>bLoss := False\<rparr>
           else s\<lparr>stNextBox := stLastBox, fScore := f32 (f64 (3 / 10))\<rparr>
         else s)"

definition report :: "track_tick \<Rightarrow> TARGET_TRACK_INFO_S \<Rightarrow> TARGET_TRACK_INFO_S" where
  "report t s =
     (if bLoss s then
        unlock (if \<not> bClear s then emit [Gui_Clear] (s\<lparr>bClear := True\<rparr>) else s)
      else if \<not> tt_submit t then s\<lparr>track_at := Gone\<rparr>
      else let r = box_rect (stNextBox s); (shown, old) = target_track_RectAntiShakeFilter (f32 (f64 (1 / 10))) (f32 (f64 (2 / 10))) [r] (s_stOldResult s)
        in emit (Ptz r (fScore s) # map Gui_Rect shown) (unlock (s\<lparr>s_stOldResult := old\<rparr>)))"

definition track_alg_Body :: "track_tick \<Rightarrow> TARGET_TRACK_INFO_S \<Rightarrow> TARGET_TRACK_INFO_S" where
  "track_alg_Body t s =
     (case track_at s of
        Round \<Rightarrow>
          if \<not> track_running s then s\<lparr>track_at := Gone\<rparr>
          else if \<not> tt_lock t \<or> \<not> tt_sem t then s
          else s\<lparr>lock_held := True, sem_held := True, track_at := if bVaild (stTrackPos s) then Tracking else Dropping\<rparr>
      | Dropping \<Rightarrow>
          emit [Gui_Clear] (s\<lparr>bTrackConf := False, bIsFinishConf := False, stTrackPos := (stTrackPos s)\<lparr>bVaild := True\<rparr>,
            bLoss := False, bClear := False, track_at := Tracking\<rparr>)
      | Tracking \<Rightarrow>
          let s = (if bTrackConf s
                   then emit [Prepare (first_box (stTrackPos s))] (s\<lparr>bTrackConf := False, bIsFinishConf := True, bLoss := False\<rparr>) else s)
          in if bIsFinishConf s then report t (judge (tt_box t) (tt_score t) s) else unlock s
      | Gone \<Rightarrow> s)"

definition TrackPosUpdate :: "PTZ_POS_S \<Rightarrow> TARGET_TRACK_INFO_S \<Rightarrow> TARGET_TRACK_INFO_S" where
  "TrackPosUpdate p s = s\<lparr>stTrackPos := p, bTrackConf := True\<rparr>"

definition TARGET_TRACK_Init :: "int option \<Rightarrow> TARGET_TRACK_INFO_S + sv_ret" where
  "TARGET_TRACK_Init s32MediaBufFd =
     (case s32MediaBufFd of None \<Rightarrow> Inr ERR_NULL_PTR
      | Some fd \<Rightarrow> if fd < 0 then Inr ERR_ILLEGAL_PARAM
          else Inl \<lparr>track_running = False, bTrackConf = False, bIsFinishConf = False,
            stTrackPos = \<lparr>dLeftX = 0, dLeftY = 0, dRightX = 0, dRightY = 0, bVaild = False\<rparr>, bLoss = False, bClear = False,
            stNextBox = \<lparr>cx = 0, cy = 0, box_w = 0, box_h = 0\<rparr>, fScore = 0, track_at = Round, lock_held = False,
            sem_held = False, s_stOldResult = [], track_sent = []\<rparr>)"

definition TARGET_TRACK_Start :: "TARGET_TRACK_INFO_S \<Rightarrow> TARGET_TRACK_INFO_S" where
  "TARGET_TRACK_Start s = s\<lparr>track_running := True\<rparr>"

definition TARGET_TRACK_Stop :: "TARGET_TRACK_INFO_S \<Rightarrow> TARGET_TRACK_INFO_S" where
  "TARGET_TRACK_Stop s = s\<lparr>track_running := False\<rparr>"

datatype track_event = Track_Tick track_tick | Track_Update PTZ_POS_S | Track_Stop

definition track_step :: "track_event \<Rightarrow> TARGET_TRACK_INFO_S \<Rightarrow> TARGET_TRACK_INFO_S" where
  "track_step e s =
     (case e of Track_Tick t \<Rightarrow> track_alg_Body t s | Track_Update p \<Rightarrow> TrackPosUpdate p s | Track_Stop \<Rightarrow> TARGET_TRACK_Stop s)"

definition track_run :: "track_event list \<Rightarrow> TARGET_TRACK_INFO_S \<Rightarrow> TARGET_TRACK_INFO_S" where
  "track_run es s = fold track_step es s"

subsection \<open>Lemmas\<close>

lemma track_shake_frozen:
  assumes "length ns = length old" "\<forall>i<length ns. M (ns ! i) (old ! i)"
  shows "track_shake M ns old = old"
  using assms
proof (induction ns arbitrary: old)
  case (Cons n ns)
  then obtain r rs where old: "old = r # rs" by (cases old) auto
  from Cons.prems old have "M n r" by force
  moreover have "track_shake M ns rs = rs" using Cons.prems by (intro Cons.IH) (auto simp: old)
  ultimately show ?case by (simp add: old)
qed simp

interpretation track_steady: steady_filter "target_track_RectAntiShakeFilter a b" "\<lambda>old. old" "\<lambda>_. True" "track_match a b" "\<lambda>r. r"
  for a b
  by unfold_locales (auto simp: target_track_RectAntiShakeFilter_def Let_def track_shake_frozen)

lemma low_scores: "f32 (f64 (3 / 10)) < f64 (6 / 10)" "f64 (3 / 10) \<le> f32 (f64 (3 / 10))"
  by (code_simp, code_simp)

named_theorems track_defs \<open>the steps of the tracking thread\<close>

declare track_alg_Body_def [track_defs] report_def [track_defs] emit_def [track_defs] unlock_def [track_defs] Let_def [track_defs]

definition is_ptz :: "track_out \<Rightarrow> bool" where "is_ptz x = (case x of Ptz _ _ \<Rightarrow> True | _ \<Rightarrow> False)"

text \<open>A target that is lost stays lost while the scores are low.\<close>

definition lost :: "TARGET_TRACK_INFO_S \<Rightarrow> bool" where
  "lost s \<longleftrightarrow> bLoss s \<and> \<not> bTrackConf s \<and> bVaild (stTrackPos s) \<and> track_at s \<noteq> Dropping"

lemma judge_lost:
  "bLoss s \<Longrightarrow> score \<le> f64 (6 / 10) \<Longrightarrow> bLoss (judge bx score s)"
  "bTrackConf (judge bx score s) = bTrackConf s" "stTrackPos (judge bx score s) = stTrackPos s"
  "track_sent (judge bx score s) = track_sent s" "track_at (judge bx score s) = track_at s" "lock_held (judge bx score s) = lock_held s"
  "sem_held (judge bx score s) = sem_held s" "bIsFinishConf (judge bx score s) = bIsFinishConf s"
  using low_scores by (auto simp: judge_def Let_def)

lemma lost_step:
  assumes "lost s" "tt_score t \<le> f64 (6 / 10)"
  shows "lost (track_alg_Body t s) \<and> filter is_ptz (track_sent (track_alg_Body t s)) = filter is_ptz (track_sent s)"
proof (cases "track_at s")
  case Tracking
  let ?s = "judge (tt_box t) (tt_score t) s"
  have "bLoss ?s" using assms judge_lost(1) by (simp add: lost_def)
  then show ?thesis
    using assms Tracking judge_lost(2-5) [of "tt_box t" "tt_score t" s] by (auto simp: lost_def track_defs is_ptz_def)
qed (use assms in \<open>auto simp: lost_def track_defs\<close>)

lemma lost_run:
  "lost s \<Longrightarrow> list_all (\<lambda>t. tt_score t \<le> f64 (6 / 10)) ts \<Longrightarrow>
    lost (track_run (map Track_Tick ts) s) \<and> filter is_ptz (track_sent (track_run (map Track_Tick ts) s)) = filter is_ptz (track_sent s)"
proof (induction ts arbitrary: s)
  case (Cons t ts)
  then show ?case using lost_step [of s t] Cons.IH [of "track_alg_Body t s"] by (simp add: track_run_def track_step_def)
qed (simp add: track_run_def)

lemma gone_run: "track_at s = Gone \<Longrightarrow> track_at (track_run es s) = Gone \<and> lock_held (track_run es s) = lock_held s \<and>
    sem_held (track_run es s) = sem_held s"
proof (induction es arbitrary: s)
  case (Cons e es)
  then show ?case
    using Cons.IH [of "track_step e s"]
    by (cases e) (auto simp: track_run_def track_step_def track_alg_Body_def TrackPosUpdate_def TARGET_TRACK_Stop_def)
qed (simp add: track_run_def)

definition is_prepare :: "track_out \<Rightarrow> bool" where "is_prepare x = (case x of Prepare _ \<Rightarrow> True | _ \<Rightarrow> False)"

definition idle :: "TARGET_TRACK_INFO_S \<Rightarrow> bool" where
  "idle s \<longleftrightarrow> \<not> bTrackConf s \<and> \<not> bIsFinishConf s \<and> bVaild (stTrackPos s) \<and> track_at s \<noteq> Dropping"

lemma idle_step: "idle s \<Longrightarrow> idle (track_alg_Body t s) \<and> track_sent (track_alg_Body t s) = track_sent s"
  by (cases "track_at s") (auto simp: idle_def track_defs)

lemma idle_run: "idle s \<Longrightarrow> track_sent (track_run (map Track_Tick ts) s) = track_sent s"
proof (induction ts arbitrary: s)
  case (Cons t ts)
  then show ?case using idle_step [of s t] Cons.IH [of "track_alg_Body t s"] by (simp add: track_run_def track_step_def)
qed (simp add: track_run_def)

subsection \<open>Properties\<close>

text \<open>C36: a target whose score fell below 0.3 is not reported to the camera mount again before its score exceeds 0.6: the scores
  in between, however many, move nothing; the first score above 0.6 is reported with its box.\<close>

theorem lost_target_held_back:
  assumes "track_at s = Tracking" "bIsFinishConf s" "\<not> bTrackConf s" "bVaild (stTrackPos s)" "tt_score t < f64 (3 / 10)"
    and "list_all (\<lambda>t. tt_score t \<le> f64 (6 / 10)) ts"
    and "track_at (track_run (map Track_Tick (t # ts)) s) = Tracking" "bIsFinishConf (track_run (map Track_Tick (t # ts)) s)"
    and "f64 (6 / 10) < tt_score t'" "tt_submit t'"
  shows "filter is_ptz (track_sent (track_run (map Track_Tick (t # ts)) s)) = filter is_ptz (track_sent s) \<and>
    filter is_ptz (track_sent (track_run (map Track_Tick (t # ts @ [t'])) s)) =
      filter is_ptz (track_sent s) @ [Ptz (box_rect (tt_box t')) (tt_score t')]"
proof -
  have "bLoss (judge (tt_box t) (tt_score t) s)" using assms(5) low_scores by (simp add: judge_def Let_def)
  then have "lost (track_alg_Body t s) \<and> filter is_ptz (track_sent (track_alg_Body t s)) = filter is_ptz (track_sent s)"
    using assms(1-4) judge_lost(2-5) [of "tt_box t" "tt_score t" s] by (auto simp: lost_def track_defs is_ptz_def)
  with lost_run [OF _ assms(6), of "track_alg_Body t s"]
  have l: "lost (track_run (map Track_Tick (t # ts)) s)"
    "filter is_ptz (track_sent (track_run (map Track_Tick (t # ts)) s)) = filter is_ptz (track_sent s)"
    by (simp_all add: track_run_def track_step_def)
  define s2 where "s2 = track_run (map Track_Tick (t # ts)) s"
  have s2: "track_at s2 = Tracking" "bIsFinishConf s2" "lost s2" "filter is_ptz (track_sent s2) = filter is_ptz (track_sent s)"
    using assms(7,8) l unfolding s2_def by blast+
  have "f64 (3 / 10) < tt_score t'" using assms(9) low_scores by linarith
  then have j: "judge (tt_box t') (tt_score t') s2 = s2\<lparr>stNextBox := tt_box t', fScore := tt_score t', bLoss := False\<rparr>"
    using s2(3) assms(9) by (simp add: judge_def Let_def lost_def)
  have "filter is_ptz (map Gui_Rect xs) = []" for xs by (simp add: is_ptz_def filter_empty_conv)
  then have "filter is_ptz (track_sent (track_alg_Body t' s2)) = filter is_ptz (track_sent s2) @ [Ptz (box_rect (tt_box t')) (tt_score t')]"
    using s2(1-3) assms(10) by (simp add: track_defs lost_def j is_ptz_def split: prod.splits)
  moreover have "track_run (map Track_Tick (t # ts @ [t'])) s = track_alg_Body t' s2"
    by (simp add: s2_def track_run_def track_step_def)
  ultimately show ?thesis using s2(4) unfolding s2_def [symmetric] by simp
qed

definition sample_track :: TARGET_TRACK_INFO_S where
  "sample_track = \<lparr>track_running = True, bTrackConf = False, bIsFinishConf = True,
     stTrackPos = \<lparr>dLeftX = 1 / 4, dLeftY = 1 / 4, dRightX = 1 / 2, dRightY = 1 / 2, bVaild = True\<rparr>, bLoss = False, bClear = False,
     stNextBox = \<lparr>cx = 0, cy = 0, box_w = 0, box_h = 0\<rparr>, fScore = 0, track_at = Tracking, lock_held = True, sem_held = True,
     s_stOldResult = [], track_sent = []\<rparr>"

definition sample_score :: "rat \<Rightarrow> bool \<Rightarrow> track_tick" where
  "sample_score f ok = \<lparr>tt_lock = True, tt_sem = True, tt_box = \<lparr>cx = 640, cy = 360, box_w = 100, box_h = 50\<rparr>, tt_score = f, tt_submit = ok\<rparr>"

theorem lost_target_held_back_witness:
  "filter is_ptz (track_sent (track_run (map Track_Tick [sample_score 0 True, sample_score 0 True, sample_score (1 / 2) True,
     sample_score 0 True, sample_score 1 True]) sample_track)) = [Ptz (box_rect \<lparr>cx = 640, cy = 360, box_w = 100, box_h = 50\<rparr>) 1]"
proof -
  have t: "(1 :: rat) / 2 \<le> f64 (6 / 10)" "f64 (6 / 10) < (1 :: rat)" "(0 :: rat) < f64 (3 / 10)" "(0 :: rat) \<le> f64 (6 / 10)"
    "\<not> 1 / 2 < f64 (3 / 10)" "(1 :: rat) / 2 = f32 (1 / 2)"
    by (code_simp, code_simp, code_simp, code_simp, code_simp, code_simp)
  have "track_at (track_run (map Track_Tick (sample_score 0 True # [sample_score 0 True, sample_score (1 / 2) True, sample_score 0 True]))
      sample_track) = Tracking \<and> bIsFinishConf (track_run (map Track_Tick (sample_score 0 True # [sample_score 0 True,
      sample_score (1 / 2) True, sample_score 0 True])) sample_track)"
    using t low_scores by (simp add: track_run_def track_step_def track_defs judge_def sample_track_def sample_score_def)
  then show ?thesis
    using lost_target_held_back [of sample_track "sample_score 0 True" "[sample_score 0 True, sample_score (1 / 2) True, sample_score 0 True]"
        "sample_score 1 True"] t
    by (simp add: sample_track_def sample_score_def)
qed

text \<open> when the message to the camera mount fails the thread returns with the lock of the computing resource and the semaphore
  of the picture held, for good: no detection module works from then on.\<close>

theorem failed_message_keeps_lock:
  assumes "track_at s = Tracking" "bIsFinishConf s" "\<not> bTrackConf s" "\<not> bLoss s" "f64 (3 / 10) \<le> tt_score t" "\<not> tt_submit t"
    and "lock_held s" "sem_held s"
  shows "let s' = track_run (Track_Tick t # es) s in track_at s' = Gone \<and> lock_held s' \<and> sem_held s'"
proof -
  have "\<not> bLoss (judge (tt_box t) (tt_score t) s)" using assms(4,5) by (simp add: judge_def Let_def)
  then have "track_at (track_alg_Body t s) = Gone \<and> lock_held (track_alg_Body t s) \<and> sem_held (track_alg_Body t s)"
    using assms judge_lost(2-8) [of "tt_box t" "tt_score t" s] by (simp add: track_defs)
  then show ?thesis using gone_run [of "track_alg_Body t s" es] by (simp add: track_run_def track_step_def Let_def)
qed

theorem failed_message_keeps_lock_witness:
  "lock_held (track_run [Track_Tick (sample_score 1 False), Track_Stop, Track_Tick (sample_score 1 True)] sample_track)"
proof -
  have "f64 (3 / 10) \<le> (1 :: rat)" by code_simp
  then show ?thesis
    using failed_message_keeps_lock [of sample_track "sample_score 1 False" "[Track_Stop, Track_Tick (sample_score 1 True)]"]
    by (simp add: sample_track_def sample_score_def Let_def)
qed

text \<open> a target that is marked while the thread drops the one before is lost: it is never handed to the library, and nothing
  is tracked until the user marks a target again.\<close>

theorem new_target_lost:
  assumes "track_at s = Dropping"
  shows "\<not> list_ex is_prepare (drop (length (track_sent s)) (track_sent (track_run (Track_Update p # map Track_Tick (t # ts)) s)))"
proof -
  let ?s = "track_alg_Body t (TrackPosUpdate p s)"
  have "idle ?s \<and> track_sent ?s = track_sent s @ [Gui_Clear]"
    using assms by (simp add: idle_def track_alg_Body_def TrackPosUpdate_def emit_def)
  then show ?thesis using idle_run [of ?s ts] by (simp add: track_run_def track_step_def is_prepare_def)
qed

theorem new_target_lost_witness:
  "\<not> list_ex is_prepare (track_sent (track_run [Track_Update (stTrackPos sample_track), Track_Tick (sample_score 1 True),
     Track_Tick (sample_score 1 True)] (sample_track\<lparr>track_at := Dropping\<rparr>)))"
  using new_target_lost [of "sample_track\<lparr>track_at := Dropping\<rparr>" "stTrackPos sample_track" "sample_score 1 True" "[sample_score 1 True]"]
  by (simp add: sample_track_def)

text \<open>A tracker that reports the box it was prepared with gets the marked corners back, the lower right one to the pixel before
  it when the size is odd.\<close>

theorem marked_box_reported:
  assumes "lx = f2s32 (f64 (dLeftX p * 1280))" "rx = f2s32 (f64 (dRightX p * 1280))" "0 \<le> lx" "lx \<le> rx" "rx \<le> 1280"
    and "ly = f2s32 (f64 (dLeftY p * 720))" "ry = f2s32 (f64 (dRightY p * 720))" "0 \<le> ly" "ly \<le> ry" "ry \<le> 720"
  shows "box_rect (first_box p) = \<lparr>tr_x1 = f32 (of_int lx / 1280), tr_y1 = f32 (of_int ly / 720),
    tr_x2 = f32 (of_int (rx - (rx - lx) mod 2) / 1280), tr_y2 = f32 (of_int (ry - (ry - ly) mod 2) / 720)\<rparr>"
proof -
  have half: "(a + b) div 2 - (b - a) div 2 = a" "(a + b) div 2 + (b - a) div 2 = b - (b - a) mod 2" for a b :: int
    by presburger+
  have i: "f32 (of_int (s32 k)) = of_int k" if "0 \<le> k" "k \<le> 1280" for k using that by (simp add: s32_id f32_of_int)
  have "s32 k = k" if "- 1280 \<le> k" "k \<le> 2560" for k using that by (intro s32_id) auto
  moreover have "0 \<le> rx - (rx - lx) mod 2" "0 \<le> ry - (ry - ly) mod 2" using assms(3,4,8,9) by presburger+
  moreover have "rx - (rx - lx) mod 2 \<le> 1280" "ry - (ry - ly) mod 2 \<le> 720" using assms(5,10) by (simp_all add: le_diff_eq add_increasing)
  ultimately show ?thesis
    using assms(3-5,8-10) half [of lx rx] half [of ly ry] i [of "rx - (rx - lx) mod 2"] i [of "ry - (ry - ly) mod 2"] i [of lx] i [of ly]
    by (simp add: box_rect_def first_box_def Let_def flip: assms(1,2,6,7))
qed

theorem marked_box_reported_witness:
  "box_rect (first_box (stTrackPos sample_track)) = \<lparr>tr_x1 = f32 (320 / 1280), tr_y1 = f32 (180 / 720), tr_x2 = f32 (640 / 1280), tr_y2 = f32 (360 / 720)\<rparr>"
proof -
  have "f2s32 (f64 (320 :: rat)) = 320" "f2s32 (f64 (640 :: rat)) = 640" "f2s32 (f64 (180 :: rat)) = 180" "f2s32 (f64 (360 :: rat)) = 360"
    by (code_simp, code_simp, code_simp, code_simp)
  then show ?thesis using marked_box_reported [of 320 "stTrackPos sample_track" 640 180 360] by (simp add: sample_track_def)
qed

end
