(* ===== verification/Gui_Zoom.thy ===== *)
theory Gui_Zoom
  imports Roi
begin

section \<open>Scaling of pictures and the calibration with printed codes (pd/pd.cpp, apc/apc.cpp, adas/adas.cpp)\<close>

text \<open>
  \<open>pd_Gui_Zoom\<close>, \<open>apc_Gui_Zoom\<close> and \<open>adas_Gui_Zoom\<close> are the same text: a nearest-neighbour scaling with ratios in
  16.16 fixed point.  A bitmap is the list of its pixels, row by row; a read outside of the source and a write outside
  of the destination are \<open>None\<close>.  \<open>unsigned long\<close> has 32 bits on the boards.  \<open>pd_QRCodeCaliberation\<close> scales a snapshot
  to 1920 x 1080 and hands it with the corners of two printed codes to the calibration library.
\<close>

subsection \<open>Scaling\<close>

record 'p gui_img =
  pbmp :: "'p list"
  s32Width :: int
  s32Height :: int

text \<open>A product beyond 31 bits is an overflow of \<open>s32Width << 16\<close>, taken as the wrap-around.\<close>

definition zoom_ratio :: "int \<Rightarrow> int \<Rightarrow> int" where
  "zoom_ratio src dst = u32 (tdiv (s32 (src * 65536)) dst + 1)"

fun zoom_line :: "(int \<Rightarrow> 'p option) \<Rightarrow> int \<Rightarrow> int \<Rightarrow> nat \<Rightarrow> 'p list option" where
  "zoom_line src xr srcx_16 0 = Some []"
| "zoom_line src xr srcx_16 (Suc n) =
     (case src (srcx_16 div 65536) of None \<Rightarrow> None
      | Some p \<Rightarrow> map_option ((#) p) (zoom_line src xr (u32 (srcx_16 + xr)) n))"

fun zoom_lines :: "(int \<Rightarrow> 'p option) \<Rightarrow> int \<Rightarrow> nat \<Rightarrow> int \<Rightarrow> int \<Rightarrow> int \<Rightarrow> nat \<Rightarrow> 'p list option" where
  "zoom_lines src w n xr yr srcy_16 0 = Some []"
| "zoom_lines src w n xr yr srcy_16 (Suc m) =
     (case zoom_line (\<lambda>x. src (w * (srcy_16 div 65536) + x)) xr 0 n of None \<Rightarrow> None
      | Some line \<Rightarrow> map_option ((@) line) (zoom_lines src w n xr yr (u32 (srcy_16 + yr)) m))"

definition pixel :: "'p list \<Rightarrow> int \<Rightarrow> 'p option" where
  "pixel ps i = (if 0 \<le> i \<and> i < int (length ps) then Some (ps ! nat i) else None)"

text \<open>The pictures are \<open>None\<close> for null pointers; the loops compare their counters with the size of the destination as
  unsigned numbers.\<close>

definition pd_Gui_Zoom :: "'p gui_img option \<Rightarrow> 'p gui_img option \<Rightarrow> ('p gui_img option \<times> sv_ret) option" where
  "pd_Gui_Zoom pstPdImgDst pstPdImgSrc =
     (case (pstPdImgDst, pstPdImgSrc) of
        (Some dst, Some src) \<Rightarrow>
          if s32Height dst = 0 \<or> s32Width dst = 0 \<or> s32Height src = 0 \<or> s32Width src = 0 then Some (Some dst, SV_SUCCESS)
          else
            (case zoom_lines (pixel (pbmp src)) (s32Width src) (nat (u32 (s32Width dst)))
                (zoom_ratio (s32Width src) (s32Width dst)) (zoom_ratio (s32Height src) (s32Height dst)) 0 (nat (u32 (s32Height dst))) of
               None \<Rightarrow> None
             | Some ps \<Rightarrow> if length ps \<le> length (pbmp dst) then Some (Some (dst\<lparr>pbmp := ps @ drop (length ps) (pbmp dst)\<rparr>), SV_SUCCESS)
                 else None)
      | _ \<Rightarrow> Some (pstPdImgDst, ERR_NULL_PTR))"

definition apc_Gui_Zoom :: "'p gui_img option \<Rightarrow> 'p gui_img option \<Rightarrow> ('p gui_img option \<times> sv_ret) option" where
  "apc_Gui_Zoom pstApcImgDst pstApcImgSrc = pd_Gui_Zoom pstApcImgDst pstApcImgSrc"

definition adas_Gui_Zoom :: "'p gui_img option \<Rightarrow> 'p gui_img option \<Rightarrow> ('p gui_img option \<times> sv_ret) option" where
  "adas_Gui_Zoom pstPdImgDst pstPdImgSrc = pd_Gui_Zoom pstPdImgDst pstPdImgSrc"

text \<open>The lines and columns the pixels come from.\<close>

definition zoom_index :: "int \<Rightarrow> int \<Rightarrow> nat \<Rightarrow> int" where
  "zoom_index src dst k = int k * (src * 65536 div dst + 1) div 65536"

text \<open>Sizes for which the fixed point is fine enough.\<close>

definition zoom_ok :: "int \<Rightarrow> int \<Rightarrow> bool" where
  "zoom_ok src dst \<longleftrightarrow> 0 < src \<and> src < 32768 \<and> 0 < dst \<and> dst < 32768 \<and> dst * (dst - 1) < src * 65536"

lemma zoom_ratio_ok: "zoom_ok src dst \<Longrightarrow> zoom_ratio src dst = src * 65536 div dst + 1"
proof -
  assume ok: "zoom_ok src dst"
  have "0 \<le> src * 65536 div dst" using ok by (simp add: zoom_ok_def pos_imp_zdiv_nonneg_iff)
  moreover have "src * 65536 div dst \<le> src * 65536" using ok zdiv_mono2 [of "src * 65536" 1 dst] by (simp add: zoom_ok_def)
  ultimately show ?thesis using ok by (simp add: zoom_ratio_def zoom_ok_def s32_id tdiv_nonneg u32_id)
qed

lemma zoom_product:
  assumes "zoom_ok src dst" "int k < dst"
  shows "0 \<le> int k * (src * 65536 div dst + 1)" "int k * (src * 65536 div dst + 1) < src * 65536"
    "int k * (src * 65536 div dst + 1) + (src * 65536 div dst + 1) < 4294967296"
proof -
  let ?r = "src * 65536 div dst"
  have "?r * dst \<le> src * 65536" using assms by (simp add: zoom_ok_def flip: minus_mod_eq_div_mult)
  then have r: "0 \<le> ?r" "dst * ?r \<le> src * 65536"
    using assms by (simp_all add: zoom_ok_def pos_imp_zdiv_nonneg_iff mult.commute)
  show "0 \<le> int k * (?r + 1)" using r by simp
  have k: "int k * (?r + 1) \<le> (dst - 1) * (?r + 1)" using assms r by (intro mult_right_mono) auto
  have lt: "(dst - 1) * (?r + 1) < src * 65536"
  proof (cases "?r < dst")
    case True
    then have "(dst - 1) * (?r + 1) \<le> (dst - 1) * dst" using assms by (intro mult_left_mono) (auto simp: zoom_ok_def)
    then show ?thesis using assms by (simp add: zoom_ok_def mult.commute)
  next
    case False
    then have "(dst - 1) * (?r + 1) < dst * ?r" by (simp add: algebra_simps)
    then show ?thesis using r by simp
  qed
  then show "int k * (?r + 1) < src * 65536" using k by simp
  have "?r \<le> src * 65536" using assms zdiv_mono2 [of "src * 65536" 1 dst] by (simp add: zoom_ok_def)
  then show "int k * (?r + 1) + (?r + 1) < 4294967296" using k lt assms by (simp add: zoom_ok_def)
qed

lemma zoom_next:
  assumes "zoom_ok src dst" "int k < dst"
  shows "u32 (int k * (src * 65536 div dst + 1) + (src * 65536 div dst + 1)) = int (Suc k) * (src * 65536 div dst + 1)"
proof -
  have "0 \<le> src * 65536 div dst + 1" using assms by (simp add: zoom_ok_def pos_imp_zdiv_nonneg_iff add_nonneg_nonneg)
  then show ?thesis using zoom_product [OF assms] by (subst u32_id) (auto simp: algebra_simps)
qed

lemma shift_bounds:
  fixes x q :: int
  shows "q * 65536 \<le> x \<Longrightarrow> q \<le> x div 65536" "x < q * 65536 \<Longrightarrow> x div 65536 < q"
proof -
  show "q * 65536 \<le> x \<Longrightarrow> q \<le> x div 65536" using zdiv_mono1 [of "q * 65536" x 65536] by simp
  show "x < q * 65536 \<Longrightarrow> x div 65536 < q"
    using minus_mod_eq_div_mult [of x 65536] pos_mod_sign [of 65536 x] by linarith
qed

text \<open>Each column comes from the column at the same fraction of the width, or from the next one.\<close>

lemma zoom_index_near:
  assumes "zoom_ok src dst" "int k < dst" "dst \<le> 65536"
  shows "int k * src div dst \<le> zoom_index src dst k" "zoom_index src dst k \<le> int k * src div dst + 1" "zoom_index src dst k < src"
proof -
  let ?r = "src * 65536 div dst" and ?q = "int k * src div dst"
  have d: "0 < dst" using assms by (simp add: zoom_ok_def)
  have lo: "src * 65536 < dst * (?r + 1)"
    using pos_mod_bound [OF d, of "src * 65536"] by (simp add: distrib_left flip: minus_mod_eq_mult_div)
  have hi: "dst * ?r \<le> src * 65536" using d by (simp flip: minus_mod_eq_mult_div)
  have q: "?q * dst \<le> int k * src" "int k * src < (?q + 1) * dst"
    using pos_mod_bound [OF d, of "int k * src"] pos_mod_sign [OF d, of "int k * src"]
    by (simp_all add: distrib_right flip: minus_mod_eq_div_mult)
  have "?q * 65536 * dst \<le> int k * (src * 65536)" using q(1) by simp
  also have "\<dots> \<le> int k * (dst * (?r + 1))" using lo by (intro mult_left_mono) auto
  finally have "?q * 65536 \<le> int k * (?r + 1)" using d by (simp add: mult.assoc mult.left_commute [of _ dst])
  then show "?q \<le> zoom_index src dst k" unfolding zoom_index_def by (rule shift_bounds)
  have "dst * (int k * (?r + 1)) = int k * (dst * ?r) + int k * dst" by (simp add: algebra_simps)
  also have "\<dots> \<le> int k * (src * 65536) + int k * dst" using hi by (intro add_right_mono mult_left_mono) auto
  also have "\<dots> < (?q + 1) * dst * 65536 + 65536 * dst"
  proof -
    have "int k * (src * 65536) < (?q + 1) * dst * 65536" using q(2) by simp
    moreover have "int k * dst \<le> 65536 * dst" using assms d by (intro mult_right_mono) auto
    ultimately show ?thesis by simp
  qed
  finally have "dst * (int k * (?r + 1)) < dst * ((?q + 2) * 65536)" by (simp add: algebra_simps)
  then have "int k * (?r + 1) < (?q + 2) * 65536" using d by (simp only: mult_less_cancel_left_pos)
  then have "zoom_index src dst k < ?q + 2" unfolding zoom_index_def by (rule shift_bounds)
  then show "zoom_index src dst k \<le> ?q + 1" by simp
  show "zoom_index src dst k < src" unfolding zoom_index_def
    using zoom_product(2) [OF assms(1,2)] by (rule shift_bounds)
qed

lemma zoom_line_run:
  assumes "zoom_ok sw dw" "\<And>x. 0 \<le> x \<Longrightarrow> x < sw \<Longrightarrow> src x = Some (f x)"
  shows "int (k + n) \<le> dw \<Longrightarrow> zoom_line src (sw * 65536 div dw + 1) (int k * (sw * 65536 div dw + 1)) n =
    Some (map (\<lambda>j. f (zoom_index sw dw j)) [k..<k + n])"
proof (induction n arbitrary: k)
  case (Suc n)
  let ?r = "sw * 65536 div dw + 1"
  have k: "int k < dw" using Suc.prems by simp
  note z = zoom_product [OF assms(1) k]
  note zoom_next [OF assms(1) k]
  moreover have "src (int k * ?r div 65536) = Some (f (zoom_index sw dw k))"
    unfolding zoom_index_def using z shift_bounds(2) [OF z(2)] by (intro assms(2)) (simp add: pos_imp_zdiv_nonneg_iff)
  ultimately show ?case using Suc.IH [of "Suc k"] Suc.prems upt_conv_Cons [of k "Suc (k + n)"] by simp
qed simp

lemma zoom_lines_run:
  assumes "zoom_ok sw dw" "zoom_ok sh dh" "\<And>i. 0 \<le> i \<Longrightarrow> i < sw * sh \<Longrightarrow> src i = Some (f i)"
  shows "int (k + m) \<le> dh \<Longrightarrow> zoom_lines src sw (nat dw) (sw * 65536 div dw + 1) (sh * 65536 div dh + 1)
      (int k * (sh * 65536 div dh + 1)) m =
    Some (concat (map (\<lambda>y. map (\<lambda>x. f (sw * zoom_index sh dh y + zoom_index sw dw x)) [0..<nat dw]) [k..<k + m]))"
proof (induction m arbitrary: k)
  case (Suc m)
  let ?r = "sh * 65536 div dh + 1" and ?y = "zoom_index sh dh k"
  have k: "int k < dh" using Suc.prems by simp
  note z = zoom_product [OF assms(2) k]
  have y: "0 \<le> ?y" "?y < sh" using z shift_bounds(2) [OF z(2)] by (simp_all add: zoom_index_def pos_imp_zdiv_nonneg_iff)
  have "sw * ?y + x < sw * sh" if "x < sw" for x
  proof -
    have "sw * (?y + 1) \<le> sw * sh" using y assms(1) by (intro mult_left_mono) (auto simp: zoom_ok_def)
    then show ?thesis using that by (simp add: algebra_simps)
  qed
  then have "zoom_line (\<lambda>x. src (sw * ?y + x)) (sw * 65536 div dw + 1) (int 0 * (sw * 65536 div dw + 1)) (nat dw) =
      Some (map (\<lambda>j. f (sw * ?y + zoom_index sw dw j)) [0..<0 + nat dw])"
    using assms(1,3) y by (intro zoom_line_run) (auto simp: zoom_ok_def)
  moreover note zoom_next [OF assms(2) k]
  ultimately show ?case
    using Suc.IH [of "Suc k"] Suc.prems upt_conv_Cons [of k "Suc (k + m)"] by (simp add: zoom_index_def)
qed simp

subsection \<open>Calibration with two printed codes\<close>

text \<open>The codes are pairs of corners in fractions of the picture, \<open>None\<close> for a null pointer.  The snapshot reader, the
  calibration library (\<open>Cali_run\<close>, \<open>Cali_import\<close>) and the configuration store are arguments: what they return.  The result
  says which picture and points went to the library, and for which channel the parameters were stored.\<close>

datatype 'c qr_result = Qr_Ret sv_ret | Qr_Null_Deref | Qr_Overrun | Qr_Stored board int 'c sv_ret

definition qr_accepted :: "SV_POINT2 \<times> SV_POINT2 \<Rightarrow> bool" where
  "qr_accepted q = (\<not> f64 (f64 (dX (snd q) - dX (fst q)) * f64 (dY (snd q) - dY (fst q))) < f64 (f64 (1 / 100) * f64 (1 / 100)))"

definition qr_ordered :: "SV_POINT2 \<times> SV_POINT2 \<Rightarrow> SV_POINT2 \<times> SV_POINT2" where
  "qr_ordered q = (if f64 (dX (snd q) - dX (fst q)) < 0 then (snd q, fst q) else q)"

definition qr_mask :: "SV_POINT2 \<Rightarrow> int \<times> int" where
  "qr_mask q = (f2s32 (f64 (dX q * 1920)), f2s32 (f64 (dY q * 1080)))"

definition pd_QRCodeCaliberation :: "int \<Rightarrow> board \<Rightarrow> CFG_ALG \<Rightarrow> (int \<Rightarrow> 'p gui_img + sv_ret) \<Rightarrow>
    ('p gui_img \<Rightarrow> (int \<times> int) list \<Rightarrow> 'c + sv_ret) \<Rightarrow> ('c \<Rightarrow> sv_ret) \<Rightarrow> sv_ret \<Rightarrow> 'p list \<Rightarrow> int \<Rightarrow>
    (SV_POINT2 \<times> SV_POINT2) option \<Rightarrow> (SV_POINT2 \<times> SV_POINT2) option \<Rightarrow> 'c qr_result" where
  "pd_QRCodeCaliberation ALG_MAX_CHN b cfg load_jpeg Cali_run Cali_import set_ret fresh chn pQRCode1 pQRCode2 =
     (if b = ADA32V3 then Qr_Ret SV_SUCCESS
      else if ALG_MAX_CHN \<le> chn then Qr_Ret ERR_ILLEGAL_PARAM
      else case (pQRCode1, pQRCode2) of
          (Some q1, Some q2) \<Rightarrow>
            if \<not> qr_accepted q1 \<or> \<not> qr_accepted q2 then Qr_Ret SV_FAILURE
            else let q1 = qr_ordered q1; q2 = qr_ordered q2
              in (case load_jpeg chn of
                  Inr r \<Rightarrow> Qr_Ret r
                | Inl img \<Rightarrow>
                    (case pd_Gui_Zoom (Some \<lparr>pbmp = fresh, s32Width = 1920, s32Height = 1080\<rparr>) (Some img) of
                       None \<Rightarrow> Qr_Overrun
                     | Some (None, r) \<Rightarrow> Qr_Ret r
                     | Some (Some dst, r) \<Rightarrow>
                         if r \<noteq> SV_SUCCESS then Qr_Ret r
                         else (case Cali_run dst [qr_mask (fst q1), qr_mask (snd q1), qr_mask (fst q2), qr_mask (snd q2)] of
                             Inr r \<Rightarrow> Qr_Ret r
                           | Inl c \<Rightarrow>
                               if Cali_import c \<noteq> SV_SUCCESS then Qr_Ret (Cali_import c)
                               else (case pds_param b chn cfg of
                                   None \<Rightarrow> Qr_Null_Deref
                                 | Some _ \<Rightarrow> Qr_Stored b chn c set_ret))))
        | _ \<Rightarrow> Qr_Ret ERR_NULL_PTR)"

text \<open>An accepted code has its first corner to the left of and above the second after the exchange.\<close>

lemma f64_sign: "f64 x < 0 \<Longrightarrow> x < 0" "0 < f64 x \<Longrightarrow> 0 < x"
  using f64_mono [of 0 x] f64_mono [of x 0] by force+

lemma qr_corners:
  assumes "qr_accepted q"
  shows "dX (fst (qr_ordered q)) < dX (snd (qr_ordered q)) \<and> dY (fst (qr_ordered q)) < dY (snd (qr_ordered q))"
proof -
  define dx dy where "dx = f64 (dX (snd q) - dX (fst q))" and "dy = f64 (dY (snd q) - dY (fst q))"
  have "(0 :: rat) < f64 (f64 (1 / 100) * f64 (1 / 100))" by code_simp
  then have "0 < f64 (dx * dy)" using assms by (simp add: qr_accepted_def dx_def dy_def)
  then have "0 < dx * dy" by (rule f64_sign)
  then consider "0 < dx" "0 < dy" | "dx < 0" "dy < 0" by (auto simp: zero_less_mult_iff)
  then show ?thesis
  proof cases
    case 1
    then show ?thesis using f64_sign(2) unfolding dx_def dy_def qr_ordered_def by fastforce
  next
    case 2
    then show ?thesis using f64_sign(1) unfolding dx_def dy_def qr_ordered_def by fastforce
  qed
qed

subsection \<open>Properties\<close>

text \<open>C37: scaling a picture reads no pixel outside of the source and writes none outside of the destination; the pixel in
  line \<open>y\<close> and column \<open>x\<close> is that of the source at the same fraction of height and width, at most one line below and one
  column to the right of it.\<close>

theorem zoom_nearest:
  assumes "zoom_ok (s32Width src) (s32Width dst)" "zoom_ok (s32Height src) (s32Height dst)"
    and "int (length (pbmp src)) = s32Width src * s32Height src" "int (length (pbmp dst)) = s32Width dst * s32Height dst"
  shows "\<exists>out. pd_Gui_Zoom (Some dst) (Some src) = Some (Some out, SV_SUCCESS) \<and> length (pbmp out) = length (pbmp dst) \<and>
    (\<forall>y x. int y < s32Height dst \<longrightarrow> int x < s32Width dst \<longrightarrow>
      (\<exists>y' x'. y' \<in> {int y * s32Height src div s32Height dst .. int y * s32Height src div s32Height dst + 1} \<and> y' < s32Height src \<and>
        x' \<in> {int x * s32Width src div s32Width dst .. int x * s32Width src div s32Width dst + 1} \<and> x' < s32Width src \<and>
        pbmp out ! (nat (s32Width dst) * y + x) = pbmp src ! nat (s32Width src * y' + x')))"
proof -
  let ?sw = "s32Width src" and ?dw = "s32Width dst" and ?sh = "s32Height src" and ?dh = "s32Height dst"
  let ?row = "\<lambda>y. map (\<lambda>x. pbmp src ! nat (?sw * zoom_index ?sh ?dh y + zoom_index ?sw ?dw x)) [0..<nat ?dw]"
  let ?ps = "concat (map ?row [0..<nat ?dh])"
  have u: "u32 ?dw = ?dw" "u32 ?dh = ?dh" using assms by (simp_all add: zoom_ok_def u32_id)
  have px: "pixel (pbmp src) i = Some (pbmp src ! nat i)" if "0 \<le> i" "i < ?sw * ?sh" for i
    using that assms(3) by (simp add: pixel_def)
  have zl: "zoom_lines (pixel (pbmp src)) ?sw (nat ?dw) (?sw * 65536 div ?dw + 1) (?sh * 65536 div ?dh + 1) 0 (nat ?dh) = Some ?ps"
    using zoom_lines_run [OF assms(1,2) px, where k = 0 and m = "nat ?dh"] assms(2) by (simp add: zoom_ok_def)
  have "length (pbmp dst) = nat (?dw * ?dh)" using assms(4) by simp
  then have len: "length ?ps = length (pbmp dst)"
    using assms(1) by (simp add: length_concat o_def sum_list_triv zoom_ok_def nat_mult_distrib)
  let ?out = "dst\<lparr>pbmp := ?ps\<rparr>"
  have out: "pd_Gui_Zoom (Some dst) (Some src) = Some (Some ?out, SV_SUCCESS)"
    using assms u len zl by (simp add: pd_Gui_Zoom_def zoom_ratio_ok zoom_ok_def)
  have "pbmp ?out ! (nat ?dw * y + x) = pbmp src ! nat (?sw * zoom_index ?sh ?dh y + zoom_index ?sw ?dw x)"
    if "int y < ?dh" "int x < ?dw" for y x
  proof -
    have "y < length [0..<nat ?dh]" "x < nat ?dw" using that by auto
    then show ?thesis using nth_concat_blocks [of y "[0..<nat ?dh]" x "nat ?dw" ?row] by simp
  qed
  then show ?thesis
    using out len zoom_index_near [OF assms(2)] zoom_index_near [OF assms(1)] assms(1,2)
    by (intro exI [of _ ?out]) (fastforce simp: zoom_ok_def)
qed

theorem zoom_nearest_witness:
  "\<exists>out. pd_Gui_Zoom (Some \<lparr>pbmp = [0, 0], s32Width = 2, s32Height = 1\<rparr>)
     (Some \<lparr>pbmp = [1, 2, 3, 4 :: nat, 5, 6, 7, 8], s32Width = 4, s32Height = 2\<rparr>) = Some (Some out, SV_SUCCESS) \<and>
     length (pbmp out) = 2"
  using zoom_nearest [of "\<lparr>pbmp = [1, 2, 3, 4 :: nat, 5, 6, 7, 8], s32Width = 4, s32Height = 2\<rparr>"
      "\<lparr>pbmp = [0, 0], s32Width = 2, s32Height = 1\<rparr>"]
  by (force simp: zoom_ok_def)

end
