(* ===== verification/Adas.thy ===== *)
theory Adas
  imports Anti_Shake Gui_Zoom
begin

section \<open>Detection ahead of the car (adas/adas.cpp)\<close>

text \<open>
  One thread detects persons and cars and, when enabled, the lane: the picture is scaled for the lane library, the lane lines
  are drawn, then the boxes.  The libraries are arguments: what they return for the frame.  The locals of the thread that
  live on from round to round (the boxes to draw, their number) are part of the state.
\<close>

subsection \<open>State and filter\<close>

datatype ALG_CH1 = ALG_ADAS | ALG_CH1_OTHER

record adas_conf =
  enAlgType1 :: ALG_CH1
  bLdwEnable :: bool

record STLaneInfo =
  u64x :: int
  u64y :: int
  u64state :: int

datatype adas_colour = LIGHT_GREEN | RED_LINE

record lane_line =
  ln_from :: "rat \<times> rat"
  ln_to :: "rat \<times> rat"
  ln_colour :: adas_colour

datatype adas_out = Draw_Lanes "lane_line list" | Draw_Boxes "STAlgResult list"

text \<open>\<open>pcsLaneAlg\<close>: the lane library was created; \<open>astPersonsRect\<close>, \<open>u32PersonNum\<close>: the boxes in \<open>stGuiRect\<close> and how many
  of them are drawn.\<close>

record ADAS_INFO_S =
  adas_running :: bool
  pcsLaneAlg :: bool
  adas_cfg :: adas_conf
  stOldResult :: "STAlgResult list"
  astPersonsRect :: "STAlgResult list"
  u32PersonNum :: nat
  adas_lock :: bool
  crashed :: bool
  adas_sent :: "adas_out list"

definition ADAS_IMAGE_WIDTH :: int where "ADAS_IMAGE_WIDTH = 608"
definition ADAS_IMAGE_HEIGHT :: int where "ADAS_IMAGE_HEIGHT = 352"

definition adas_RectAntiShakeFilter :: "rat \<Rightarrow> rat \<Rightarrow> STAlgResult list \<Rightarrow> STAlgResult list \<Rightarrow> STAlgResult list \<times> STAlgResult list" where
  "adas_RectAntiShakeFilter fThresholdX fThresholdY new old =
     (let new = shake_all (shake_match ADAS_IMAGE_WIDTH ADAS_IMAGE_HEIGHT fThresholdX fThresholdY) new old in (new, new))"

interpretation adas_steady: steady_filter "adas_RectAntiShakeFilter a b" "\<lambda>old. old" "\<lambda>_. True"
    "shake_match ADAS_IMAGE_WIDTH ADAS_IMAGE_HEIGHT a b" coords
  for a b
proof unfold_locales
  fix s ns out s'
  assume "adas_RectAntiShakeFilter a b ns s = (out, s')"
  then show "True \<and> s' = out" by (auto simp: adas_RectAntiShakeFilter_def Let_def)
next
  fix s ns out s'
  assume "length ns = length s" "\<forall>i<length ns. shake_match ADAS_IMAGE_WIDTH ADAS_IMAGE_HEIGHT a b (ns ! i) (s ! i)"
    "adas_RectAntiShakeFilter a b ns s = (out, s')"
  then show "map coords out = map coords s" using shake_all_frozen [of ns s] by (auto simp: adas_RectAntiShakeFilter_def Let_def)
qed (rule shake_match_coords)

subsection \<open>A round\<close>

text \<open>The size of the lane picture (\<open>SV_WIDTH\<close>, \<open>SV_HEIGHT\<close>, from a platform header).\<close>

record adas_tick =
  at_lock :: bool
  at_sem :: bool
  at_forward :: bool
  at_boxes :: "STAlgResult list"
  at_lanes :: "STLaneInfo list \<times> STLaneInfo list"

definition lane_point :: "int \<Rightarrow> int \<Rightarrow> STLaneInfo \<Rightarrow> rat \<times> rat" where
  "lane_point w h l = (f32 (f32 (of_int (u64x l)) / f32 (of_int w)), f32 (f32 (of_int (u64y l)) / f32 (of_int h)))"

fun lane_lines :: "int \<Rightarrow> int \<Rightarrow> (STLaneInfo \<Rightarrow> adas_colour) \<Rightarrow> STLaneInfo list \<Rightarrow> lane_line list" where
  "lane_lines w h col (a # b # ls) =
     \<lparr>ln_from = lane_point w h a, ln_to = lane_point w h b, ln_colour = col a\<rparr> # lane_lines w h col (b # ls)"
| "lane_lines w h col _ = []"

text \<open>The boxes are written over those of the rounds before, from the front.\<close>

definition put_boxes :: "STAlgResult list \<Rightarrow> STAlgResult list \<Rightarrow> STAlgResult list" where
  "put_boxes new old = take 20 new @ drop (length (take 20 new)) old"

definition adas_alg_Body :: "int \<Rightarrow> int \<Rightarrow> adas_tick \<Rightarrow> ADAS_INFO_S \<Rightarrow> ADAS_INFO_S" where
  "adas_alg_Body SV_WIDTH SV_HEIGHT t s =
     (if crashed s \<or> \<not> adas_running s \<or> enAlgType1 (adas_cfg s) \<noteq> ALG_ADAS then s
      else if \<not> at_lock t \<or> \<not> at_sem t \<or> \<not> at_forward t then s
      else if bLdwEnable (adas_cfg s) \<and> \<not> pcsLaneAlg s then s\<lparr>crashed := True, adas_lock := True\<rparr>
      else
        let (l1, l2) = (if bLdwEnable (adas_cfg s) then at_lanes t else ([], []));
            (boxes, old) = adas_RectAntiShakeFilter (f32 (f64 (1 / 10))) (f32 (f64 (2 / 10))) (at_boxes t) (stOldResult s);
            lines = lane_lines SV_WIDTH SV_HEIGHT (\<lambda>_. LIGHT_GREEN) l1 @
              lane_lines SV_WIDTH SV_HEIGHT (\<lambda>l. if u64state l = 0 then LIGHT_GREEN else RED_LINE) l2;
            rects = put_boxes boxes (astPersonsRect s)
        in s\<lparr>stOldResult := old, astPersonsRect := rects, u32PersonNum := length (take 20 boxes),
             adas_sent := adas_sent s @ [Draw_Lanes lines, Draw_Boxes (take (u32PersonNum s) rects)]\<rparr>)"

definition blank_box :: STAlgResult where
  "blank_box = \<lparr>classes = E_CLS_PERSON, fX1 = 0, fY1 = 0, fX2 = 0, fY2 = 0, fConfidence = 0\<rparr>"

text \<open>\<open>mutex\<close>, \<open>ms\<close>, \<open>alg\<close>: the mutex, the semaphores and the detection library can be set up; the argument is the file of the
  pictures and the configuration.\<close>

definition ADAS_Init :: "bool \<Rightarrow> bool \<Rightarrow> bool \<Rightarrow> (int \<times> adas_conf) option \<Rightarrow> ADAS_INFO_S + sv_ret" where
  "ADAS_Init mutex ms alg pstInitParam =
     (case pstInitParam of None \<Rightarrow> Inr ERR_NULL_PTR
      | Some (s32MediaBufFd, c) \<Rightarrow>
          if s32MediaBufFd < 0 then Inr ERR_ILLEGAL_PARAM
          else if \<not> mutex \<or> \<not> ms then Inr ERR_SYS_NOTREADY
          else if \<not> alg then Inr SV_FAILURE
          else Inl \<lparr>adas_running = False, pcsLaneAlg = bLdwEnable c, adas_cfg = c, stOldResult = [],
            astPersonsRect = replicate 20 blank_box, u32PersonNum = 0, adas_lock = False, crashed = False, adas_sent = []\<rparr>)"

definition ADAS_Start :: "ADAS_INFO_S \<Rightarrow> ADAS_INFO_S" where
  "ADAS_Start s = s\<lparr>adas_running := True\<rparr>"

definition ADAS_Stop :: "ADAS_INFO_S \<Rightarrow> ADAS_INFO_S" where
  "ADAS_Stop s = s\<lparr>adas_running := False\<rparr>"

definition ADAS_ConfigSet :: "adas_conf option \<Rightarrow> ADAS_INFO_S \<Rightarrow> ADAS_INFO_S \<times> sv_ret" where
  "ADAS_ConfigSet pstCfgParam s = (case pstCfgParam of None \<Rightarrow> (s, ERR_NULL_PTR) | Some c \<Rightarrow> (s\<lparr>adas_cfg := c\<rparr>, SV_SUCCESS))"

definition adas_frames :: "int \<Rightarrow> int \<Rightarrow> adas_tick list \<Rightarrow> ADAS_INFO_S \<Rightarrow> ADAS_INFO_S" where
  "adas_frames w h ts s = fold (adas_alg_Body w h) ts s"

subsection \<open>Properties\<close>

text \<open> the number of boxes drawn is that of the frame before: after a frame with \<open>n\<close> boxes (at most 20), a frame with fewer
  is drawn with boxes of earlier frames behind its own, and one with more loses those beyond \<open>n\<close>.\<close>

theorem boxes_of_frame_before:
  assumes "\<not> crashed s" "adas_running s" "adas_cfg s = \<lparr>enAlgType1 = ALG_ADAS, bLdwEnable = False\<rparr>" "length (astPersonsRect s) = 20"
    and "at_lock t1" "at_sem t1" "at_forward t1" "at_lock t2" "at_sem t2" "at_forward t2"
  shows "\<exists>l b1 b2 old shown. map classes b2 = map classes (at_boxes t2) \<and> map classes b1 = map classes (at_boxes t1) \<and>
    adas_sent (adas_frames w h [t1, t2] s) = adas_sent (adas_frames w h [t1] s) @ [Draw_Lanes l, Draw_Boxes shown] \<and>
    shown = take (length (take 20 (at_boxes t1))) (take 20 b2 @ drop (length (take 20 b2)) (take 20 b1 @ old)) \<and>
    length shown = length (take 20 (at_boxes t1))"
proof -
  let ?f = "adas_RectAntiShakeFilter (f32 (f64 (1 / 10))) (f32 (f64 (2 / 10)))"
  obtain b1 o1 where f1: "?f (at_boxes t1) (stOldResult s) = (b1, o1)" by fastforce
  then have o1: "o1 = b1" "map classes b1 = map classes (at_boxes t1)" by (auto simp: adas_RectAntiShakeFilter_def Let_def)
  obtain b2 o2 where f2: "?f (at_boxes t2) b1 = (b2, o2)" by fastforce
  then have o2: "map classes b2 = map classes (at_boxes t2)" by (auto simp: adas_RectAntiShakeFilter_def Let_def)
  have len: "length b1 = length (at_boxes t1)" using o1(2) by (metis length_map)
  let ?s1 = "adas_alg_Body w h t1 s"
  have s1: "\<not> crashed ?s1" "adas_running ?s1" "adas_cfg ?s1 = adas_cfg s" "stOldResult ?s1 = b1"
    "astPersonsRect ?s1 = take 20 b1 @ drop (length (take 20 b1)) (astPersonsRect s)" "u32PersonNum ?s1 = length (take 20 b1)"
    using assms f1 o1 by (simp_all add: adas_alg_Body_def put_boxes_def)
  define old where "old = drop (length (take 20 b1)) (astPersonsRect s)"
  define shown where "shown = take (length (take 20 (at_boxes t1))) (take 20 b2 @ drop (length (take 20 b2)) (take 20 b1 @ old))"
  have "adas_sent (adas_alg_Body w h t2 ?s1) = adas_sent ?s1 @ [Draw_Lanes [], Draw_Boxes shown]"
    using s1 assms f2 len by (simp add: adas_alg_Body_def put_boxes_def shown_def old_def)
  then have sent: "adas_sent (adas_frames w h [t1, t2] s) = adas_sent (adas_frames w h [t1] s) @ [Draw_Lanes [], Draw_Boxes shown]"
    by (simp add: adas_frames_def)
  have "length (take 20 b1 @ old) = 20" using assms(4) by (simp add: old_def)
  then have "length (take 20 b2 @ drop (length (take 20 b2)) (take 20 b1 @ old)) = 20" by (simp only: length_append length_drop) simp
  then have "length shown = length (take 20 (at_boxes t1))" unfolding shown_def length_take [of "length _"] by simp
  then show ?thesis using o1(2) o2 sent shown_def by (intro exI conjI)
qed

definition no_lane :: "ADAS_INFO_S \<Rightarrow> bool" where
  "no_lane s \<longleftrightarrow> \<not> crashed s \<and> adas_running s \<and> \<not> pcsLaneAlg s \<and> \<not> bLdwEnable (adas_cfg s)"

lemma no_lane_frames: "no_lane s \<Longrightarrow> no_lane (adas_frames w h ts s)"
proof (induction ts arbitrary: s)
  case (Cons t ts)
  then have "no_lane (adas_alg_Body w h t s)" by (auto simp: no_lane_def adas_alg_Body_def Let_def split: prod.splits)
  then show ?case using Cons.IH by (simp add: adas_frames_def)
qed (simp add: adas_frames_def)

text \<open> switching the lane warning on while the program runs crashes it at the next frame, with the lock of the computing
  resource held, when it was off at the start, however many frames went well before.\<close>

theorem late_lane_warning_crashes:
  assumes "ADAS_Init mutex ms alg (Some (fd, c)) = Inl s0" "\<not> bLdwEnable c"
    and "bLdwEnable c'" "enAlgType1 c' = ALG_ADAS" "at_lock t" "at_sem t" "at_forward t"
  shows "\<not> crashed (adas_frames w h ts (ADAS_Start s0)) \<and>
    (let (s', r) = ADAS_ConfigSet (Some c') (adas_frames w h ts (ADAS_Start s0))
     in r = SV_SUCCESS \<and> crashed (adas_alg_Body w h t s') \<and> adas_lock (adas_alg_Body w h t s'))"
proof -
  have "\<not> crashed s0 \<and> \<not> pcsLaneAlg s0 \<and> \<not> bLdwEnable (adas_cfg s0)"
    using assms(1,2) by (auto simp: ADAS_Init_def split: if_splits)
  then have "no_lane (adas_frames w h ts (ADAS_Start s0))" by (intro no_lane_frames) (simp add: no_lane_def ADAS_Start_def)
  then show ?thesis using assms(3-) by (simp add: no_lane_def ADAS_ConfigSet_def adas_alg_Body_def)
qed

definition sample_adas_tick :: "STAlgResult list \<Rightarrow> adas_tick" where
  "sample_adas_tick bs = \<lparr>at_lock = True, at_sem = True, at_forward = True, at_boxes = bs, at_lanes = ([], [])\<rparr>"

definition sample_adas :: ADAS_INFO_S where
  "sample_adas = \<lparr>adas_running = False, pcsLaneAlg = False, adas_cfg = \<lparr>enAlgType1 = ALG_ADAS, bLdwEnable = False\<rparr>, stOldResult = [],
     astPersonsRect = replicate 20 blank_box, u32PersonNum = 0, adas_lock = False, crashed = False, adas_sent = []\<rparr>"

theorem boxes_of_frame_before_witness:
  "let s = ADAS_Start sample_adas;
       t1 = sample_adas_tick [blank_box, blank_box]; t2 = sample_adas_tick [blank_box]
   in \<exists>l b1 b2 old shown. map classes b2 = map classes (at_boxes t2) \<and> map classes b1 = map classes (at_boxes t1) \<and>
    adas_sent (adas_frames 1640 590 [t1, t2] s) = adas_sent (adas_frames 1640 590 [t1] s) @ [Draw_Lanes l, Draw_Boxes shown] \<and>
    shown = take (length (take 20 (at_boxes t1))) (take 20 b2 @ drop (length (take 20 b2)) (take 20 b1 @ old)) \<and>
    length shown = length (take 20 (at_boxes t1))"
  unfolding Let_def by (rule boxes_of_frame_before) (simp_all add: ADAS_Start_def sample_adas_def sample_adas_tick_def)

theorem late_lane_warning_crashes_witness:
  "let (s', r) = ADAS_ConfigSet (Some \<lparr>enAlgType1 = ALG_ADAS, bLdwEnable = True\<rparr>)
         (adas_frames 1640 590 [sample_adas_tick [blank_box]] (ADAS_Start sample_adas))
   in r = SV_SUCCESS \<and> crashed (adas_alg_Body 1640 590 (sample_adas_tick []) s') \<and> adas_lock (adas_alg_Body 1640 590 (sample_adas_tick []) s')"
proof -
  have "ADAS_Init True True True (Some (7, \<lparr>enAlgType1 = ALG_ADAS, bLdwEnable = False\<rparr>)) = Inl sample_adas"
    by (simp add: ADAS_Init_def sample_adas_def)
  from late_lane_warning_crashes [OF this, of "\<lparr>enAlgType1 = ALG_ADAS, bLdwEnable = True\<rparr>" "sample_adas_tick []"]
  show ?thesis by (simp add: sample_adas_tick_def)
qed

end
