(* ===== verification/Upgrade.thy ===== *)
theory Upgrade
  imports Ring_Queue Crc
begin

section \<open>Receiving and installing an upgrade (upgrade/upgrade.cpp)\<close>

text \<open>
  The display board sends a file as frames of the video link.  Four threads share globals without a lock: the receiver copies each
  frame into one of twelve slots and puts the index of the slot into the ring queue (theory \<open>Ring_Queue\<close>), the saver takes the
  indices and appends the frames to the file, the detector closes the file when no frame has come for 15 of its rounds, and
  the main loop unpacks the closed file and runs the upgrade script.  A step is the part of a thread between two accesses to
  shared data; the steps of the threads interleave in any order.  The video driver, \<open>tar\<close> and the script answer through the
  events.
\<close>

subsection \<open>State\<close>

definition UVC_CAM_WIDTH :: nat where "UVC_CAM_WIDTH = 102448"
definition UVC_CAM_HEIGHT :: nat where "UVC_CAM_HEIGHT = 1"
definition UPG_RINGBUF_VDEC_COUNT :: nat where "UPG_RINGBUF_VDEC_COUNT = 12"
definition UPG_RINGBUF_VDEC_SIZE :: nat where "UPG_RINGBUF_VDEC_SIZE = UVC_CAM_WIDTH * UVC_CAM_HEIGHT"

lemmas upg_consts = UVC_CAM_WIDTH_def UVC_CAM_HEIGHT_def UPG_RINGBUF_VDEC_COUNT_def UPG_RINGBUF_VDEC_SIZE_def

datatype upgrade_status_e = upgrade_status_init | upgrade_status_transfer | upgrade_status_filecompleted
  | upgrade_status_unzip | upgrade_status_update | upgrade_status_end

text \<open>Where the threads are: the receiver with a filled slot that is not yet in the queue, the saver with an index it has not yet
  written, the detector with the value it has read.\<close>

datatype recv_place = Recv_Poll | Recv_Filled nat | Recv_Gone
datatype save_place = Save_Start | Save_Read | Save_Got int
datatype detect_place = Det_Sleep | Det_Got int | Det_Gone
datatype main_place = Main_Wait | Main_Upgrade | Main_Gone

text \<open>\<open>up_crashed\<close>: an access outside of the slots or to the closed file.  \<open>unpacked\<close>: the file at each run of \<open>tar\<close>;
  \<open>scripts\<close>: the runs of the script.\<close>

record upgrade =
  MptrData :: "byte list list"
  ringque_VDEC :: "int ringque"
  up_counter :: nat
  file_data_cnt :: nat
  rest_file_size :: int
  file_count :: int
  upg_status :: upgrade_status_e
  recv_at :: recv_place
  save_at :: save_place
  detect_at :: detect_place
  main_at :: main_place
  testfile :: "byte list"
  file_open :: bool
  up_crashed :: bool
  unpacked :: "byte list list"
  scripts :: nat

definition upgrade_init :: upgrade where
  "upgrade_init = \<lparr>MptrData = replicate UPG_RINGBUF_VDEC_COUNT (replicate UPG_RINGBUF_VDEC_SIZE 0),
     ringque_VDEC = TRWRingQueue (UPG_RINGBUF_VDEC_COUNT - 1), up_counter = 0, file_data_cnt = 0, rest_file_size = 0,
     file_count = 0, upg_status = upgrade_status_init, recv_at = Recv_Poll, save_at = Save_Start, detect_at = Det_Sleep,
     main_at = Main_Wait, testfile = [], file_open = True, up_crashed = False, unpacked = [], scripts = 0\<rparr>"

subsection \<open>The threads\<close>

text \<open>The size of the file, little-endian in bytes 14 to 21 of the first frame.\<close>

definition size_field :: "byte list \<Rightarrow> int" where
  "size_field f = (\<Sum>i\<leftarrow>[0..<8]. int (unat (f ! (i + 14))) * 2 ^ (i * 8))"

text \<open>\<open>mpp_vpss_GetAlgFrame\<close>: first the copy, the size and the mark that a frame came, then the queue.\<close>

definition mpp_vpss_GetAlgFrame :: "byte list \<Rightarrow> upgrade \<Rightarrow> upgrade" where
  "mpp_vpss_GetAlgFrame mptr s =
     (case recv_at s of
        Recv_Poll \<Rightarrow>
          let index = up_counter s mod UPG_RINGBUF_VDEC_COUNT; frame = take UPG_RINGBUF_VDEC_SIZE mptr
          in s\<lparr>MptrData := (MptrData s)[index := frame],
               rest_file_size := if file_data_cnt s = 0 then (rest_file_size s + size_field frame) mod 2 ^ 64 else rest_file_size s,
               file_data_cnt := file_data_cnt s + 1, file_count := 1, recv_at := Recv_Filled index\<rparr>
      | Recv_Filled index \<Rightarrow>
          s\<lparr>ringque_VDEC := rq_push (int index) (ringque_VDEC s), up_counter := up_counter s + 1, recv_at := Recv_Poll\<rparr>
      | Recv_Gone \<Rightarrow> s)"

text \<open>\<open>mpp_vpss_file_save\<close>; \<open>expired\<close>: the wait of 500 seconds is over.  The result of \<open>Read\<close> is used as an index unchecked.\<close>

definition write_frame :: "byte list \<Rightarrow> upgrade \<Rightarrow> upgrade" where
  "write_frame frame s =
     (if int (UPG_RINGBUF_VDEC_SIZE - 48) \<le> rest_file_size s
      then s\<lparr>testfile := testfile s @ take (UPG_RINGBUF_VDEC_SIZE - 48) (drop 48 frame),
             rest_file_size := rest_file_size s - int (UPG_RINGBUF_VDEC_SIZE - 48)\<rparr>
      else s\<lparr>testfile := testfile s @ take (nat (rest_file_size s)) (drop 48 frame)\<rparr>)"

definition mpp_vpss_file_save :: "bool \<Rightarrow> upgrade \<Rightarrow> upgrade" where
  "mpp_vpss_file_save expired s =
     (case save_at s of
        Save_Start \<Rightarrow> s\<lparr>upg_status := upgrade_status_transfer, save_at := Save_Read\<rparr>
      | Save_Read \<Rightarrow>
          (case rq_Read 0 500000 expired (\<lambda>current. (current, current)) (ringque_VDEC s) of
             Returned index q \<Rightarrow> s\<lparr>ringque_VDEC := q, save_at := Save_Got index\<rparr>
           | Waiting \<Rightarrow> s
           | Out_Of_Range \<Rightarrow> s\<lparr>up_crashed := True\<rparr>)
      | Save_Got index \<Rightarrow>
          if index < 0 \<or> int UPG_RINGBUF_VDEC_COUNT \<le> index \<or> \<not> file_open s then s\<lparr>up_crashed := True\<rparr>
          else (write_frame (MptrData s ! nat index) s)\<lparr>save_at := Save_Read\<rparr>)"

text \<open>\<open>mpp_vpss_file_detect\<close>: the counter is read, and written with one more; the value written is tested.\<close>

definition mpp_vpss_file_detect :: "upgrade \<Rightarrow> upgrade" where
  "mpp_vpss_file_detect s =
     (case detect_at s of
        Det_Sleep \<Rightarrow> if file_count s \<noteq> 0 then s\<lparr>detect_at := Det_Got (file_count s)\<rparr> else s
      | Det_Got v \<Rightarrow>
          if 15 < u8 (v + 1) then s\<lparr>file_count := u8 (v + 1), file_open := False, upg_status := upgrade_status_filecompleted,
            detect_at := Det_Gone\<rparr>
          else s\<lparr>file_count := u8 (v + 1), detect_at := Det_Sleep\<rparr>
      | Det_Gone \<Rightarrow> s)"

text \<open>The main loop starts \<open>test_upgrade\<close>, which unpacks the file; its end, with what \<open>tar\<close> and the script returned, is an event
  of its own.  On success the program kills itself.\<close>

definition main_loop :: "upgrade \<Rightarrow> upgrade" where
  "main_loop s =
     (if main_at s = Main_Wait \<and> upg_status s = upgrade_status_filecompleted
      then s\<lparr>upg_status := upgrade_status_update, main_at := Main_Upgrade, unpacked := unpacked s @ [testfile s]\<rparr> else s)"

definition test_upgrade :: "int \<Rightarrow> int \<Rightarrow> upgrade \<Rightarrow> upgrade" where
  "test_upgrade tar_ret script_ret s =
     (if main_at s \<noteq> Main_Upgrade then s
      else let s = s\<lparr>scripts := scripts s + 1\<rparr>
        in if script_ret \<noteq> 0 then s\<lparr>main_at := Main_Wait\<rparr>
           else s\<lparr>upg_status := upgrade_status_end, main_at := Main_Gone\<rparr>)"

datatype up_event = Receiver "byte list" | Receiver_Fails | Saver bool | Detector | Main_Loop | Upgrade_Done int int

definition upgrade_step :: "up_event \<Rightarrow> upgrade \<Rightarrow> upgrade" where
  "upgrade_step e s =
     (if up_crashed s \<or> main_at s = Main_Gone then s
      else case e of
          Receiver f \<Rightarrow> mpp_vpss_GetAlgFrame f s
        | Receiver_Fails \<Rightarrow> if recv_at s = Recv_Poll then s\<lparr>recv_at := Recv_Gone\<rparr> else s
        | Saver expired \<Rightarrow> mpp_vpss_file_save expired s
        | Detector \<Rightarrow> mpp_vpss_file_detect s
        | Main_Loop \<Rightarrow> main_loop s
        | Upgrade_Done tar_ret script_ret \<Rightarrow> test_upgrade tar_ret script_ret s)"

fun upgrade_run :: "up_event list \<Rightarrow> upgrade \<Rightarrow> upgrade" where
  "upgrade_run [] s = s"
| "upgrade_run (e # es) s = upgrade_run es (upgrade_step e s)"

named_theorems upg_step \<open>the steps of the threads\<close>

declare upgrade_step_def [upg_step] mpp_vpss_GetAlgFrame_def [upg_step] mpp_vpss_file_save_def [upg_step] write_frame_def [upg_step]
  mpp_vpss_file_detect_def [upg_step] main_loop_def [upg_step] test_upgrade_def [upg_step] Let_def [upg_step]

subsection \<open>What reaches the file\<close>

text \<open>The frames the receiver has copied along a run, the number of frames the saver is behind, and a run in which it never is
  more than ten behind when a frame is copied, nor waits 500 seconds for one.\<close>

fun received :: "up_event list \<Rightarrow> upgrade \<Rightarrow> byte list list" where
  "received [] s = []"
| "received (e # es) s =
     (case e of Receiver f \<Rightarrow> if recv_at s = Recv_Poll \<and> \<not> up_crashed s \<and> main_at s \<noteq> Main_Gone then [f] else [] | _ \<Rightarrow> []) @
     received es (upgrade_step e s)"

definition backlog :: "upgrade \<Rightarrow> nat" where
  "backlog s = length (pending 0 (ringque_VDEC s)) + (case save_at s of Save_Got _ \<Rightarrow> 1 | _ \<Rightarrow> 0)"

fun in_time :: "up_event list \<Rightarrow> upgrade \<Rightarrow> bool" where
  "in_time [] s = True"
| "in_time (e # es) s =
     ((case e of Receiver _ \<Rightarrow> recv_at s = Recv_Poll \<longrightarrow> backlog s \<le> 10 | Saver expired \<Rightarrow> \<not> expired | _ \<Rightarrow> True) \<and>
      in_time es (upgrade_step e s))"

text \<open>The bytes the saver writes for a list of frames, and what is left of the size.\<close>

definition write_bytes :: "byte list \<Rightarrow> byte list \<times> int \<Rightarrow> byte list \<times> int" where
  "write_bytes f = (\<lambda>(b, r). if int (UPG_RINGBUF_VDEC_SIZE - 48) \<le> r
     then (b @ take (UPG_RINGBUF_VDEC_SIZE - 48) (drop 48 f), r - int (UPG_RINGBUF_VDEC_SIZE - 48))
     else (b @ take (nat r) (drop 48 f), r))"

definition announced :: "byte list list \<Rightarrow> int" where
  "announced fs = (case fs of [] \<Rightarrow> 0 | f # _ \<Rightarrow> size_field (take UPG_RINGBUF_VDEC_SIZE f) mod 2 ^ 64)"

definition written :: "byte list list \<Rightarrow> nat \<Rightarrow> byte list \<times> int" where
  "written got w = fold write_bytes (map (take UPG_RINGBUF_VDEC_SIZE) (take w got)) ([], announced got)"

lemma write_frame_bytes:
  "(testfile (write_frame f s), rest_file_size (write_frame f s)) = write_bytes f (testfile s, rest_file_size s)"
  by (simp add: write_frame_def write_bytes_def)

lemma write_frame_other [simp]:
  "MptrData (write_frame f s) = MptrData s" "ringque_VDEC (write_frame f s) = ringque_VDEC s"
  "up_counter (write_frame f s) = up_counter s" "file_data_cnt (write_frame f s) = file_data_cnt s"
  "recv_at (write_frame f s) = recv_at s" "up_crashed (write_frame f s) = up_crashed s"
  "main_at (write_frame f s) = main_at s" "file_open (write_frame f s) = file_open s"
  "detect_at (write_frame f s) = detect_at s" "unpacked (write_frame f s) = unpacked s" "file_count (write_frame f s) = file_count s"
  "upg_status (write_frame f s) = upg_status s" "scripts (write_frame f s) = scripts s" "save_at (write_frame f s) = save_at s"
  by (simp_all add: write_frame_def)

lemma announced_snoc: "got \<noteq> [] \<Longrightarrow> announced (got @ [f]) = announced got"
  by (cases got) (simp_all add: announced_def)

lemma written_snoc: "w \<le> length got \<Longrightarrow> got \<noteq> [] \<Longrightarrow> written (got @ [f]) w = written got w"
  by (simp add: written_def announced_snoc)

lemma written_Suc:
  "w < length got \<Longrightarrow> written got (Suc w) = write_bytes (take UPG_RINGBUF_VDEC_SIZE (got ! w)) (written got w)"
  by (simp add: written_def take_Suc_conv_app_nth)

text \<open>The invariant: \<open>got\<close> was copied, \<open>w\<close> of it is in the file, the rest is in its slots.\<close>

definition taken :: "upgrade \<Rightarrow> nat \<Rightarrow> nat" where
  "taken s w = (case save_at s of Save_Got _ \<Rightarrow> Suc w | _ \<Rightarrow> w)"

definition up_inv :: "byte list list \<Rightarrow> nat \<Rightarrow> upgrade \<Rightarrow> bool" where
  "up_inv got w s \<longleftrightarrow> \<not> up_crashed s \<and> rq_ok (ringque_VDEC s) \<and> count (ringque_VDEC s) = 11 \<and> length (MptrData s) = 12 \<and>
     pending 0 (ringque_VDEC s) = map (\<lambda>j. int (j mod 12)) [taken s w..<up_counter s] \<and> taken s w \<le> up_counter s \<and>
     length got = (case recv_at s of Recv_Filled _ \<Rightarrow> Suc (up_counter s) | _ \<Rightarrow> up_counter s) \<and>
     (\<forall>i. recv_at s = Recv_Filled i \<longrightarrow> i = up_counter s mod 12) \<and> file_data_cnt s = length got \<and>
     (\<forall>i. save_at s = Save_Got i \<longrightarrow> i = int (w mod 12)) \<and>
     (\<forall>j<length got. w \<le> j \<longrightarrow> MptrData s ! (j mod 12) = take UPG_RINGBUF_VDEC_SIZE (got ! j)) \<and>
     length got \<le> w + 11 \<and> (testfile s, rest_file_size s) = written got w"

lemma up_inv_backlog: "up_inv got w s \<Longrightarrow> backlog s = up_counter s - w"
  by (auto simp: up_inv_def backlog_def taken_def split: save_place.splits)

lemma up_inv_init: "up_inv [] 0 upgrade_init"
proof -
  have "rq_ok (TRWRingQueue 11 :: int ringque)" by (rule rq_ok_new) simp_all
  then show ?thesis by (simp add: up_inv_def upgrade_init_def upg_consts taken_def written_def announced_def)
qed

lemma up_inv_copy:
  assumes inv: "up_inv got w s" and at: "recv_at s = Recv_Poll" and room: "backlog s \<le> 10"
  shows "up_inv (got @ [f]) w (mpp_vpss_GetAlgFrame f s)"
proof -
  let ?s = "mpp_vpss_GetAlgFrame f s" and ?n = "up_counter s"
  note I = inv [unfolded up_inv_def]
  have n: "length got = ?n" "w \<le> ?n" "?n \<le> w + 10" using I at room up_inv_backlog [OF inv]
    by (auto simp: taken_def split: save_place.splits)
  have "MptrData ?s ! (j mod 12) = take UPG_RINGBUF_VDEC_SIZE ((got @ [f]) ! j)" if "j < Suc ?n" "w \<le> j" for j
  proof (cases "j = ?n")
    case True
    then show ?thesis using I at n by (simp add: mpp_vpss_GetAlgFrame_def upg_consts Let_def nth_append)
  next
    case False
    have "j mod 12 \<noteq> ?n mod 12"
    proof
      assume "j mod 12 = ?n mod 12"
      then have "12 dvd ?n - j" using that False by (metis less_imp_le mod_eq_dvd_iff_nat less_antisym)
      then show False using dvd_imp_le [of 12 "?n - j"] that False n by linarith
    qed
    then show ?thesis using I at that False n by (simp add: mpp_vpss_GetAlgFrame_def upg_consts Let_def nth_append)
  qed
  moreover have "(testfile ?s, rest_file_size ?s) = written (got @ [f]) w"
  proof (cases got)
    case Nil
    then show ?thesis using I at n by (simp add: mpp_vpss_GetAlgFrame_def Let_def written_def announced_def)
  next
    case (Cons g gs)
    then have "written (got @ [f]) w = written got w" using n by (intro written_snoc) auto
    then show ?thesis using I at n Cons by (simp add: mpp_vpss_GetAlgFrame_def Let_def)
  qed
  ultimately show ?thesis
    using I at n by (auto simp: up_inv_def mpp_vpss_GetAlgFrame_def upg_consts Let_def taken_def)
qed

lemma up_inv_post:
  assumes inv: "up_inv got w s" and at: "recv_at s = Recv_Filled i"
  shows "up_inv got w (mpp_vpss_GetAlgFrame f s)"
proof -
  let ?n = "up_counter s" and ?q = "ringque_VDEC s"
  note I = inv [unfolded up_inv_def]
  have "length (pending 0 ?q) \<noteq> count ?q"
    using I at by (auto simp: taken_def split: save_place.splits)
  then have "pending 0 (rq_push (int i) ?q) = pending 0 ?q @ [int i]" using I by (simp add: rq_push_pending)
  then show ?thesis
    using I at by (auto simp: up_inv_def mpp_vpss_GetAlgFrame_def rq_push_ok rq_push_count taken_def)
qed

lemma up_inv_Saver:
  assumes inv: "up_inv got w s" and op: "file_open s"
  shows "\<exists>w'. up_inv got w' (mpp_vpss_file_save False s)"
proof (cases "save_at s")
  case Save_Start
  then show ?thesis using inv by (intro exI [of _ w]) (auto simp: up_inv_def mpp_vpss_file_save_def taken_def split: recv_place.splits)
next
  case Save_Read
  note I = inv [unfolded up_inv_def]
  let ?q = "ringque_VDEC s"
  show ?thesis
  proof (cases "pending 0 ?q = []")
    case True
    then have "mpp_vpss_file_save False s = s"
      using I Save_Read by (simp add: mpp_vpss_file_save_def read_empty)
    then show ?thesis using inv by auto
  next
    case False
    then have lt: "w < up_counter s" using I Save_Read by (auto simp: taken_def)
    from False obtain v q' where r: "rq_Read 0 500000 False (\<lambda>current. (current, current)) ?q = Returned v q'"
      using read_nonempty [of ?q 0 500000 False "\<lambda>current. (current, current)"] I by metis
    have "rq_ok q'" using rq_ok_Read r I by blast
    moreover have "pending 0 ?q = v # pending 0 q'" "count q' = count ?q"
      using pending_Read [OF _ r False] I by (auto simp: keeps_def)
    ultimately show ?thesis
      using I Save_Read r lt upt_conv_Cons [OF lt]
      by (intro exI [of _ w]) (auto simp: up_inv_def mpp_vpss_file_save_def taken_def split: recv_place.splits)
  qed
next
  case (Save_Got i)
  note I = inv [unfolded up_inv_def]
  have i: "i = int (w mod 12)" and lt: "w < length got" using I Save_Got by (auto simp: taken_def split: recv_place.splits)
  let ?f = "MptrData s ! nat i"
  have "?f = take UPG_RINGBUF_VDEC_SIZE (got ! w)" using I i lt by simp
  then have "(testfile (write_frame ?f s), rest_file_size (write_frame ?f s)) = written got (Suc w)"
    using I lt by (simp only: write_frame_bytes written_Suc)
  moreover have "mpp_vpss_file_save False s = (write_frame ?f s)\<lparr>save_at := Save_Read\<rparr>"
    using Save_Got op i by (simp add: mpp_vpss_file_save_def upg_consts)
  ultimately show ?thesis
    using I Save_Got lt by (intro exI [of _ "Suc w"]) (auto simp: up_inv_def taken_def split: recv_place.splits)
qed

lemma up_inv_other:
  assumes "up_inv got w s" "testfile t = testfile s" "rest_file_size t = rest_file_size s" "MptrData t = MptrData s"
    "ringque_VDEC t = ringque_VDEC s" "up_counter t = up_counter s" "file_data_cnt t = file_data_cnt s" "up_crashed t = up_crashed s"
    "save_at t = save_at s" "recv_at t = recv_at s \<or> recv_at s = Recv_Poll \<and> recv_at t = Recv_Gone"
  shows "up_inv got w t"
  using assms unfolding up_inv_def taken_def by (auto split: recv_place.splits)

lemma Detector_other:
  "testfile (mpp_vpss_file_detect s) = testfile s" "rest_file_size (mpp_vpss_file_detect s) = rest_file_size s"
  "MptrData (mpp_vpss_file_detect s) = MptrData s" "ringque_VDEC (mpp_vpss_file_detect s) = ringque_VDEC s"
  "up_counter (mpp_vpss_file_detect s) = up_counter s" "file_data_cnt (mpp_vpss_file_detect s) = file_data_cnt s"
  "up_crashed (mpp_vpss_file_detect s) = up_crashed s" "save_at (mpp_vpss_file_detect s) = save_at s"
  "recv_at (mpp_vpss_file_detect s) = recv_at s"
  by (simp_all add: mpp_vpss_file_detect_def split: detect_place.splits)

lemma up_inv_step:
  assumes inv: "up_inv got w s" and t: "in_time [e] s" and op: "file_open s"
  shows "\<exists>w'. up_inv (got @ received [e] s) w' (upgrade_step e s)"
proof (cases "main_at s = Main_Gone")
  case True
  then show ?thesis using inv by (auto simp: upgrade_step_def split: up_event.splits)
next
  case False
  have run: "\<not> up_crashed s" using inv by (simp add: up_inv_def)
  show ?thesis
  proof (cases e)
    case (Receiver f)
    show ?thesis
    proof (cases "recv_at s")
      case Recv_Poll
      then show ?thesis using up_inv_copy [OF inv] t Receiver False run by (auto simp: upgrade_step_def)
    next
      case (Recv_Filled i)
      then show ?thesis using up_inv_post [OF inv] Receiver False run by (auto simp: upgrade_step_def)
    next
      case Recv_Gone
      then show ?thesis using inv Receiver False run by (auto simp: upgrade_step_def mpp_vpss_GetAlgFrame_def)
    qed
  next
    case (Saver expired)
    then show ?thesis using up_inv_Saver [OF inv op] t False run by (simp add: upgrade_step_def)
  next
    case Detector
    then have "up_inv got w (upgrade_step e s)"
      using False run by (intro up_inv_other [OF inv]) (simp_all add: upgrade_step_def Detector_other)
    then show ?thesis using Detector by auto
  next
    case Main_Loop
    then have "up_inv got w (upgrade_step e s)"
      using False run by (intro up_inv_other [OF inv]) (simp_all add: upgrade_step_def main_loop_def)
    then show ?thesis using Main_Loop by auto
  next
    case (Upgrade_Done a b)
    then have "up_inv got w (upgrade_step e s)"
      using False run by (intro up_inv_other [OF inv]) (simp_all add: upgrade_step_def test_upgrade_def Let_def)
    then show ?thesis using Upgrade_Done by auto
  next
    case Receiver_Fails
    then have "up_inv got w (upgrade_step e s)"
      using False run by (intro up_inv_other [OF inv]) (simp_all add: upgrade_step_def)
    then show ?thesis using Receiver_Fails by auto
  qed
qed

lemma closed_step: "\<not> file_open s \<Longrightarrow> \<not> file_open (upgrade_step e s)"
  by (cases e) (auto simp: upg_step split: recv_place.splits save_place.splits detect_place.splits outcome.splits)

lemma closed_run: "\<not> file_open s \<Longrightarrow> \<not> file_open (upgrade_run es s)"
  by (induction es arbitrary: s) (auto dest: closed_step)

lemma up_inv_run:
  "up_inv got w s \<Longrightarrow> in_time es s \<Longrightarrow> file_open (upgrade_run es s) \<Longrightarrow>
    \<exists>w'. up_inv (got @ received es s) w' (upgrade_run es s)"
proof (induction es arbitrary: got w s)
  case (Cons e es)
  have op: "file_open s" using Cons.prems(3) closed_run [of s "e # es"] by blast
  obtain w1 where "up_inv (got @ received [e] s) w1 (upgrade_step e s)"
    using up_inv_step [OF Cons.prems(1) _ op, of e] Cons.prems(2) by auto
  from Cons.IH [OF this] Cons.prems(2,3) show ?case by simp
qed auto

subsection \<open>Files as the sender cuts them\<close>

definition carries :: "byte list list \<Rightarrow> byte list \<Rightarrow> bool" where
  "carries fs F \<longleftrightarrow> fs \<noteq> [] \<and> list_all (\<lambda>f. length f = UPG_RINGBUF_VDEC_SIZE) fs \<and> size_field (hd fs) = int (length F) \<and>
     length F < 2 ^ 64 \<and> take (length F) (concat (map (drop 48) fs)) = F \<and>
     (length fs - 1) * (UPG_RINGBUF_VDEC_SIZE - 48) \<le> length F"

lemma carries_take: "carries fs F \<Longrightarrow> take (length F) (concat (map (drop 48) fs)) = F"
  by (simp only: carries_def)

lemma take_concat_blocks:
  "list_all (\<lambda>x. length x = p) xs \<Longrightarrow> k \<le> length xs \<Longrightarrow> take (k * p) (concat xs) = concat (take k xs)"
proof (induction xs arbitrary: k)
  case (Cons x xs)
  then show ?case by (cases k) simp_all
qed simp

lemma length_concat_blocks: "list_all (\<lambda>x. length x = p) xs \<Longrightarrow> length (concat xs) = length xs * p"
  by (induction xs) simp_all

lemma take_concat_rest:
  assumes "list_all (\<lambda>x. length x = p) xs" "k < length xs" "r \<le> p"
  shows "take (k * p + r) (concat xs) = concat (take k xs) @ take r (xs ! k)"
proof -
  have "concat xs = concat (take k xs) @ xs ! k @ concat (drop (Suc k) xs)"
    using assms(2) by (metis concat.simps(2) concat_append id_take_nth_drop)
  moreover have "length (concat (take k xs)) = k * p"
    using length_concat_blocks [of p "take k xs"] assms by (simp add: list_all_length)
  ultimately show ?thesis using assms by (simp add: list_all_length)
qed

lemma written_carries:
  assumes c: "carries fs F" and w: "w < length fs"
  shows "fold write_bytes (take w fs) ([], int (length F)) =
    (take (w * (UPG_RINGBUF_VDEC_SIZE - 48)) F, int (length F) - int (w * (UPG_RINGBUF_VDEC_SIZE - 48)))"
  using w
proof (induction w)
  case (Suc w)
  let ?P = "UPG_RINGBUF_VDEC_SIZE - 48" and ?xs = "map (drop 48) fs"
  have P: "list_all (\<lambda>x. length x = ?P) ?xs" using c by (simp add: carries_def list_all_length)
  have "Suc w * ?P \<le> (length fs - 1) * ?P" using Suc.prems by (intro mult_le_mono1) simp
  then have le: "Suc w * ?P \<le> length F" using c unfolding carries_def by linarith
  have F: "take (k * ?P) F = concat (take k ?xs)" if "k \<le> Suc w" for k
  proof -
    have "k * ?P \<le> length F" using le that mult_le_mono1 [OF that, of ?P] by linarith
    then have "take (k * ?P) (take (length F) (concat ?xs)) = take (k * ?P) (concat ?xs)" by (simp only: take_take min_absorb1)
    then have "take (k * ?P) F = take (k * ?P) (concat ?xs)" using carries_take [OF c] by (simp only:)
    then show ?thesis using take_concat_blocks [OF P] that Suc.prems by simp
  qed
  have len: "length (fs ! w) = UPG_RINGBUF_VDEC_SIZE" using c Suc.prems by (simp add: carries_def list_all_length)
  have "take (Suc w * ?P) F = take (w * ?P) F @ drop 48 (fs ! w)"
    using F [of w] F [of "Suc w"] Suc.prems by (simp add: take_Suc_conv_app_nth)
  moreover have "int ?P + int (w * ?P) \<le> int (length F)" using le unfolding of_nat_add [symmetric] of_nat_le_iff by simp
  moreover have "fold write_bytes (take (Suc w) fs) ([], int (length F)) =
      write_bytes (fs ! w) (take (w * ?P) F, int (length F) - int (w * ?P))"
    using Suc.IH Suc.prems by (simp add: take_Suc_conv_app_nth)
  moreover have "write_bytes (fs ! w) (b, r) = (b @ drop 48 (fs ! w), r - int ?P)" if "int ?P \<le> r" for b r
    using that len by (simp add: write_bytes_def)
  moreover have "int (Suc w * ?P) = int ?P + int (w * ?P)" by (simp only: mult_Suc of_nat_add)
  ultimately show ?case by simp
qed simp

lemma written_carries_all:
  assumes c: "carries fs F"
  shows "fst (fold write_bytes fs ([], int (length F))) = F"
proof -
  let ?P = "UPG_RINGBUF_VDEC_SIZE - 48" and ?xs = "map (drop 48) fs" and ?n = "length fs - 1"
  have n: "?n < length fs" using c by (simp add: carries_def)
  have P: "list_all (\<lambda>x. length x = ?P) ?xs" using c by (simp add: carries_def list_all_length)
  have len: "length (fs ! ?n) = UPG_RINGBUF_VDEC_SIZE" using c n by (simp add: carries_def list_all_length)
  define r where "r = length F - ?n * ?P"
  have lenF: "length F = ?n * ?P + r" using c by (simp add: carries_def r_def)
  have "length (take (length F) (concat ?xs)) \<le> length (concat ?xs)" by simp
  then have "length F \<le> length (concat ?xs)" by (simp only: carries_take [OF c])
  then have "length F \<le> length fs * ?P" using length_concat_blocks [OF P] by simp
  moreover have "length fs * ?P = ?n * ?P + ?P" using n by (cases "length fs") auto
  ultimately have r: "r \<le> ?P" using lenF by linarith
  have F: "F = concat (take ?n ?xs) @ take r (drop 48 (fs ! ?n))"
  proof -
    have "F = take (?n * ?P + r) (concat ?xs)" by (simp only: carries_take [OF c] flip: lenF)
    then show ?thesis using take_concat_rest [OF P _ r, of ?n] n by simp
  qed
  have "length (concat (take ?n ?xs)) = ?n * ?P"
    using length_concat_blocks [of ?P "take ?n ?xs"] P n by (simp add: list_all_length)
  then have take_F: "take (?n * ?P) F = concat (take ?n ?xs)" by (subst F) simp
  have fs: "take ?n fs @ [fs ! ?n] = fs" using n take_Suc_conv_app_nth [OF n] by simp
  have "fold write_bytes fs ([], int (length F)) = write_bytes (fs ! ?n) (take (?n * ?P) F, int r)"
    using written_carries [OF c n] by (subst fs [symmetric]) (simp add: lenF)
  moreover have "fst (write_bytes (fs ! ?n) (b, int r)) = b @ take r (drop 48 (fs ! ?n))" for b
    using len r by (auto simp: write_bytes_def)
  ultimately have "fst (fold write_bytes fs ([], int (length F))) = take (?n * ?P) F @ take r (drop 48 (fs ! ?n))" by simp
  then show ?thesis by (simp only: take_F flip: F)
qed

lemma written_prefix:
  assumes c: "carries fs F" and got: "prefix got fs" and w: "w \<le> length got"
  shows "prefix (fst (written got w)) F" "got = fs \<Longrightarrow> w = length got \<Longrightarrow> fst (written got w) = F"
proof -
  have len: "take UPG_RINGBUF_VDEC_SIZE f = f" if "f \<in> set fs" for f using c that by (simp add: carries_def list_all_iff)
  have tw: "take w got = take w fs" using got w by (auto simp: prefix_def)
  have m: "map (take UPG_RINGBUF_VDEC_SIZE) (take w fs) = take w fs"
    using len by (intro map_idI) (auto dest: in_set_takeD)
  have an: "announced got = int (length F)" if "got \<noteq> []"
  proof -
    have "hd got = hd fs" "hd got \<in> set fs" using got that by (auto simp: prefix_def)
    then show ?thesis using c that len by (cases got) (simp_all add: announced_def carries_def)
  qed
  have wr: "written got w = fold write_bytes (take w fs) ([], int (length F))" if "got \<noteq> []"
    using an that by (simp add: written_def tw m)
  show "prefix (fst (written got w)) F"
  proof (cases "got = []")
    case True
    then show ?thesis by (simp add: written_def)
  next
    case False
    show ?thesis
    proof (cases "w < length fs")
      case True
      then show ?thesis using wr [OF False] written_carries [OF c True] by (simp add: take_is_prefix)
    next
      case w: False
      then show ?thesis using wr [OF False] written_carries_all [OF c] by simp
    qed
  qed
  show "fst (written got w) = F" if "got = fs" "w = length got"
    using wr that c written_carries_all [OF c] by (simp add: carries_def)
qed

subsection \<open>The end of a transfer\<close>

definition end_inv :: "upgrade \<Rightarrow> bool" where
  "end_inv s \<longleftrightarrow>
     (if file_open s then detect_at s \<noteq> Det_Gone \<and> unpacked s = [] \<and> upg_status s \<noteq> upgrade_status_filecompleted \<and>
        main_at s = Main_Wait \<and> scripts s = 0
      else detect_at s = Det_Gone \<and>
        (unpacked s = [] \<and> main_at s = Main_Wait \<and> scripts s = 0 \<or>
         unpacked s = [testfile s] \<and> upg_status s \<noteq> upgrade_status_filecompleted \<and> scripts s \<le> 1 \<and>
           (main_at s = Main_Upgrade \<longrightarrow> scripts s = 0)))"

lemma end_inv_step: "end_inv s \<Longrightarrow> end_inv (upgrade_step e s)"
  by (cases e) (auto simp: end_inv_def upg_step split: recv_place.splits save_place.splits detect_place.splits outcome.splits if_splits)

lemma end_inv_run: "end_inv s \<Longrightarrow> end_inv (upgrade_run es s)"
  by (induction es arbitrary: s) (auto dest: end_inv_step)

lemma end_inv_init: "end_inv upgrade_init"
  by (simp add: end_inv_def upgrade_init_def)

text \<open>Once a frame has come the counter is between 1 and 15 while the file is open, and so is the value the detector holds.\<close>

definition count_inv :: "bool \<Rightarrow> upgrade \<Rightarrow> bool" where
  "count_inv came s \<longleftrightarrow> (file_open s \<longrightarrow> 0 \<le> file_count s \<and> file_count s \<le> 15 \<and> (came \<longrightarrow> 1 \<le> file_count s) \<and>
     (\<forall>v. detect_at s = Det_Got v \<longrightarrow> 1 \<le> v \<and> v \<le> 15))"

lemma count_inv_step: "count_inv came s \<Longrightarrow> count_inv (came \<or> received [e] s \<noteq> []) (upgrade_step e s)"
  by (cases e)
    (auto simp: count_inv_def upg_step u8_id split: recv_place.splits save_place.splits detect_place.splits outcome.splits if_splits)

lemma count_inv_run: "count_inv came s \<Longrightarrow> count_inv (came \<or> received es s \<noteq> []) (upgrade_run es s)"
proof (induction es arbitrary: came s)
  case (Cons e es)
  from Cons.IH [OF count_inv_step [OF Cons.prems, of e]] show ?case by (simp add: disj_assoc)
qed simp

text \<open>The steps the detector still needs to close the file.\<close>

definition to_close :: "upgrade \<Rightarrow> nat" where
  "to_close s = (case detect_at s of Det_Sleep \<Rightarrow> 2 * nat (16 - file_count s) | Det_Got v \<Rightarrow> 2 * nat (16 - v) - 1 | Det_Gone \<Rightarrow> 0)"

lemma Detector_closes:
  assumes "count_inv True s" "end_inv s" "file_open s" "\<not> up_crashed s"
  shows "let t = mpp_vpss_file_detect s in
    (to_close s = 1 \<and> \<not> file_open t \<and> upg_status t = upgrade_status_filecompleted \<or>
     Suc (to_close t) = to_close s \<and> file_open t \<and> count_inv True t) \<and>
    upgrade_step Detector s = t \<and> end_inv t \<and> testfile t = testfile s \<and> rest_file_size t = rest_file_size s \<and> \<not> up_crashed t"
proof -
  have "upgrade_step Detector s = mpp_vpss_file_detect s" using assms by (simp add: upgrade_step_def end_inv_def)
  then show ?thesis using assms end_inv_step [OF assms(2), of Detector]
    by (auto simp: Let_def to_close_def count_inv_def mpp_vpss_file_detect_def u8_id end_inv_def split: detect_place.splits)
qed

lemma Detectors_close:
  assumes "count_inv True s" "end_inv s" "file_open s" "\<not> up_crashed s" "to_close s \<le> n"
  shows "let t = upgrade_run (replicate n Detector) s in \<not> file_open t \<and> upg_status t = upgrade_status_filecompleted \<and>
    end_inv t \<and> testfile t = testfile s \<and> rest_file_size t = rest_file_size s \<and> \<not> up_crashed t"
  using assms
proof (induction n arbitrary: s)
  case 0
  then show ?case by (auto simp: to_close_def count_inv_def end_inv_def split: detect_place.splits)
next
  case (Suc n)
  let ?t = "mpp_vpss_file_detect s"
  note D = Detector_closes [OF Suc.prems(1-4), unfolded Let_def]
  have closed: "upgrade_run (replicate m Detector) t = t" if "\<not> file_open t" "end_inv t" for m t
  proof -
    have "upgrade_step Detector t = t" using that by (simp add: upgrade_step_def end_inv_def mpp_vpss_file_detect_def)
    then show ?thesis by (induction m) simp_all
  qed
  show ?case
  proof (cases "file_open ?t")
    case True
    then show ?thesis using D Suc.IH [of ?t] Suc.prems(5) by (simp add: Let_def)
  next
    case False
    then show ?thesis using D closed [of ?t n] by (simp add: Let_def)
  qed
qed

subsection \<open>Properties\<close>


definition sample_packet :: "byte list" where
  "sample_packet = replicate 14 0 @ 3 # replicate 33 0 @ 17 # 18 # 19 # replicate 102397 0"

lemma sample_packet_carries: "carries [sample_packet] [17, 18, 19]"
proof -
  have "[0..<8] = [0, 1, 2, 3, 4, 5, 6, 7 :: nat]" by code_simp
  then show ?thesis by (simp add: carries_def sample_packet_def upg_consts size_field_def nth_append)
qed


text \<open>C15: in every interleaving the file is unpacked at most once, after it was closed and as it was closed, and the upgrade script
  runs at most once, after that: a failed upgrade is not tried again.\<close>

theorem upgraded_at_most_once:
  "let s = upgrade_run es upgrade_init
   in (unpacked s = [] \<or> unpacked s = [testfile s] \<and> \<not> file_open s) \<and> scripts s \<le> length (unpacked s)"
  using end_inv_run [OF end_inv_init, of es] by (auto simp: end_inv_def Let_def split: if_splits)

text \<open>C16: a transfer that breaks off is installed: from every state in which a frame has come and the file is open, thirty steps of
  the detector without a frame, that is fifteen of its rounds, close the file, and the main loop unpacks it with what has been
  received, however much of the announced size is still missing.\<close>

theorem broken_transfer_installed:
  assumes "s = upgrade_run es upgrade_init" "received es upgrade_init \<noteq> []" "file_open s" "\<not> up_crashed s"
  shows "let t = upgrade_run (replicate 30 Detector @ [Main_Loop]) s
    in unpacked t = [testfile s] \<and> main_at t = Main_Upgrade \<and> rest_file_size t = rest_file_size s"
proof -
  have ci: "count_inv True s"
    using count_inv_run [of False upgrade_init es] assms(1,2) by (simp add: count_inv_def upgrade_init_def)
  have ei: "end_inv s" using end_inv_run [OF end_inv_init] assms(1) by simp
  have le: "to_close s \<le> 30" using ci assms(3) by (auto simp: to_close_def count_inv_def split: detect_place.splits)
  have app: "upgrade_run (xs @ ys) u = upgrade_run ys (upgrade_run xs u)" for xs ys u
    by (induction xs arbitrary: u) simp_all
  define u where "u = upgrade_run (replicate 30 Detector) s"
  note D = Detectors_close [OF ci ei assms(3,4) le, folded u_def, unfolded Let_def]
  have "upgrade_run (replicate 30 Detector @ [Main_Loop]) s = upgrade_step Main_Loop u" by (simp only: app u_def upgrade_run.simps)
  moreover have "main_at u = Main_Wait \<and> unpacked u = []" using D by (auto simp: end_inv_def)
  ultimately show ?thesis using D by (simp add: upgrade_step_def main_loop_def Let_def)
qed

text \<open>The sample packet, cut off after its first frame of a file with two.\<close>

definition cut_packet :: "byte list" where
  "cut_packet = replicate 16 0 @ 4 # replicate 31 0 @ replicate 102400 7"

theorem broken_transfer_installed_witness:
  "let s = upgrade_run [Saver False, Receiver cut_packet, Receiver cut_packet, Saver False, Saver False] upgrade_init;
       t = upgrade_run (replicate 30 Detector @ [Main_Loop]) s
   in unpacked t = [testfile s] \<and> main_at t = Main_Upgrade \<and> rest_file_size t = rest_file_size s"
proof -
  let ?es = "[Saver False, Receiver cut_packet, Receiver cut_packet, Saver False, Saver False]"
  have "received ?es upgrade_init \<noteq> [] \<and> file_open (upgrade_run ?es upgrade_init) \<and> \<not> up_crashed (upgrade_run ?es upgrade_init)"
    by (simp add: upgrade_step_def mpp_vpss_GetAlgFrame_def mpp_vpss_file_save_def upgrade_init_def upg_consts
        rq_push_def rq_Write_def rq_Read_def RdFull_def RdEmpty_def TRWRingQueue_def ringque_consts s32_def u32_def
        Let_def upt_rec_numeral numeral_2_eq_2 [symmetric] nth_list_update)
  then show ?thesis using broken_transfer_installed [OF refl, of ?es] unfolding Let_def by blast
qed

text \<open>A frame that comes between the two accesses of the detector is forgotten: the file is closed right after it came, and the
  saver's next write goes to the closed file.\<close>

theorem late_frame_forgotten:
  assumes "detect_at s = Det_Got 15" "recv_at s = Recv_Poll" "save_at s = Save_Read" "\<not> up_crashed s" "main_at s = Main_Wait"
    and "rq_ok (ringque_VDEC s)"
  shows "\<not> file_open (upgrade_run [Receiver f, Detector] s)"
    "up_crashed (upgrade_run [Receiver f, Detector, Receiver f, Saver False, Saver False] s)"
proof -
  show "\<not> file_open (upgrade_run [Receiver f, Detector] s)"
    using assms by (simp add: upg_step u8_def)
  let ?q = "rq_push (int (up_counter s mod UPG_RINGBUF_VDEC_COUNT)) (ringque_VDEC s)"
  have "rq_ok ?q" "pending 0 ?q \<noteq> []" using assms(6) by (simp_all add: rq_push_ok rq_push_pending)
  then obtain v q where "rq_Read 0 500000 False (\<lambda>current. (current, current)) ?q = Returned v q"
    using read_nonempty [of ?q 0 500000 False "\<lambda>current. (current, current)"] by metis
  then show "up_crashed (upgrade_run [Receiver f, Detector, Receiver f, Saver False, Saver False] s)"
    using assms by (simp add: upg_step u8_def)
qed

end
