(* ===== verification/Daemon.thy ===== *)
theory Daemon
  imports Dmm_Users
begin

section \<open>The daemon: start, configuration and media buffers (alg.cpp)\<close>

text \<open>
  \<open>main\<close> initialises the platform libraries and the detection modules of the board, registers the message callbacks and starts
  the modules; \<open>callbackConfigUpdate\<close> hands a new configuration to them.  Both are lists of calls, executed up to the first one
  that fails; what the calls return is an argument.  The block of \<open>main\<close> that connects to the video process, fetches the file
  descriptors of the media buffers and looks which algorithm the channels run is disabled (\<open>#if 0\<close>), so the descriptors
  stay \<open>-1\<close> and the flags it would set stay false.
\<close>

subsection \<open>Start\<close>

datatype CHN_ALG_E = ALG_OFF | ALG_ADAS | ALG_DMS | ALG_PDS | ALG_APC | ALG_TRACK | ALG_OTHER

datatype board_version = BOARD_ADA47V1_V1 | BOARD_ADA47V1_V2 | BOARD_VERSION_OTHER

datatype alg_module = M_ADAS | M_TRACK | M_DMM | M_PD | M_APC | M_ZOOM

datatype alg_op = OP_EVENT_CFG_UPDATE | OP_REQ_ALG_CALIBRATION | OP_REQ_ALG_QRCODE_CALIBRATION | OP_REQ_ALG_POINT_IMAGE_TO_REAL
  | OP_REQ_ALG_POINT_REAL_TO_IMAGE | OP_REQ_ALG_FR_ADDUSER | OP_REQ_ALG_FR_DELUSER | OP_REQ_ALG_FR_MODUSER
  | OP_REQ_ALG_FR_GETUSERS | OP_REQ_ALG_FR_LOGIN | OP_EVENT_ALG_SPLIT_UPDATE | OP_EVENT_RESET_POS | OP_EVENT_GPS_DATA

datatype library_call = L_ALG_Init | L_BOARD_Init | L_CONFIG_Init | L_CONFIG_GetAlgParam | L_CONFIG_GetServerParam
  | L_CONFIG_GetSystemParam | L_LOG_Init | L_MSG_SysInit | L_MSG_ReciverStart | L_ALARM_Init | L_Init alg_module
  | L_registerOpCallback alg_op | L_Start alg_module
  | L_CONFIG_ReloadFile | L_CONFIG_GetMediaParam | L_ALARM_ConfigSet | L_ConfigSet alg_module | L_PD_RotateSet

text \<open>The end of \<open>main\<close>: it returns, stays in the loop after \<open>err_loop\<close>, or in its main loop; there the boards ADA42V1 and
  ADA42PTZV1 call \<open>FD_SET\<close> with the descriptor of the socket, which is \<open>-1\<close>: a write outside of the set.\<close>

datatype main_end = Main_Returns sv_ret | Err_Loop | Main_Loops | Bad_FD_SET

definition g_as32MediaBufFd :: int where "g_as32MediaBufFd = - 1"
definition g_s32SocketFd :: int where "g_s32SocketFd = - 1"
definition bAdas :: bool where "bAdas = False"
definition bTrack :: bool where "bTrack = False"

definition bDms :: "board \<Rightarrow> board_version \<Rightarrow> CHN_ALG_E \<Rightarrow> bool" where
  "bDms b v ch2 \<longleftrightarrow> b \<in> set [DMS31V2, ADA47V1] \<and> v \<noteq> BOARD_ADA47V1_V1 \<and> \<not> (b = ADA47V1 \<and> ch2 \<noteq> ALG_DMS)"

definition pd_boards :: "board list" where
  "pd_boards = [ADA32V2, ADA32V3, ADA32IR, ADA32N1, ADA42V1, ADA42PTZV1, ADA47V1, ADA32C4]"

definition bPds :: "board \<Rightarrow> board_version \<Rightarrow> bool" where
  "bPds b v \<longleftrightarrow> b \<in> set pd_boards \<and> b \<noteq> ADA42V1 \<and> v \<noteq> BOARD_ADA47V1_V2"

text \<open>On the first version of the ADA47V1 the algorithm of the second channel is set to the pedestrian detection.\<close>

definition bApc :: "board \<Rightarrow> board_version \<Rightarrow> CHN_ALG_E \<Rightarrow> bool" where
  "bApc b v ch2 \<longleftrightarrow> b \<in> set [ADA900V1, ADA47V1] \<and>
     (if b \<in> set pd_boards \<and> v = BOARD_ADA47V1_V1 then ALG_PDS else ch2) = ALG_APC"

text \<open>The checks of the descriptors in the modules' initialisation: \<open>ADAS_Init\<close>, \<open>TARGET_TRACK_Init\<close>, \<open>DMM_Init\<close> (whose check
  compares an array when there are three buffers per channel, \<open>multi\<close>) and \<open>APC_Init\<close>.\<close>

definition module_answer :: "bool \<Rightarrow> (library_call \<Rightarrow> sv_ret) \<Rightarrow> library_call \<Rightarrow> sv_ret" where
  "module_answer multi ans c =
     (case c of
        L_Init M_ADAS \<Rightarrow> if g_as32MediaBufFd < 0 then ERR_ILLEGAL_PARAM else ans c
      | L_Init M_TRACK \<Rightarrow> if g_as32MediaBufFd < 0 then ERR_ILLEGAL_PARAM else ans c
      | L_Init M_DMM \<Rightarrow> if \<not> multi \<and> g_as32MediaBufFd < 0 then ERR_ILLEGAL_PARAM else ans c
      | L_Init M_APC \<Rightarrow> if \<not> 0 < g_as32MediaBufFd then ERR_ILLEGAL_PARAM else ans c
      | _ \<Rightarrow> ans c)"

text \<open>A list of calls with what the caller does when one fails.\<close>

fun run_calls :: "(library_call \<Rightarrow> sv_ret) \<Rightarrow> (library_call \<times> (sv_ret \<Rightarrow> 'e)) list \<Rightarrow> 'e \<Rightarrow> library_call list \<times> 'e" where
  "run_calls ans [] fin = ([], fin)"
| "run_calls ans ((c, fail) # cs) fin =
     (if ans c = SV_SUCCESS then let (calls, e) = run_calls ans cs fin in (c # calls, e) else ([], fail (ans c)))"

definition registered_ops :: "board \<Rightarrow> alg_op list" where
  "registered_ops b = [OP_EVENT_CFG_UPDATE, OP_REQ_ALG_CALIBRATION, OP_REQ_ALG_QRCODE_CALIBRATION, OP_REQ_ALG_POINT_IMAGE_TO_REAL,
     OP_REQ_ALG_POINT_REAL_TO_IMAGE, OP_REQ_ALG_FR_ADDUSER, OP_REQ_ALG_FR_DELUSER, OP_REQ_ALG_FR_MODUSER, OP_REQ_ALG_FR_GETUSERS,
     OP_REQ_ALG_FR_LOGIN, OP_EVENT_ALG_SPLIT_UPDATE, OP_EVENT_RESET_POS] @
     (if b \<in> set [DMS31V2, ADA42V1, ADA42PTZV1, ADA47V1] then [OP_EVENT_GPS_DATA] else [])"

text \<open>\<open>sdk\<close>: built as an SDK; \<open>key_auth\<close>: the board needs a licence key.\<close>

definition main_calls :: "board \<Rightarrow> bool \<Rightarrow> bool \<Rightarrow> board_version \<Rightarrow> CHN_ALG_E \<Rightarrow> (library_call \<times> (sv_ret \<Rightarrow> main_end)) list" where
  "main_calls b sdk key_auth v ch2 =
     (let dmm = b \<in> set [DMS31V2, ADA42V1, ADA47V1] \<and> bDms b v ch2; pd = b \<in> set pd_boards \<and> bPds b v;
          apc = b \<in> set [ADA900V1, ADA47V1] \<and> bApc b v ch2; adas = b = ADA42V1 \<and> bAdas; track = b = ADA42PTZV1 \<and> bTrack
      in map (\<lambda>c. (c, Main_Returns)) [L_ALG_Init, L_BOARD_Init, L_CONFIG_Init, L_CONFIG_GetAlgParam, L_CONFIG_GetServerParam,
           L_CONFIG_GetSystemParam, L_LOG_Init] @
         [(L_MSG_SysInit, \<lambda>_. Main_Returns (ERR_OTHER (- 1))), (L_MSG_ReciverStart, Main_Returns), (L_ALARM_Init, Main_Returns)] @
         (if adas then [(L_Init M_ADAS, Main_Returns)] else []) @
         (if track then [(L_Init M_TRACK, Main_Returns)] else []) @
         (if dmm then [(L_Init M_DMM, \<lambda>r. if sdk \<or> b = ADA47V1 then Err_Loop else Main_Returns r)] else []) @
         (if pd then [(L_Init M_PD, \<lambda>r. if sdk \<or> b = ADA47V1 \<or> key_auth then Err_Loop else Main_Returns r)] else []) @
         (if apc then [(L_Init M_APC, Main_Returns)] else []) @
         (if b = HDW845V1 then [(L_Init M_ZOOM, Main_Returns)] else []) @
         map (\<lambda>op. (L_registerOpCallback op, Main_Returns)) (registered_ops b) @
         (if adas then [(L_Start M_ADAS, Main_Returns)] else []) @
         (if dmm then [(L_Start M_DMM, Main_Returns)] else []) @
         (if pd then [(L_Start M_PD, Main_Returns)] else []) @
         (if track then [(L_Start M_TRACK, Main_Returns)] else []) @
         (if apc then [(L_Start M_APC, Main_Returns)] else []) @
         (if b = HDW845V1 then [(L_Start M_ZOOM, Main_Returns)] else []))"

definition alg_main :: "board \<Rightarrow> bool \<Rightarrow> bool \<Rightarrow> bool \<Rightarrow> board_version \<Rightarrow> CHN_ALG_E \<Rightarrow> (library_call \<Rightarrow> sv_ret) \<Rightarrow>
    library_call list \<times> main_end" where
  "alg_main b multi sdk key_auth v ch2 ans =
     run_calls (module_answer multi ans) (main_calls b sdk key_auth v ch2)
       (if b \<in> set [ADA42V1, ADA42PTZV1] \<and> g_s32SocketFd < 0 then Bad_FD_SET else Main_Loops)"

subsection \<open>A new configuration\<close>

definition config_calls :: "board \<Rightarrow> board_version \<Rightarrow> (library_call \<times> (sv_ret \<Rightarrow> msg_ret)) list" where
  "config_calls b v =
     [(L_CONFIG_ReloadFile, \<lambda>_. MSG_DEFAULT_FAIL), (L_CONFIG_GetAlgParam, \<lambda>_. MSG_DEFAULT_FAIL),
      (L_CONFIG_GetMediaParam, \<lambda>_. MSG_DEFAULT_FAIL), (L_CONFIG_GetSystemParam, Msg_Ret), (L_ALARM_ConfigSet, Msg_Ret)] @
     (if b \<in> set [DMS31V2, ADA42V1, ADA42PTZV1, ADA47V1] \<and> v \<noteq> BOARD_ADA47V1_V1
      then [(L_ConfigSet M_DMM, \<lambda>_. MSG_DEFAULT_FAIL)] else []) @
     (if b \<in> set pd_boards \<and> v \<noteq> BOARD_ADA47V1_V2 then [(L_ConfigSet M_PD, \<lambda>_. MSG_DEFAULT_FAIL)] else []) @
     (if b = ADA900V1 then [(L_ConfigSet M_APC, \<lambda>_. MSG_DEFAULT_FAIL)] else []) @
     (if b \<in> set [ADA32V2, ADA32N1, ADA47V1, ADA32C4] then [(L_PD_RotateSet, \<lambda>_. MSG_DEFAULT_FAIL)] else [])"

definition callbackConfigUpdate :: "board \<Rightarrow> board_version \<Rightarrow> (library_call \<Rightarrow> sv_ret) \<Rightarrow> library_call list \<times> msg_ret" where
  "callbackConfigUpdate b v ans = run_calls ans (config_calls b v) (Msg_Ret SV_SUCCESS)"

subsection \<open>The media buffers\<close>

text \<open>One request over the socket: \<open>select_write\<close> and \<open>write_ret\<close> are what \<open>select\<close> and \<open>unsock_write\<close> return, \<open>waits\<close> what \<open>select\<close>
  returns in each round and, when data came, what \<open>unsock_recvPacket\<close> returns and the descriptor it stores.\<close>

datatype 'a wait_result = Wait_Got int 'a | Wait_Timeout

fun wait_packet :: "nat \<Rightarrow> (int \<times> int \<times> 'a) list \<Rightarrow> 'a wait_result" where
  "wait_packet 0 waits = Wait_Timeout"
| "wait_packet (Suc n) [] = Wait_Timeout"
| "wait_packet (Suc n) ((sel, ret, x) # waits) = (if sel \<le> 0 then wait_packet n waits else Wait_Got ret x)"

record media_answer =
  select_write :: int
  write_ret :: int
  waits :: "(int \<times> int \<times> int) list"

text \<open>With one buffer per channel; the result has the stored descriptor and whether the socket was closed.  \<open>ps32MediaBufFd < 0\<close>
  compares the pointer, so the descriptor is not checked.\<close>

definition alg_GetMediaBufFd :: "int \<Rightarrow> int \<Rightarrow> media_answer \<Rightarrow> int option \<Rightarrow> sv_ret \<times> int option \<times> bool" where
  "alg_GetMediaBufFd s32SocketFd s32Chn a ps32MediaBufFd =
     (if s32SocketFd < 0 \<or> s32Chn < 0 \<or> 4 \<le> s32Chn then (ERR_ILLEGAL_PARAM, ps32MediaBufFd, False)
      else if ps32MediaBufFd = None then (ERR_NULL_PTR, None, False)
      else if select_write a \<le> 0 \<or> write_ret a < 0 then (SV_FAILURE, ps32MediaBufFd, False)
      else (case wait_packet 5 (waits a) of
          Wait_Timeout \<Rightarrow> (SV_FAILURE, ps32MediaBufFd, True)
        | Wait_Got ret fd \<Rightarrow> (if ret < 0 then SV_FAILURE else SV_SUCCESS, Some fd, False)))"

text \<open>With three buffers per channel, asked for one after the other.\<close>

fun get_fds :: "(int \<times> (int \<times> int \<times> int) list) list \<Rightarrow> int list \<Rightarrow> sv_ret \<times> int list \<times> bool" where
  "get_fds [] fds = (SV_SUCCESS, fds, False)"
| "get_fds ((wr, ws) # rs) fds =
     (if wr < 0 then (SV_FAILURE, fds, False)
      else case wait_packet 10 ws of
          Wait_Timeout \<Rightarrow> (SV_FAILURE, fds, True)
        | Wait_Got ret fd \<Rightarrow> if ret < 0 \<or> fd < 0 then (SV_FAILURE, fds @ [fd], False) else get_fds rs (fds @ [fd]))"

definition alg_GetMediaBufFd_multi :: "int \<Rightarrow> int \<Rightarrow> bool \<Rightarrow> int \<Rightarrow> (int \<times> (int \<times> int \<times> int) list) list \<Rightarrow> sv_ret \<times> int list \<times> bool" where
  "alg_GetMediaBufFd_multi s32SocketFd s32Chn null select_wr rs =
     (if s32SocketFd < 0 \<or> s32Chn < 0 \<or> 4 \<le> s32Chn then (ERR_ILLEGAL_PARAM, [], False)
      else if null then (ERR_NULL_PTR, [], False)
      else if select_wr \<le> 0 then (SV_FAILURE, [], False)
      else get_fds (take 3 rs) [])"

text \<open>\<open>res\<close>: the length field and the two numbers of the packet.\<close>

definition alg_GetMediaRes :: "int \<Rightarrow> int \<Rightarrow> int \<Rightarrow> int \<Rightarrow> (int \<times> int \<times> (nat \<times> int \<times> int)) list \<Rightarrow> (int \<times> int) option \<Rightarrow>
    sv_ret \<times> (int \<times> int) option \<times> bool" where
  "alg_GetMediaRes s32SocketFd s32Chn select_wr write_r ws dst =
     (if s32SocketFd < 0 \<or> s32Chn < 0 \<or> 4 \<le> s32Chn then (ERR_ILLEGAL_PARAM, dst, False)
      else if dst = None then (ERR_NULL_PTR, None, False)
      else if select_wr \<le> 0 \<or> write_r < 0 then (SV_FAILURE, dst, False)
      else (case wait_packet 5 ws of
          Wait_Timeout \<Rightarrow> (SV_FAILURE, dst, True)
        | Wait_Got ret (len, w, h) \<Rightarrow>
            if ret < 0 then (SV_FAILURE, dst, False) else (SV_SUCCESS, if len = 8 then Some (w, h) else dst, False)))"

subsection \<open>Requests to the control process\<close>

text \<open>The current settings (\<open>Inr\<close>: the request failed) and the answer to the new ones; the result has the settings that were sent.\<close>

definition ALG_Hide_Picstream :: "32 word + sv_ret \<Rightarrow> sv_ret \<Rightarrow> msg_ret \<times> 32 word option" where
  "ALG_Hide_Picstream get set_ret =
     (case get of Inr _ \<Rightarrow> (MSG_DEFAULT_FAIL, None)
      | Inl bShowGuiMask \<Rightarrow>
          if and bShowGuiMask 4 = 0 then (Msg_Ret SV_SUCCESS, None)
          else (if set_ret \<noteq> SV_SUCCESS then MSG_DEFAULT_FAIL else Msg_Ret SV_SUCCESS, Some (and bShowGuiMask 11)))"

record alarm_out_cfg =
  bPdAlarmOutRed :: bool
  bPdAlarmOutYellow :: bool
  bPdAlarmOutGreen :: bool

definition ALG_AlarmOut_Switch :: "bool \<Rightarrow> alarm_out_cfg + sv_ret \<Rightarrow> sv_ret \<Rightarrow> msg_ret \<times> alarm_out_cfg option" where
  "ALG_AlarmOut_Switch bEnable get set_ret =
     (case get of Inr _ \<Rightarrow> (MSG_DEFAULT_FAIL, None)
      | Inl c \<Rightarrow>
          if bPdAlarmOutRed c = bEnable \<and> bPdAlarmOutYellow c = bEnable \<and> bPdAlarmOutGreen c = bEnable then (Msg_Ret SV_SUCCESS, None)
          else (if set_ret \<noteq> SV_SUCCESS then MSG_DEFAULT_FAIL else Msg_Ret SV_SUCCESS,
            Some (c\<lparr>bPdAlarmOutRed := bEnable, bPdAlarmOutYellow := bEnable, bPdAlarmOutGreen := bEnable\<rparr>)))"

subsection \<open>Lists of calls\<close>

lemma run_calls_subset: "set (fst (run_calls ans cs fin)) \<subseteq> fst ` set cs"
  by (induction ans cs fin rule: run_calls.induct) (auto simp: Let_def split: prod.splits)

text \<open>A call that fails guards the calls that only come after it.\<close>

fun guarded :: "library_call \<Rightarrow> library_call \<Rightarrow> (library_call \<times> 'f) list \<Rightarrow> bool" where
  "guarded c d [] \<longleftrightarrow> True"
| "guarded c d (x # cs) \<longleftrightarrow> fst x = c \<or> fst x \<noteq> d \<and> guarded c d cs"

lemma guarded_append [simp]: "guarded c d (xs @ ys) \<longleftrightarrow> guarded c d xs \<and> (c \<in> fst ` set xs \<or> guarded c d ys)"
  by (induction xs) auto

lemma guarded_if [simp]: "guarded c d (if b then xs else ys) \<longleftrightarrow> (if b then guarded c d xs else guarded c d ys)"
  by simp

lemma guarded_absent: "d \<notin> fst ` set xs \<Longrightarrow> guarded c d xs"
  by (induction xs) auto

lemma run_calls_guarded: "ans c \<noteq> SV_SUCCESS \<Longrightarrow> guarded c d cs \<Longrightarrow> d \<notin> set (fst (run_calls ans cs fin))"
proof (induction ans cs fin rule: run_calls.induct)
  case (2 ans c' fail cs fin)
  then show ?case by (cases "run_calls ans cs fin") auto
qed simp

lemma run_calls_all: "\<forall>c \<in> fst ` set cs. ans c = SV_SUCCESS \<Longrightarrow> run_calls ans cs fin = (map fst cs, fin)"
  by (induction ans cs fin rule: run_calls.induct) auto

lemma run_calls_success:
  "snd (run_calls ans cs fin) = e \<Longrightarrow> \<forall>x \<in> set cs. \<forall>r. r \<noteq> SV_SUCCESS \<longrightarrow> snd x r \<noteq> e \<Longrightarrow>
    fst (run_calls ans cs fin) = map fst cs"
  by (induction ans cs fin rule: run_calls.induct) (auto simp: Let_def split: prod.splits if_splits)

subsection \<open>Which modules run\<close>

lemma guarded_registered: "guarded c (L_Start m) (map (\<lambda>op. (L_registerOpCallback op, Main_Returns)) ops)"
  by (rule guarded_absent) auto

lemma started_after_init:
  assumes "module_answer multi ans (L_Init m) \<noteq> SV_SUCCESS" and "m = M_DMM \<or> m = M_APC"
  shows "L_Start m \<notin> set (fst (alg_main b multi sdk key_auth v ch2 ans))"
proof -
  have "guarded (L_Init m) (L_Start m) (main_calls b sdk key_auth v ch2)"
    using assms(2) unfolding main_calls_def Let_def
    by (elim disjE) (simp_all add: guarded_registered bAdas_def bTrack_def del: set_simps)
  then show ?thesis unfolding alg_main_def by (rule run_calls_guarded [of "module_answer multi ans", OF assms(1)])
qed

lemma never_listed: "m \<in> {M_ADAS, M_TRACK} \<Longrightarrow> L_Start m \<notin> set (fst (alg_main b multi sdk key_auth v ch2 ans))"
proof -
  assume "m \<in> {M_ADAS, M_TRACK}"
  then have "L_Start m \<notin> fst ` set (main_calls b sdk key_auth v ch2)"
    by (auto simp: main_calls_def Let_def bAdas_def bTrack_def)
  then show ?thesis unfolding alg_main_def
    using run_calls_subset [of "module_answer multi ans" "main_calls b sdk key_auth v ch2"] by blast
qed

subsection \<open>Properties\<close>

text \<open>C39: whatever the board, the configuration and the libraries' answers, \<open>main\<close> starts at most the pedestrian detection and
  the zoom, and the driver monitor in the build with three buffers a channel: the descriptors of the media buffers, which the
  disabled block would have fetched, are \<open>-1\<close>, so the passenger counting and the driver monitor of the plain build fail in their
  initialisation, and the lane departure warning and the target tracking are never enabled.\<close>

theorem modules_never_started:
  "{m. L_Start m \<in> set (fst (alg_main b multi sdk key_auth v ch2 ans))} \<subseteq>
     {M_PD, M_ZOOM} \<union> (if multi then {M_DMM} else {})"
proof
  fix m
  assume "m \<in> {m. L_Start m \<in> set (fst (alg_main b multi sdk key_auth v ch2 ans))}"
  then have m: "L_Start m \<in> set (fst (alg_main b multi sdk key_auth v ch2 ans))" by simp
  have "\<not> multi \<Longrightarrow> module_answer multi ans (L_Init M_DMM) \<noteq> SV_SUCCESS"
    and "module_answer multi ans (L_Init M_APC) \<noteq> SV_SUCCESS"
    by (simp_all add: module_answer_def g_as32MediaBufFd_def)
  then have "multi \<or> m \<noteq> M_DMM" "m \<noteq> M_APC" using started_after_init m by blast+
  moreover have "m \<noteq> M_ADAS" "m \<noteq> M_TRACK" using never_listed m by blast+
  ultimately show "m \<in> {M_PD, M_ZOOM} \<union> (if multi then {M_DMM} else {})" by (cases m) auto
qed

lemma started_listed: "L_Start m \<in> set (fst (alg_main b multi sdk key_auth v ch2 ans)) \<Longrightarrow>
    L_Start m \<in> fst ` set (main_calls b sdk key_auth v ch2)"
  using run_calls_subset [of "module_answer multi ans" "main_calls b sdk key_auth v ch2"] unfolding alg_main_def by blast

text \<open> a pedestrian-detection board of the ADA32 series, all of whose libraries answer, registers its callbacks, starts the
  pedestrian detection and nothing else, and stays in its main loop.\<close>

theorem ada32_runs_pd:
  assumes "b \<in> {ADA32V2, ADA32V3, ADA32IR, ADA32N1, ADA32C4}" "v \<noteq> BOARD_ADA47V1_V2" "\<forall>c. ans c = SV_SUCCESS"
  shows "snd (alg_main b multi sdk key_auth v ch2 ans) = Main_Loops \<and>
    {m. L_Start m \<in> set (fst (alg_main b multi sdk key_auth v ch2 ans))} = {M_PD} \<and>
    {op. L_registerOpCallback op \<in> set (fst (alg_main b multi sdk key_auth v ch2 ans))} = set (registered_ops b)"
proof -
  let ?cs = "main_calls b sdk key_auth v ch2"
  have only: "fst ` set ?cs = set [L_ALG_Init, L_BOARD_Init, L_CONFIG_Init, L_CONFIG_GetAlgParam, L_CONFIG_GetServerParam,
      L_CONFIG_GetSystemParam, L_LOG_Init, L_MSG_SysInit, L_MSG_ReciverStart, L_ALARM_Init, L_Init M_PD, L_Start M_PD] \<union>
      L_registerOpCallback ` set (registered_ops b)"
    using assms(1,2) by (elim insertE emptyE)
      (auto simp: main_calls_def pd_boards_def bPds_def Let_def image_iff)
  then have "\<forall>c \<in> fst ` set ?cs. module_answer multi ans c = SV_SUCCESS"
    using assms(3) by (auto simp: module_answer_def)
  then have "alg_main b multi sdk key_auth v ch2 ans = (map fst ?cs, Main_Loops)"
    using assms(1) by (auto simp: alg_main_def run_calls_all)
  then show ?thesis using only by auto
qed

theorem ada32_runs_pd_witness:
  "snd (alg_main ADA32V2 False False False BOARD_VERSION_OTHER ALG_OFF (\<lambda>_. SV_SUCCESS)) = Main_Loops"
  using ada32_runs_pd [of ADA32V2 BOARD_VERSION_OTHER "\<lambda>_. SV_SUCCESS" False False False ALG_OFF] by simp

lemma config_success:
  "snd (callbackConfigUpdate b v ans) = Msg_Ret SV_SUCCESS \<Longrightarrow> fst (callbackConfigUpdate b v ans) = map fst (config_calls b v)"
  unfolding callbackConfigUpdate_def by (rule run_calls_success) (auto simp: config_calls_def)

text \<open>C40: a change of the configuration that is answered with success has been given to the alarm module and to every module
  the daemon runs, except for the zoom, which takes none.\<close>

theorem update_reaches_running:
  assumes "L_Start m \<in> set (fst (alg_main b multi sdk key_auth v ch2 ans))" "m \<noteq> M_ZOOM"
    and "snd (callbackConfigUpdate b v ans') = Msg_Ret SV_SUCCESS"
  shows "{L_ALARM_ConfigSet, L_ConfigSet m} \<subseteq> set (fst (callbackConfigUpdate b v ans'))"
proof -
  have "m \<noteq> M_APC" "m \<noteq> M_ADAS" "m \<noteq> M_TRACK"
    using assms(1) started_after_init [of multi ans M_APC] never_listed [of m]
    by (auto simp: module_answer_def g_as32MediaBufFd_def)
  then have "L_ConfigSet m \<in> fst ` set (config_calls b v)" using started_listed [OF assms(1)] assms(2)
    by (cases m) (auto simp: main_calls_def config_calls_def bDms_def bPds_def Let_def split: if_splits)
  moreover have "L_ALARM_ConfigSet \<in> fst ` set (config_calls b v)" by (simp add: config_calls_def)
  ultimately show ?thesis using config_success [OF assms(3)] by (simp add: set_map [symmetric] del: set_map)
qed

theorem update_reaches_running_witness:
  "{L_ALARM_ConfigSet, L_ConfigSet M_PD} \<subseteq> set (fst (callbackConfigUpdate ADA32V3 BOARD_VERSION_OTHER (\<lambda>_. SV_SUCCESS)))"
  by (rule update_reaches_running [of M_PD ADA32V3 False False False BOARD_VERSION_OTHER ALG_OFF "\<lambda>_. SV_SUCCESS"])
    (simp_all add: alg_main_def main_calls_def run_calls_all module_answer_def pd_boards_def bPds_def registered_ops_def
       callbackConfigUpdate_def config_calls_def)

lemma get_fds_ok:
  "get_fds rs fds = (SV_SUCCESS, fds', shut) \<Longrightarrow> \<forall>fd \<in> set fds. 0 \<le> fd \<Longrightarrow>
    (\<forall>fd \<in> set fds'. 0 \<le> fd) \<and> length fds' = length fds + length rs"
  by (induction rs fds rule: get_fds.induct) (auto split: if_splits wait_result.splits)

text \<open> the descriptors that \<open>alg_GetMediaBufFd\<close> reports as fetched are valid in the build with three buffers per channel; in
  the build with one, the test of the descriptor compares its address, and \<open>-1\<close> is reported with success.\<close>

theorem media_descriptor_checks:
  "(\<forall>sock chn null sel rs fds shut. alg_GetMediaBufFd_multi sock chn null sel rs = (SV_SUCCESS, fds, shut) \<longrightarrow>
      (\<forall>fd \<in> set fds. 0 \<le> fd) \<and> length fds = min 3 (length rs)) \<and>
   alg_GetMediaBufFd 5 0 \<lparr>select_write = 1, write_ret = 8, waits = [(0, 0, 0), (1, 8, - 1)]\<rparr> (Some 0) = (SV_SUCCESS, Some (- 1), False)"
proof
  show "\<forall>sock chn null sel rs fds shut. alg_GetMediaBufFd_multi sock chn null sel rs = (SV_SUCCESS, fds, shut) \<longrightarrow>
      (\<forall>fd \<in> set fds. 0 \<le> fd) \<and> length fds = min 3 (length rs)"
    using get_fds_ok by (fastforce simp: alg_GetMediaBufFd_multi_def split: if_splits)
qed (simp add: alg_GetMediaBufFd_def eval_nat_numeral)

text \<open>A video process that says nothing is given up after five, or ten, waits; the socket is closed.\<close>

lemma wait_packet_silent: "\<forall>w \<in> set ws. fst w \<le> 0 \<Longrightarrow> wait_packet n ws = Wait_Timeout"
  by (induction n ws rule: wait_packet.induct) auto

lemma media_fd_silent:
  "0 \<le> sock \<Longrightarrow> 0 \<le> chn \<Longrightarrow> chn < 4 \<Longrightarrow> 0 < select_write a \<Longrightarrow> 0 \<le> write_ret a \<Longrightarrow> \<forall>w \<in> set (waits a). fst w \<le> 0 \<Longrightarrow>
    alg_GetMediaBufFd sock chn a (Some fd) = (SV_FAILURE, Some fd, True)"
  by (simp add: alg_GetMediaBufFd_def wait_packet_silent)

text \<open>The requests to the control process ask for nothing when the settings are already as wanted.\<close>

lemma hide_picstream_idempotent: "ALG_Hide_Picstream (Inl (and cur 11)) r = (Msg_Ret SV_SUCCESS, None)"
proof -
  have "and (and cur 11) 4 = (0 :: 32 word)" by (simp add: and.assoc)
  then show ?thesis by (simp add: ALG_Hide_Picstream_def)
qed

lemma alarm_out_switch_idempotent:
  "snd (ALG_AlarmOut_Switch e (Inl c) r) = Some c' \<Longrightarrow> ALG_AlarmOut_Switch e (Inl c') r' = (Msg_Ret SV_SUCCESS, None)"
  by (auto simp: ALG_AlarmOut_Switch_def split: if_splits)

end
