(* ===== verification/Fastlz.thy ===== *)
theory Fastlz
  imports Prelude
begin

section \<open>Compression of the pictures (bsd/common/common_zip.c)\<close>

text \<open>
  The pictures of the blind-spot display are kept compressed with FastLZ, an LZ77 code with a hash table, in its variant for
  processors without 64-bit accesses.  A buffer is a function from offsets to bytes, so that an access outside of it is visible;
  pointers into a buffer are offsets.  \<open>code\<close> is the format: which byte strings stand for a piece of the input; the compressors
  are shown to write such a string, and the decompressors to give back the input from any such string.
\<close>

type_synonym bytes = "nat \<Rightarrow> 8 word"

subsection \<open>Memory\<close>

definition MAX_COPY :: nat where "MAX_COPY = 32"
definition MAX_LEN :: nat where "MAX_LEN = 264"
definition MAX_L1_DISTANCE :: nat where "MAX_L1_DISTANCE = 8192"
definition MAX_L2_DISTANCE :: nat where "MAX_L2_DISTANCE = 8191"
definition MAX_FARDISTANCE :: nat where "MAX_FARDISTANCE = 65535 + MAX_L2_DISTANCE - 1"
definition HASH_LOG :: nat where "HASH_LOG = 14"

text \<open>Copies between two buffers.\<close>

definition copy_bytes :: "bytes \<Rightarrow> nat \<Rightarrow> bytes \<Rightarrow> nat \<Rightarrow> nat \<Rightarrow> bytes" where
  "copy_bytes dest d src s count = (\<lambda>i. if d \<le> i \<and> i < d + count then src (s + (i - d)) else dest i)"

text \<open>\<open>flz_copy64\<close> copies eight bytes for each one of its count.\<close>

definition flz_copy64 :: "bytes \<Rightarrow> nat \<Rightarrow> bytes \<Rightarrow> nat \<Rightarrow> nat \<Rightarrow> bytes" where
  "flz_copy64 dest d src s count = copy_bytes dest d src s (count * 8)"

definition flz_copy256 :: "bytes \<Rightarrow> nat \<Rightarrow> bytes \<Rightarrow> nat \<Rightarrow> bytes" where
  "flz_copy256 dest d src s = copy_bytes dest d src s 32"

definition flz_smallcopy :: "bytes \<Rightarrow> nat \<Rightarrow> bytes \<Rightarrow> nat \<Rightarrow> nat \<Rightarrow> bytes" where
  "flz_smallcopy dest d src s count = copy_bytes dest d src s count"

text \<open>A copy within one buffer, byte after byte, so that a source that overlaps the destination is repeated.\<close>

fun copy_forward :: "bytes \<Rightarrow> nat \<Rightarrow> nat \<Rightarrow> nat \<Rightarrow> bytes" where
  "copy_forward mem dest src 0 = mem"
| "copy_forward mem dest src (Suc count) = copy_forward (mem(dest := mem src)) (Suc dest) (Suc src) count"

definition fastlz_memmove :: "bytes \<Rightarrow> nat \<Rightarrow> nat \<Rightarrow> nat \<Rightarrow> bytes" where
  "fastlz_memmove mem dest src count =
     (if 4 < count \<and> src + count \<le> dest then copy_bytes mem dest mem src count else copy_forward mem dest src count)"

definition flz_readu32 :: "bytes \<Rightarrow> nat \<Rightarrow> nat" where
  "flz_readu32 p i = unat (p (i + 3)) * 2 ^ 24 + unat (p (i + 2)) * 2 ^ 16 + unat (p (i + 1)) * 2 ^ 8 + unat (p i)"

text \<open>Three bytes; the next number is the mark of no match.\<close>

definition read24 :: "bytes \<Rightarrow> nat \<Rightarrow> nat" where "read24 p i = flz_readu32 p i mod 2 ^ 24"

definition flz_hash :: "nat \<Rightarrow> nat" where
  "flz_hash v = ((v * 2654435769) div 2 ^ (32 - HASH_LOG)) mod 2 ^ HASH_LOG"

text \<open>How many bytes agree, and one more for the first that does not.\<close>

function flz_cmp :: "bytes \<Rightarrow> nat \<Rightarrow> nat \<Rightarrow> nat \<Rightarrow> nat" where
  "flz_cmp mem p q r = (if q < r then if mem p \<noteq> mem q then 1 else Suc (flz_cmp mem (Suc p) (Suc q) r) else 0)"
  by pat_completeness auto
termination by (relation "measure (\<lambda>(_, _, q, r). r - q)") auto

declare flz_cmp.simps [simp del]

subsection \<open>Writing\<close>

text \<open>The output: its buffer and the offset \<open>op\<close> of the next byte.\<close>

definition put :: "8 word \<Rightarrow> bytes \<times> nat \<Rightarrow> bytes \<times> nat" where
  "put b out = ((fst out)(snd out := b), Suc (snd out))"

definition put_nat :: "nat \<Rightarrow> bytes \<times> nat \<Rightarrow> bytes \<times> nat" where
  "put_nat n = put (of_nat n)"

fun flz_literals :: "nat \<Rightarrow> bytes \<Rightarrow> nat \<Rightarrow> bytes \<times> nat \<Rightarrow> bytes \<times> nat" where
  "flz_literals runs src s out =
     (if MAX_COPY \<le> runs \<and> 0 < MAX_COPY
      then let (dest, op) = put_nat (MAX_COPY - 1) out
           in flz_literals (runs - MAX_COPY) src (s + MAX_COPY) (flz_copy256 dest op src s, op + MAX_COPY)
      else if 0 < runs then let (dest, op) = put_nat (runs - 1) out in (flz_copy64 dest op src s runs, op + runs)
      else out)"

fun flz_finalize :: "nat \<Rightarrow> bytes \<Rightarrow> nat \<Rightarrow> bytes \<times> nat \<Rightarrow> bytes \<times> nat" where
  "flz_finalize runs src s out =
     (if MAX_COPY \<le> runs \<and> 0 < MAX_COPY
      then let (dest, op) = put_nat (MAX_COPY - 1) out
           in flz_finalize (runs - MAX_COPY) src (s + MAX_COPY) (flz_smallcopy dest op src s MAX_COPY, op + MAX_COPY)
      else if 0 < runs then let (dest, op) = put_nat (runs - 1) out in (flz_smallcopy dest op src s runs, op + runs)
      else out)"

declare flz_literals.simps [simp del] flz_finalize.simps [simp del]

fun match1_long :: "nat \<Rightarrow> nat \<Rightarrow> bytes \<times> nat \<Rightarrow> nat \<times> bytes \<times> nat" where
  "match1_long len distance out =
     (if MAX_LEN - 2 < len \<and> 0 < MAX_LEN - 2
      then match1_long (len - (MAX_LEN - 2)) distance
        (put_nat (distance mod 256) (put_nat (MAX_LEN - 2 - 7 - 2) (put_nat (7 * 32 + distance div 256) out)))
      else (len, out))"

declare match1_long.simps [simp del]

definition flz1_match :: "nat \<Rightarrow> nat \<Rightarrow> bytes \<times> nat \<Rightarrow> bytes \<times> nat" where
  "flz1_match l away out =
     (let distance = away - 1; (len, out) = match1_long l distance out
      in if len < 7 then put_nat (distance mod 256) (put_nat (len * 32 + distance div 256) out)
         else put_nat (distance mod 256) (put_nat (len - 7) (put_nat (7 * 32 + distance div 256) out)))"

fun put_len :: "nat \<Rightarrow> bytes \<times> nat \<Rightarrow> bytes \<times> nat" where
  "put_len len out = (if 255 \<le> len then put_len (len - 255) (put_nat 255 out) else put_nat len out)"

declare put_len.simps [simp del]

definition flz2_match :: "nat \<Rightarrow> nat \<Rightarrow> bytes \<times> nat \<Rightarrow> bytes \<times> nat" where
  "flz2_match len away out =
     (let distance = away - 1
      in if distance < MAX_L2_DISTANCE
         then if len < 7 then put_nat (distance mod 256) (put_nat (len * 32 + distance div 256) out)
              else put_nat (distance mod 256) (put_len (len - 7) (put_nat (7 * 32 + distance div 256) out))
         else let far = distance - MAX_L2_DISTANCE
              in if len < 7
                 then put_nat (far mod 256) (put_nat (far div 256) (put_nat 255 (put_nat (len * 32 + 31) out)))
                 else put_nat (far mod 256) (put_nat (far div 256) (put_nat 255 (put_len (len - 7) (put_nat (7 * 32 + 31) out)))))"

subsection \<open>Compression\<close>

text \<open>The search for a place whose next three bytes occurred before: the place, the earlier one, and the hash table.  The limit
  is 13 bytes before the end.  The entries of the table are smaller than \<open>ip\<close>.\<close>

function find_match :: "nat \<Rightarrow> bytes \<Rightarrow> nat \<Rightarrow> nat \<Rightarrow> (nat \<Rightarrow> nat) \<Rightarrow> (nat \<times> nat \<times> (nat \<Rightarrow> nat)) option" where
  "find_match max_distance inp n ip htab =
     (let seq = read24 inp ip; hash = flz_hash seq; ref = htab hash; distance = ip - ref;
          cmp = (if distance < max_distance then read24 inp ref else 16777216)
      in if n \<le> ip + 13 then None
         else if seq \<noteq> cmp then find_match max_distance inp n (Suc ip) (htab(hash := ip))
         else if n \<le> Suc ip + 13 then None
         else Some (ip, ref, htab(hash := ip)))"
  by pat_completeness auto
termination by (relation "measure (\<lambda>(_, _, n, ip, _). n - ip)") auto

declare find_match.simps [simp del]

text \<open>After a match the two places before its end go into the table.\<close>

definition update_hash :: "bytes \<Rightarrow> nat \<Rightarrow> (nat \<Rightarrow> nat) \<Rightarrow> nat \<Rightarrow> nat" where
  "update_hash inp ip htab =
     htab(flz_hash (read24 inp ip) := ip, flz_hash (flz_readu32 inp ip div 2 ^ 8) := Suc ip)"

lemma find_match_ge: "find_match md inp n ip htab = Some (i, r, h) \<Longrightarrow> ip \<le> i \<and> i + 14 < n"
proof (induction "n - ip" arbitrary: ip htab rule: less_induct)
  case less
  have "find_match md inp n (Suc ip) h' = Some (i, r, h) \<Longrightarrow> n \<le> ip + 13 \<or> Suc ip \<le> i \<and> i + 14 < n" for h'
    using less.hyps [of "Suc ip" h'] by linarith
  then show ?case using less.prems
    by (fastforce simp: find_match.simps [of md inp n ip htab] Let_def split: if_splits)
qed

function compress1_loop :: "bytes \<Rightarrow> nat \<Rightarrow> nat \<Rightarrow> nat \<Rightarrow> (nat \<Rightarrow> nat) \<Rightarrow> bytes \<times> nat \<Rightarrow> nat \<times> bytes \<times> nat" where
  "compress1_loop inp n ip anchor htab out =
     (if ip + 13 < n
      then case find_match MAX_L1_DISTANCE inp n ip htab of
          None \<Rightarrow> (anchor, out)
        | Some (i, ref, htab') \<Rightarrow>
            let out1 = (if anchor < i then flz_literals (i - anchor) inp anchor out else out);
                len = flz_cmp inp (ref + 3) (i + 3) (n - 4); out2 = flz1_match len (i - ref) out1
            in compress1_loop inp n (i + len + 2) (i + len + 2) (update_hash inp (i + len) htab') out2
      else (anchor, out))"
  by pat_completeness auto
termination by (relation "measure (\<lambda>(_, n, ip, _). n - ip)") (auto dest!: find_match_ge)

definition fastlz1_compress :: "bytes \<Rightarrow> nat \<Rightarrow> bytes \<Rightarrow> bytes \<times> nat" where
  "fastlz1_compress inp n output =
     (let (anchor, out) = compress1_loop inp n 2 0 (\<lambda>_. 0) (output, 0) in flz_finalize (n - anchor) inp anchor out)"

text \<open>A match further away must be five bytes long.\<close>

function compress2_loop :: "bytes \<Rightarrow> nat \<Rightarrow> nat \<Rightarrow> nat \<Rightarrow> (nat \<Rightarrow> nat) \<Rightarrow> bytes \<times> nat \<Rightarrow> nat \<times> bytes \<times> nat" where
  "compress2_loop inp n ip anchor htab out =
     (if ip + 13 < n
      then case find_match MAX_FARDISTANCE inp n ip htab of
          None \<Rightarrow> (anchor, out)
        | Some (i, ref, htab') \<Rightarrow>
            if MAX_L2_DISTANCE \<le> i - ref \<and> (inp (ref + 3) \<noteq> inp (i + 3) \<or> inp (ref + 4) \<noteq> inp (i + 4))
            then compress2_loop inp n (Suc i) anchor htab' out
            else let out1 = (if anchor < i then flz_literals (i - anchor) inp anchor out else out);
                     len = flz_cmp inp (ref + 3) (i + 3) (n - 4); out2 = flz2_match len (i - ref) out1
                 in compress2_loop inp n (i + len + 2) (i + len + 2) (update_hash inp (i + len) htab') out2
      else (anchor, out))"
  by pat_completeness auto
termination by (relation "measure (\<lambda>(_, n, ip, _). n - ip)") (auto dest!: find_match_ge)

declare compress1_loop.simps [simp del] compress2_loop.simps [simp del]

definition fastlz2_compress :: "bytes \<Rightarrow> nat \<Rightarrow> bytes \<Rightarrow> bytes \<times> nat" where
  "fastlz2_compress inp n output =
     (let (anchor, out) = compress2_loop inp n 2 0 (\<lambda>_. 0) (output, 0); (mem, op) = flz_finalize (n - anchor) inp anchor out
      in (mem(0 := or (mem 0) (push_bit 5 1)), op))"

definition fastlz_compress :: "bytes \<Rightarrow> nat \<Rightarrow> bytes \<Rightarrow> bytes \<times> nat" where
  "fastlz_compress inp n output = (if n < 65536 then fastlz1_compress inp n output else fastlz2_compress inp n output)"

text \<open>\<open>output_tmp\<close>: the buffer that \<open>malloc\<close> gives, of \<open>n\<close> bytes; the result is the block that is kept.\<close>

definition fastlz_compress_malloc :: "bytes \<Rightarrow> nat \<Rightarrow> bytes \<Rightarrow> 8 word list" where
  "fastlz_compress_malloc inp n output_tmp = (let (mem, len) = fastlz_compress inp n output_tmp in map mem [0..<len])"

subsection \<open>Decompression\<close>

text \<open>The checks of \<open>FASTLZ_SAFE\<close> are compiled in; \<open>None\<close>: one of them failed, and the result is 0.\<close>

definition decompress1_step :: "bytes \<Rightarrow> nat \<Rightarrow> nat \<Rightarrow> nat \<Rightarrow> nat \<Rightarrow> bytes \<Rightarrow> nat \<Rightarrow> (nat \<times> bytes \<times> nat) option" where
  "decompress1_step inp n maxout ip ctrl mem op =
     (if 32 \<le> ctrl
      then let len = ctrl div 32 - 1; ofs = (ctrl mod 32) * 256
           in if len = 6 \<and> n < ip + 2 then None
              else let (len, ip) = (if len = 6 then (len + unat (inp ip), Suc ip) else (len, ip));
                       back = ofs + 1 + unat (inp ip); len = len + 3
                   in if maxout < op + len \<or> op < back then None
                      else Some (Suc ip, fastlz_memmove mem op (op - back) len, op + len)
      else let ctrl = Suc ctrl
           in if maxout < op + ctrl \<or> n < ip + ctrl then None
              else Some (ip + ctrl, copy_bytes mem op inp ip ctrl, op + ctrl))"

lemma decompress1_step_gt: "decompress1_step inp n maxout ip ctrl mem op = Some (ip', out) \<Longrightarrow> ip < ip'"
  by (auto simp: decompress1_step_def Let_def split: if_splits)

function decompress1_loop :: "bytes \<Rightarrow> nat \<Rightarrow> nat \<Rightarrow> nat \<Rightarrow> nat \<Rightarrow> bytes \<Rightarrow> nat \<Rightarrow> bytes \<times> nat" where
  "decompress1_loop inp n maxout ip ctrl mem op =
     (case decompress1_step inp n maxout ip ctrl mem op of
        None \<Rightarrow> (mem, 0)
      | Some (ip', mem', op') \<Rightarrow>
          if n < ip' + 2 then (mem', op') else decompress1_loop inp n maxout (Suc ip') (unat (inp ip')) mem' op')"
  by pat_completeness auto
termination by (relation "measure (\<lambda>(_, n, _, ip, _). n - ip)") (auto dest: decompress1_step_gt)

definition fastlz1_decompress :: "bytes \<Rightarrow> nat \<Rightarrow> bytes \<Rightarrow> nat \<Rightarrow> bytes \<times> nat" where
  "fastlz1_decompress inp n output maxout = decompress1_loop inp n maxout 1 (unat (inp 0) mod 32) output 0"

text \<open>The length of a match goes on as long as its bytes are 255.\<close>

function read_len :: "bytes \<Rightarrow> nat \<Rightarrow> nat \<Rightarrow> nat \<Rightarrow> (nat \<times> nat) option" where
  "read_len inp n ip len =
     (if ip + 2 \<le> n
      then let code = unat (inp ip) in if code = 255 then read_len inp n (Suc ip) (len + code) else Some (Suc ip, len + code)
      else None)"
  by pat_completeness auto
termination by (relation "measure (\<lambda>(_, n, ip, _). n - ip)") auto

declare read_len.simps [simp del] decompress1_loop.simps [simp del]

lemma read_len_gt: "read_len inp n ip len = Some (ip', len') \<Longrightarrow> ip < ip'"
proof (induction "n - ip" arbitrary: ip len rule: less_induct)
  case less
  have "read_len inp n (Suc ip) l = Some (ip', len') \<Longrightarrow> n < ip + 2 \<or> Suc ip < ip'" for l
    using less.hyps [of "Suc ip" l] by linarith
  then show ?case using less.prems
    by (fastforce simp: read_len.simps [of inp n ip len] Let_def split: if_splits)
qed

definition decompress2_step :: "bytes \<Rightarrow> nat \<Rightarrow> nat \<Rightarrow> nat \<Rightarrow> nat \<Rightarrow> bytes \<Rightarrow> nat \<Rightarrow> (nat \<times> bytes \<times> nat) option" where
  "decompress2_step inp n maxout ip ctrl mem op =
     (if 32 \<le> ctrl
      then let len = ctrl div 32 - 1; ofs = (ctrl mod 32) * 256
           in case (if len = 6 then read_len inp n ip len else Some (ip, len)) of
                None \<Rightarrow> None
              | Some (ip, len) \<Rightarrow>
                  let code = unat (inp ip); ip = Suc ip; len = len + 3; far = code = 255 \<and> ofs = 31 * 256
                  in if far \<and> n \<le> ip + 2 then None
                     else let (back, ip) =
                            (if far then (unat (inp ip) * 256 + unat (inp (Suc ip)) + MAX_L2_DISTANCE + 1, ip + 2)
                             else (ofs + 1 + code, ip))
                          in if maxout < op + len \<or> op < back then None
                             else Some (ip, fastlz_memmove mem op (op - back) len, op + len)
      else let ctrl = Suc ctrl
           in if maxout < op + ctrl \<or> n < ip + ctrl then None
              else Some (ip + ctrl, copy_bytes mem op inp ip ctrl, op + ctrl))"

lemma decompress2_step_gt: "decompress2_step inp n maxout ip ctrl mem op = Some (ip', out) \<Longrightarrow> ip < ip'"
  by (auto simp: decompress2_step_def Let_def split: if_splits option.splits dest: read_len_gt)

function decompress2_loop :: "bytes \<Rightarrow> nat \<Rightarrow> nat \<Rightarrow> nat \<Rightarrow> nat \<Rightarrow> bytes \<Rightarrow> nat \<Rightarrow> bytes \<times> nat" where
  "decompress2_loop inp n maxout ip ctrl mem op =
     (case decompress2_step inp n maxout ip ctrl mem op of
        None \<Rightarrow> (mem, 0)
      | Some (ip', mem', op') \<Rightarrow>
          if n \<le> ip' then (mem', op') else decompress2_loop inp n maxout (Suc ip') (unat (inp ip')) mem' op')"
  by pat_completeness auto
termination by (relation "measure (\<lambda>(_, n, _, ip, _). n - ip)") (auto dest: decompress2_step_gt)

declare decompress2_loop.simps [simp del]

definition fastlz2_decompress :: "bytes \<Rightarrow> nat \<Rightarrow> bytes \<Rightarrow> nat \<Rightarrow> bytes \<times> nat" where
  "fastlz2_decompress inp n output maxout = decompress2_loop inp n maxout 1 (unat (inp 0) mod 32) output 0"

definition fastlz_decompress :: "bytes \<Rightarrow> nat \<Rightarrow> bytes \<Rightarrow> nat \<Rightarrow> bytes \<times> nat" where
  "fastlz_decompress inp n output maxout =
     (let level = unat (inp 0) div 32 + 1
      in if level = 1 then fastlz1_decompress inp n output maxout
         else if level = 2 then fastlz2_decompress inp n output maxout
         else (output, 0))"

subsection \<open>The format\<close>

text \<open>A match of \<open>len + 2\<close> bytes at distance \<open>d\<close>, at both levels.\<close>

fun len_code :: "nat \<Rightarrow> nat list" where
  "len_code len = (if 255 \<le> len then 255 # len_code (len - 255) else [len])"

declare len_code.simps [simp del]

definition match_code :: "bool \<Rightarrow> nat \<Rightarrow> nat \<Rightarrow> 8 word list" where
  "match_code two len d =
     (let e = d - 1; far = e - MAX_L2_DISTANCE; h = (if len < 7 then len else 7) * 32; ls = (if len < 7 then [] else if two then len_code (len - 7) else [len - 7])
      in map of_nat (if two \<and> MAX_L2_DISTANCE \<le> e then [h + 31] @ ls @ [255, far div 256, far mod 256] else [h + e div 256] @ ls @ [e mod 256]))"

definition match_ok :: "bool \<Rightarrow> nat \<Rightarrow> nat \<Rightarrow> bool" where
  "match_ok two len d \<longleftrightarrow> 0 < len \<and> 0 < d \<and> (if two then d < MAX_FARDISTANCE else d < MAX_L1_DISTANCE \<and> len \<le> MAX_LEN - 2)"

text \<open>\<open>code two inp n i j cs\<close>: the bytes \<open>cs\<close> stand for the bytes of the input from \<open>i\<close> to \<open>j\<close>.  A match does not reach the end.\<close>

inductive code :: "bool \<Rightarrow> bytes \<Rightarrow> nat \<Rightarrow> nat \<Rightarrow> nat \<Rightarrow> 8 word list \<Rightarrow> bool" for two inp n where
  code_end: "code two inp n i i []"
| code_lit: "0 < k \<Longrightarrow> k \<le> MAX_COPY \<Longrightarrow> i + k \<le> n \<Longrightarrow> code two inp n (i + k) j cs \<Longrightarrow>
    code two inp n i j (of_nat (k - 1) # map inp [i..<i + k] @ cs)"
| code_match: "match_ok two len d \<Longrightarrow> d \<le> i \<Longrightarrow> i + len + 2 < n \<Longrightarrow>
    \<forall>q. i \<le> q \<and> q < i + len + 2 \<longrightarrow> inp q = inp (q - d) \<Longrightarrow> code two inp n (i + len + 2) j cs \<Longrightarrow>
    code two inp n i j (match_code two len d @ cs)"

lemma code_append: "code two inp n i j as \<Longrightarrow> code two inp n j k bs \<Longrightarrow> code two inp n i k (as @ bs)"
proof (induction rule: code.induct)
  case (code_lit c i j cs)
  then show ?case using code.code_lit [of c i n two inp k "cs @ bs"] by simp
next
  case (code_match len d i j cs)
  then show ?case using code.code_match [of two len d i n inp k "cs @ bs"] by simp
qed simp

lemma code_one_match:
  "match_ok two len d \<Longrightarrow> d \<le> i \<Longrightarrow> i + len + 2 < n \<Longrightarrow> \<forall>q. i \<le> q \<and> q < i + len + 2 \<longrightarrow> inp q = inp (q - d) \<Longrightarrow>
    code two inp n i (i + len + 2) (match_code two len d)"
  using code_match [of two len d i n inp "i + len + 2" "[]"] by (simp add: code_end)

lemma code_length: "code two inp n i j cs \<Longrightarrow> i \<le> j \<and> (i < j \<longrightarrow> 2 \<le> length cs)"
  by (induction rule: code.induct) (auto simp: match_code_def Let_def)

subsection \<open>The compressors write it\<close>

abbreviation written :: "bytes \<times> nat \<Rightarrow> 8 word list" where
  "written out \<equiv> map (fst out) [0..<snd out]"

lemma written_put [simp]: "written (put b out) = written out @ [b]"
  by (simp add: put_def)

lemma written_put_nat [simp]: "written (put_nat m out) = written out @ [of_nat m]"
  by (simp add: put_nat_def)

text \<open>What is copied behind the end of the output is kept out of it by \<open>op\<close>, and overwritten.\<close>

lemma written_copy: "k \<le> count \<Longrightarrow> written (copy_bytes dest p src s count, p + k) = written (dest, p) @ map src [s..<s + k]"
proof -
  assume "k \<le> count"
  then have "map (copy_bytes dest p src s count) [p..<p + k] = map src [s..<s + k]"
    by (intro nth_equalityI) (simp_all add: copy_bytes_def)
  moreover have "map (copy_bytes dest p src s count) [0..<p] = map dest [0..<p]" by (simp add: copy_bytes_def)
  moreover have "[0..<p + k] = [0..<p] @ [p..<p + k]" by (rule upt_add_eq_append) simp
  ultimately show ?thesis by (simp only: fst_conv snd_conv map_append)
qed

lemma code_one_lit:
  "0 < k \<Longrightarrow> k \<le> MAX_COPY \<Longrightarrow> s + k \<le> n \<Longrightarrow> code two inp n s (s + k) (of_nat (k - 1) # map inp [s..<s + k])"
  using code_lit [of k s n two inp "s + k" "[]"] by (simp add: code_end)

text \<open>Both ways to write literals: the second copy only differs in what it writes behind the end.\<close>

lemma written_run:
  assumes "0 < k" "k \<le> count"
  shows "written (copy_bytes (fst (put_nat (k - 1) out)) (snd (put_nat (k - 1) out)) src s count, snd (put_nat (k - 1) out) + k) =
    written out @ of_nat (k - 1) # map src [s..<s + k]"
  using written_copy [OF assms(2), of "fst (put_nat (k - 1) out)" "snd (put_nat (k - 1) out)" src s] by simp

lemma written_literals:
  "s + runs \<le> n \<Longrightarrow> \<exists>cs. written (flz_literals runs inp s out) = written out @ cs \<and> code two inp n s (s + runs) cs"
proof (induction runs inp s out rule: flz_literals.induct)
  case (1 runs src s out)
  let ?o = "put_nat (MAX_COPY - 1) out"
  show ?case
  proof (cases "MAX_COPY \<le> runs")
    case True
    let ?o' = "(flz_copy256 (fst ?o) (snd ?o) src s, snd ?o + MAX_COPY)"
    have "\<exists>cs. written (flz_literals (runs - MAX_COPY) src (s + MAX_COPY) ?o') = written ?o' @ cs \<and>
        code two src n (s + MAX_COPY) (s + MAX_COPY + (runs - MAX_COPY)) cs"
      using 1 True by (intro "1.IH" [OF _ refl]) (auto simp: MAX_COPY_def)
    then obtain cs where cs: "written (flz_literals (runs - MAX_COPY) src (s + MAX_COPY) ?o') = written ?o' @ cs"
      "code two src n (s + MAX_COPY) (s + runs) cs" using True by auto
    have "written ?o' = written out @ of_nat (MAX_COPY - 1) # map src [s..<s + MAX_COPY]"
      using written_run [of MAX_COPY 32 out src s] by (simp add: flz_copy256_def MAX_COPY_def)
    moreover have "code two src n s (s + MAX_COPY) (of_nat (MAX_COPY - 1) # map src [s..<s + MAX_COPY])"
      using "1.prems" True by (intro code_one_lit) (simp_all add: MAX_COPY_def)
    ultimately show ?thesis using cs True code_append
      by (simp add: flz_literals.simps [of runs] case_prod_unfold Let_def MAX_COPY_def)
        (metis append_assoc append_Cons)
  next
    case False
    then show ?thesis
      using "1.prems" written_run [of runs "runs * 8" out src s] code_one_lit [of runs s n two src]
      by (auto simp: flz_literals.simps [of runs] case_prod_unfold Let_def flz_copy64_def code_end)
  qed
qed

lemma written_finalize:
  "s + runs \<le> n \<Longrightarrow> \<exists>cs. written (flz_finalize runs inp s out) = written out @ cs \<and> code two inp n s (s + runs) cs"
proof (induction runs inp s out rule: flz_finalize.induct)
  case (1 runs src s out)
  let ?o = "put_nat (MAX_COPY - 1) out"
  show ?case
  proof (cases "MAX_COPY \<le> runs")
    case True
    let ?o' = "(flz_smallcopy (fst ?o) (snd ?o) src s MAX_COPY, snd ?o + MAX_COPY)"
    have "\<exists>cs. written (flz_finalize (runs - MAX_COPY) src (s + MAX_COPY) ?o') = written ?o' @ cs \<and>
        code two src n (s + MAX_COPY) (s + MAX_COPY + (runs - MAX_COPY)) cs"
      using 1 True by (intro "1.IH" [OF _ refl]) (auto simp: MAX_COPY_def)
    then obtain cs where cs: "written (flz_finalize (runs - MAX_COPY) src (s + MAX_COPY) ?o') = written ?o' @ cs"
      "code two src n (s + MAX_COPY) (s + runs) cs" using True by auto
    have "written ?o' = written out @ of_nat (MAX_COPY - 1) # map src [s..<s + MAX_COPY]"
      using written_run [of MAX_COPY MAX_COPY out src s] by (simp add: flz_smallcopy_def MAX_COPY_def)
    moreover have "code two src n s (s + MAX_COPY) (of_nat (MAX_COPY - 1) # map src [s..<s + MAX_COPY])"
      using "1.prems" True by (intro code_one_lit) (simp_all add: MAX_COPY_def)
    ultimately show ?thesis using cs True code_append
      by (simp add: flz_finalize.simps [of runs] case_prod_unfold Let_def MAX_COPY_def)
        (metis append_assoc append_Cons)
  next
    case False
    then show ?thesis
      using "1.prems" written_run [of runs runs out src s] code_one_lit [of runs s n two src]
      by (auto simp: flz_finalize.simps [of runs] case_prod_unfold Let_def flz_smallcopy_def code_end)
  qed
qed


lemma byte_unat: "unat (b :: 8 word) < 256"
proof -
  have "unat b < 2 ^ LENGTH(8)" by (rule unsigned_less)
  then show ?thesis by simp
qed

lemma digit: "a < 256 \<Longrightarrow> b < 256 \<Longrightarrow> p * 256 + a = q * 256 + b \<Longrightarrow> p = q \<and> a = (b :: nat)"
proof -
  assume "a < 256" "b < 256" "p * 256 + a = q * 256 + b"
  moreover have "(p * 256 + a) div 256 = p \<and> (p * 256 + a) mod 256 = a" "(q * 256 + b) div 256 = q \<and> (q * 256 + b) mod 256 = b"
    using \<open>a < 256\<close> \<open>b < 256\<close> by simp_all
  ultimately show ?thesis by metis
qed

lemma digits3:
  assumes "x < 256" "y < 256" "z < 256" "x' < 256" "y' < 256" "z' < (256 :: nat)"
    and "x * 65536 + y * 256 + z = x' * 65536 + y' * 256 + z'"
  shows "x = x' \<and> y = y' \<and> z = z'"
proof -
  have "(x * 256 + y) * 256 + z = (x' * 256 + y') * 256 + z'" using assms(7) by simp
  then have "x * 256 + y = x' * 256 + y'" "z = z'" using digit [OF assms(3,6)] by blast+
  then show ?thesis using digit [OF assms(2,5)] by blast
qed

lemma read24_bytes: "read24 inp i = unat (inp (i + 2)) * 65536 + unat (inp (i + 1)) * 256 + unat (inp i)"
proof -
  let ?r = "unat (inp (i + 2)) * 65536 + unat (inp (i + 1)) * 256 + unat (inp i)"
  have "flz_readu32 inp i = unat (inp (i + 3)) * 2 ^ 24 + ?r" by (simp add: flz_readu32_def)
  moreover have "?r < 2 ^ 24"
    using byte_unat [of "inp i"] byte_unat [of "inp (i + 1)"] byte_unat [of "inp (i + 2)"] by simp
  ultimately show ?thesis unfolding read24_def by (simp only: mod_mult_self3 mod_less)
qed

lemma read24_eq:
  "read24 inp i = read24 inp r \<Longrightarrow> inp i = inp r \<and> inp (i + 1) = inp (r + 1) \<and> inp (i + 2) = inp (r + 2)"
proof -
  assume "read24 inp i = read24 inp r"
  then show ?thesis using digits3 [OF byte_unat byte_unat byte_unat byte_unat byte_unat byte_unat] unfolding read24_bytes by (metis word_unat_eq_iff)
qed

lemma flz_cmp_spec:
  "flz_cmp mem p q r = c \<Longrightarrow> (q < r \<longrightarrow> 0 < c) \<and> q + c \<le> max q r \<and> (\<forall>k. k + 1 < c \<longrightarrow> mem (p + k) = mem (q + k))"
proof (induction mem p q r arbitrary: c rule: flz_cmp.induct)
  case (1 mem p q r)
  show ?case
  proof (cases "q < r \<and> mem p = mem q")
    case True
    then obtain c' where c: "c = Suc c'" "flz_cmp mem (Suc p) (Suc q) r = c'"
      using "1.prems" by (auto simp: flz_cmp.simps [of mem p q r])
    have ih: "Suc q + c' \<le> max (Suc q) r" "\<forall>k. k + 1 < c' \<longrightarrow> mem (Suc p + k) = mem (Suc q + k)"
      using "1.IH" [OF _ _ c(2)] True by auto
    have "mem (p + k) = mem (q + k)" if "k + 1 < c" for k
      using that ih(2) True c(1) by (cases k) auto
    then show ?thesis using ih(1) True c(1) by auto
  next
    case False
    then show ?thesis using "1.prems" by (auto simp: flz_cmp.simps [of mem p q r] split: if_splits)
  qed
qed

text \<open>The hash table only has places before; what is found there has the same three bytes, at a distance that can be written.\<close>

lemma find_match_spec:
  "find_match md inp n ip htab = Some (i, r, h) \<Longrightarrow> \<forall>x. htab x < ip \<Longrightarrow>
    ip \<le> i \<and> i + 14 < n \<and> r < i \<and> i - r < md \<and> (\<forall>k<3. inp (r + k) = inp (i + k)) \<and> (\<forall>x. h x \<le> i)"
proof (induction "n - ip" arbitrary: ip htab rule: less_induct)
  case less
  let ?seq = "read24 inp ip"
  let ?ref = "htab (flz_hash ?seq)"
  let ?h = "htab(flz_hash ?seq := ip)"
  have lim: "ip + 13 < n" using find_match_ge [OF less.prems(1)] by linarith
  show ?case
  proof (cases "?seq = (if ip - ?ref < md then read24 inp ?ref else 16777216)")
    case False
    then have "find_match md inp n (Suc ip) ?h = Some (i, r, h)"
      using less.prems(1) lim by (simp add: find_match.simps [of md inp n ip htab] Let_def)
    moreover have "\<forall>x. ?h x < Suc ip" using less.prems(2) by (auto intro: less_SucI)
    moreover have "n - Suc ip < n - ip" using lim by simp
    ultimately have "Suc ip \<le> i \<and> i + 14 < n \<and> r < i \<and> i - r < md \<and> (\<forall>k<3. inp (r + k) = inp (i + k)) \<and> (\<forall>x. h x \<le> i)"
      using less.hyps [of "Suc ip" ?h] by blast
    then show ?thesis by simp
  next
    case True
    have "?seq < 16777216" by (simp add: read24_def)
    then have near: "ip - ?ref < md" "?seq = read24 inp ?ref" using True by (auto split: if_splits)
    then have "i = ip" "r = ?ref" "h = ?h" "ip + 14 < n"
      using less.prems(1) lim by (auto simp: find_match.simps [of md inp n ip htab] Let_def split: if_splits)
    moreover have "inp (?ref + k) = inp (ip + k)" if "k < 3" for k
      using read24_eq [OF near(2)] that by (auto simp: less_Suc_eq numeral_3_eq_3)
    ultimately show ?thesis using near(1) less.prems(2) by (auto intro: less_imp_le)
  qed
qed

text \<open>Three equal bytes and what \<open>flz_cmp\<close> counts behind them are a match.\<close>

lemma match_found:
  assumes "\<forall>k<3. inp (r + k) = inp (i + k)" "r < i" "i + 14 < n" "len = flz_cmp inp (r + 3) (i + 3) (n - 4)"
  shows "0 < len" "i + len + 2 < n" "\<forall>q. i \<le> q \<and> q < i + len + 2 \<longrightarrow> inp q = inp (q - (i - r))"
proof -
  note c = flz_cmp_spec [OF assms(4) [symmetric]]
  show "0 < len" "i + len + 2 < n" using c assms(3) by auto
  show "\<forall>q. i \<le> q \<and> q < i + len + 2 \<longrightarrow> inp q = inp (q - (i - r))"
  proof (intro allI impI)
    fix q
    assume q: "i \<le> q \<and> q < i + len + 2"
    have shift: "q - (i - r) = r + (q - i)" using q assms(2) by simp
    show "inp q = inp (q - (i - r))"
    proof (cases "q - i < 3")
      case True
      then show ?thesis using assms(1) q unfolding shift by (metis le_add_diff_inverse)
    next
      case False
      have "q - i - 3 + 1 < len" using q False by linarith
      then have "inp (r + 3 + (q - i - 3)) = inp (i + 3 + (q - i - 3))" using c by blast
      moreover have "r + 3 + (q - i - 3) = r + (q - i)" "i + 3 + (q - i - 3) = q" using q False by auto
      ultimately show ?thesis unfolding shift by simp
    qed
  qed
qed

lemma match1_code_written:
  assumes "0 < len" "len \<le> MAX_LEN - 2"
  shows "written (if len < 7 then put_nat ((d - 1) mod 256) (put_nat (len * 32 + (d - 1) div 256) out)
      else put_nat ((d - 1) mod 256) (put_nat (len - 7) (put_nat (7 * 32 + (d - 1) div 256) out))) =
    written out @ match_code False len d"
  by (simp add: match_code_def Let_def)

lemma match1_long_code:
  "match1_long len (d - 1) out = (len', out') \<Longrightarrow> 0 < len \<Longrightarrow> 0 < d \<Longrightarrow> d \<le> i \<Longrightarrow> d < MAX_L1_DISTANCE \<Longrightarrow> i + len + 2 < n \<Longrightarrow>
    \<forall>q. i \<le> q \<and> q < i + len + 2 \<longrightarrow> inp q = inp (q - d) \<Longrightarrow>
    \<exists>cs. written out' = written out @ cs \<and> 0 < len' \<and> len' \<le> MAX_LEN - 2 \<and> len' \<le> len \<and> code False inp n i (i + (len - len')) cs"
proof (induction len "d - 1" out arbitrary: i rule: match1_long.induct)
  case (1 len out)
  show ?case
  proof (cases "MAX_LEN - 2 < len")
    case True
    let ?o = "put_nat ((d - 1) mod 256) (put_nat (MAX_LEN - 2 - 7 - 2) (put_nat (7 * 32 + (d - 1) div 256) out))"
    have l: "match1_long (len - 262) (d - 1) ?o = (len', out')"
      using "1.prems"(1) True by (simp add: match1_long.simps [of len] MAX_LEN_def)
    obtain cs where cs: "written out' = written ?o @ cs" "0 < len'" "len' \<le> MAX_LEN - 2" "len' \<le> len - 262"
      "code False inp n (i + 262) (i + 262 + (len - 262 - len')) cs"
      using "1.hyps" [of "i + 262"] l "1.prems" True by (fastforce simp: MAX_LEN_def)
    have "code False inp n i (i + 260 + 2) (match_code False 260 d)"
      using "1.prems" True by (intro code_one_match) (auto simp: match_ok_def MAX_LEN_def)
    moreover have "i + 260 + 2 = i + 262" by simp
    ultimately have "code False inp n i (i + 262) (match_code False 260 d)" by (simp only:)
    moreover have "i + 262 + (len - 262 - len') = i + (len - len')" using cs(4) True by (simp add: MAX_LEN_def)
    ultimately have "code False inp n i (i + (len - len')) (match_code False 260 d @ cs)"
      using cs(5) code_append by metis
    moreover have "written ?o = written out @ match_code False 260 d" by (simp add: match_code_def MAX_LEN_def Let_def)
    ultimately show ?thesis using cs by (intro exI [of _ "match_code False 260 d @ cs"]) simp
  next
    case False
    then show ?thesis using "1.prems" by (auto simp: match1_long.simps [of len] code_end)
  qed
qed

lemma written_match1:
  assumes "0 < len" "0 < d" "d \<le> i" "d < MAX_L1_DISTANCE" "i + len + 2 < n"
    and "\<forall>q. i \<le> q \<and> q < i + len + 2 \<longrightarrow> inp q = inp (q - d)"
  shows "\<exists>cs. written (flz1_match len d out) = written out @ cs \<and> code False inp n i (i + len + 2) cs"
proof -
  obtain len' out' where l: "match1_long len (d - 1) out = (len', out')" by (cases "match1_long len (d - 1) out")
  obtain cs where cs: "written out' = written out @ cs" "0 < len'" "len' \<le> MAX_LEN - 2" "len' \<le> len"
    "code False inp n i (i + (len - len')) cs"
    using match1_long_code [OF l assms] by blast
  let ?j = "i + (len - len')"
  have "code False inp n ?j (?j + len' + 2) (match_code False len' d)"
    using assms cs by (intro code_one_match) (auto simp: match_ok_def)
  moreover have "?j + len' + 2 = i + len + 2" using cs(4) by simp
  ultimately have "code False inp n i (i + len + 2) (cs @ match_code False len' d)" using cs(5) code_append by metis
  moreover have "written (flz1_match len d out) = written out' @ match_code False len' d"
    unfolding flz1_match_def Let_def l prod.case by (rule match1_code_written [OF cs(2,3)])
  ultimately show ?thesis using cs(1) by (intro exI [of _ "cs @ match_code False len' d"]) simp
qed

lemma written_len: "written (put_len len out) = written out @ map of_nat (len_code len)"
proof (induction len out rule: put_len.induct)
  case (1 len out)
  then show ?case by (simp add: put_len.simps [of len out] len_code.simps [of len])
qed

lemma written_match2: "written (flz2_match len d out) = written out @ match_code True len d"
  by (cases "len < 7"; cases "d - 1 < MAX_L2_DISTANCE")
    (simp_all add: flz2_match_def match_code_def Let_def written_len)



lemma written_literals_if:
  assumes "code two inp n 0 anchor (written out)" "anchor \<le> i" "i \<le> n"
  shows "code two inp n 0 i (written (if anchor < i then flz_literals (i - anchor) inp anchor out else out))"
proof (cases "anchor < i")
  case True
  obtain cs where "written (flz_literals (i - anchor) inp anchor out) = written out @ cs"
    "code two inp n anchor (anchor + (i - anchor)) cs"
    using written_literals [of anchor "i - anchor" n inp out two] assms by auto
  then show ?thesis using True assms(1) by (simp add: code_append)
qed (use assms in simp)

lemma update_hash_bound: "\<forall>x. h x \<le> i \<Longrightarrow> i \<le> p \<Longrightarrow> \<forall>x. update_hash inp p h x < p + 2"
  by (auto simp: update_hash_def intro: le_less_trans)

text \<open>The main loops keep: what is written is the code of the input up to the anchor.\<close>

lemma compress1_loop_code:
  "compress1_loop inp n ip anchor htab out = (anchor', out') \<Longrightarrow> \<forall>x. htab x < ip \<Longrightarrow> anchor \<le> ip \<Longrightarrow> anchor < n \<Longrightarrow>
    code False inp n 0 anchor (written out) \<Longrightarrow> anchor' < n \<and> code False inp n 0 anchor' (written out')"
proof (induction inp n ip anchor htab out rule: compress1_loop.induct)
  case (1 inp n ip anchor htab out)
  show ?case
  proof (cases "if ip + 13 < n then find_match MAX_L1_DISTANCE inp n ip htab else None")
    case None
    then show ?thesis using "1.prems" by (auto simp: compress1_loop.simps [of inp n ip] split: if_splits)
  next
    case (Some m)
    then obtain i ref h where f: "ip + 13 < n" "find_match MAX_L1_DISTANCE inp n ip htab = Some (i, ref, h)"
      by (cases m) (auto split: if_splits)
    note s = find_match_spec [OF f(2) "1.prems"(2)]
    define out1 len where "out1 = (if anchor < i then flz_literals (i - anchor) inp anchor out else out)"
      and "len = flz_cmp inp (ref + 3) (i + 3) (n - 4)"
    have m: "0 < len" "i + len + 2 < n" "\<forall>q. i \<le> q \<and> q < i + len + 2 \<longrightarrow> inp q = inp (q - (i - ref))"
      using match_found [of inp ref i n len] s len_def by blast+
    obtain cs where cs: "written (flz1_match len (i - ref) out1) = written out1 @ cs" "code False inp n i (i + len + 2) cs"
      using written_match1 [of len "i - ref" i n inp out1] m s by auto
    have "code False inp n 0 i (written out1)"
      unfolding out1_def using "1.prems" s by (intro written_literals_if) auto
    then have "code False inp n 0 (i + len + 2) (written (flz1_match len (i - ref) out1))"
      unfolding cs(1) using cs(2) by (rule code_append)
    moreover have "\<forall>x. update_hash inp (i + len) h x < i + len + 2" using s by (intro update_hash_bound [of h i]) auto
    moreover have "compress1_loop inp n (i + len + 2) (i + len + 2) (update_hash inp (i + len) h) (flz1_match len (i - ref) out1) =
        (anchor', out')"
      using "1.prems"(1) f by (simp add: compress1_loop.simps [of inp n ip] Let_def out1_def len_def)
    ultimately show ?thesis
      using "1.IH" [OF f refl refl out1_def len_def refl] m(2) by blast
  qed
qed

lemma compress2_loop_code:
  "compress2_loop inp n ip anchor htab out = (anchor', out') \<Longrightarrow> \<forall>x. htab x < ip \<Longrightarrow> anchor \<le> ip \<Longrightarrow> anchor < n \<Longrightarrow>
    code True inp n 0 anchor (written out) \<Longrightarrow> anchor' < n \<and> code True inp n 0 anchor' (written out')"
proof (induction inp n ip anchor htab out rule: compress2_loop.induct)
  case (1 inp n ip anchor htab out)
  show ?case
  proof (cases "if ip + 13 < n then find_match MAX_FARDISTANCE inp n ip htab else None")
    case None
    then show ?thesis using "1.prems" by (auto simp: compress2_loop.simps [of inp n ip] split: if_splits)
  next
    case (Some m)
    then obtain i ref h where f: "ip + 13 < n" "find_match MAX_FARDISTANCE inp n ip htab = Some (i, ref, h)"
      by (cases m) (auto split: if_splits)
    note s = find_match_spec [OF f(2) "1.prems"(2)]
    let ?skip = "MAX_L2_DISTANCE \<le> i - ref \<and> (inp (ref + 3) \<noteq> inp (i + 3) \<or> inp (ref + 4) \<noteq> inp (i + 4))"
    show ?thesis
    proof (cases ?skip)
      case True
      have "compress2_loop inp n (Suc i) anchor h out = (anchor', out')"
        using "1.prems"(1) f True by (simp add: compress2_loop.simps [of inp n ip])
      moreover have "\<forall>x. h x < Suc i" using s by (auto intro: le_imp_less_Suc)
      ultimately show ?thesis using "1.IH"(1) [OF f refl refl True] "1.prems" s by simp
    next
      case False
      define out1 len where "out1 = (if anchor < i then flz_literals (i - anchor) inp anchor out else out)"
        and "len = flz_cmp inp (ref + 3) (i + 3) (n - 4)"
      have m: "0 < len" "i + len + 2 < n" "\<forall>q. i \<le> q \<and> q < i + len + 2 \<longrightarrow> inp q = inp (q - (i - ref))"
        using match_found [of inp ref i n len] s len_def by blast+
      have "code True inp n i (i + len + 2) (match_code True len (i - ref))"
        using m s by (intro code_one_match) (auto simp: match_ok_def)
      moreover have "code True inp n 0 i (written out1)"
        unfolding out1_def using "1.prems" s by (intro written_literals_if) auto
      ultimately have "code True inp n 0 (i + len + 2) (written (flz2_match len (i - ref) out1))"
        unfolding written_match2 by (metis code_append)
      moreover have "\<forall>x. update_hash inp (i + len) h x < i + len + 2" using s by (intro update_hash_bound [of h i]) auto
      moreover have "compress2_loop inp n (i + len + 2) (i + len + 2) (update_hash inp (i + len) h) (flz2_match len (i - ref) out1) =
          (anchor', out')"
        using "1.prems"(1) f(1)
        by (simp only: compress2_loop.simps [of inp n ip anchor htab out] f(2) if_True if_not_P [OF False] option.case prod.case
            Let_def out1_def len_def)
      ultimately show ?thesis
        using "1.IH"(2) [OF f refl refl False out1_def len_def refl] m(2) by blast
    qed
  qed
qed

lemma finalize_code:
  assumes "anchor < n" "code two inp n 0 anchor (written out)"
  shows "code two inp n 0 n (written (flz_finalize (n - anchor) inp anchor out))"
proof -
  obtain cs where "written (flz_finalize (n - anchor) inp anchor out) = written out @ cs" "code two inp n anchor (anchor + (n - anchor)) cs"
    using written_finalize [of anchor "n - anchor" n inp out two] assms by auto
  then show ?thesis using assms by (simp add: code_append)
qed

lemma compress1_code: "0 < n \<Longrightarrow> code False inp n 0 n (written (fastlz1_compress inp n output))"
proof -
  assume n: "0 < n"
  obtain anchor out where l: "compress1_loop inp n 2 0 (\<lambda>_. 0) (output, 0) = (anchor, out)"
    by (cases "compress1_loop inp n 2 0 (\<lambda>_. 0) (output, 0)")
  have "anchor < n \<and> code False inp n 0 anchor (written out)"
    using compress1_loop_code [OF l] n code_end [of False inp n 0] by simp
  then show ?thesis unfolding fastlz1_compress_def l Let_def prod.case by (intro finalize_code) auto
qed

text \<open>At the second level the first byte has the mark besides.\<close>

lemma compress2_code:
  assumes "0 < n" "fastlz2_compress inp n output = (mem, op)"
  shows "\<exists>mem'. code True inp n 0 n (map mem' [0..<op]) \<and> mem = mem'(0 := or (mem' 0) (push_bit 5 1))"
proof -
  obtain anchor out where l: "compress2_loop inp n 2 0 (\<lambda>_. 0) (output, 0) = (anchor, out)"
    by (cases "compress2_loop inp n 2 0 (\<lambda>_. 0) (output, 0)")
  have "anchor < n \<and> code True inp n 0 anchor (written out)"
    using compress2_loop_code [OF l] assms code_end [of True inp n 0] by simp
  then have "code True inp n 0 n (written (flz_finalize (n - anchor) inp anchor out))" by (intro finalize_code) auto
  then show ?thesis
    using assms(2) unfolding fastlz2_compress_def l Let_def prod.case
    by (cases "flz_finalize (n - anchor) inp anchor out") auto
qed


subsection \<open>The decompressors read it\<close>

lemma copy_forward_match:
  "\<forall>q<i. mem q = inp q \<Longrightarrow> 0 < d \<Longrightarrow> d \<le> i \<Longrightarrow> \<forall>q. i \<le> q \<and> q < i + l \<longrightarrow> inp q = inp (q - d) \<Longrightarrow>
    (\<forall>q<i + l. copy_forward mem i (i - d) l q = inp q) \<and> (\<forall>q\<ge>i + l. copy_forward mem i (i - d) l q = mem q)"
proof (induction l arbitrary: i mem)
  case (Suc l)
  define m where "m = mem(i := mem (i - d))"
  have "inp i = inp (i - d)" using Suc.prems(4) by auto
  moreover have "mem (i - d) = inp (i - d)" using Suc.prems(1-3) by auto
  ultimately have "\<forall>q<Suc i. m q = inp q" using Suc.prems(1) by (auto simp: m_def less_Suc_eq)
  from Suc.IH [OF this] have "(\<forall>q<Suc i + l. copy_forward m (Suc i) (Suc i - d) l q = inp q) \<and>
      (\<forall>q\<ge>Suc i + l. copy_forward m (Suc i) (Suc i - d) l q = m q)"
    using Suc.prems by auto
  moreover have "Suc i - d = Suc (i - d)" using Suc.prems(3) by simp
  moreover have "copy_forward mem i (i - d) (Suc l) = copy_forward m (Suc i) (Suc (i - d)) l" by (simp add: m_def)
  moreover have "\<forall>q\<ge>Suc i + l. m q = mem q" by (simp add: m_def)
  ultimately show ?case by simp
qed simp

lemma memmove_match:
  assumes "\<forall>q<i. mem q = inp q" "0 < d" "d \<le> i" "\<forall>q. i \<le> q \<and> q < i + l \<longrightarrow> inp q = inp (q - d)"
  shows "(\<forall>q<i + l. fastlz_memmove mem i (i - d) l q = inp q) \<and> (\<forall>q\<ge>i + l. fastlz_memmove mem i (i - d) l q = mem q)"
proof (cases "4 < l \<and> i - d + l \<le> i")
  case True
  have "copy_bytes mem i mem (i - d) l q = inp q" if "q < i + l" for q
  proof (cases "i \<le> q")
    case at: True
    then have "q - d < i" "i - d + (q - i) = q - d" using that True assms(3) by auto
    then show ?thesis using at that assms(1,4) by (simp add: copy_bytes_def)
  qed (use assms(1) in \<open>simp add: copy_bytes_def\<close>)
  then show ?thesis using True by (simp add: fastlz_memmove_def copy_bytes_def)
next
  case False
  then show ?thesis using copy_forward_match [OF assms] by (simp only: fastlz_memmove_def if_False)
qed

lemma copy_lit: "\<forall>q<i. mem q = inp q \<Longrightarrow> map cin [ip..<ip + k] = map inp [i..<i + k] \<Longrightarrow>
    (\<forall>q<i + k. copy_bytes mem i cin ip k q = inp q) \<and> (\<forall>q\<ge>i + k. copy_bytes mem i cin ip k q = mem q)"
proof -
  assume m: "\<forall>q<i. mem q = inp q" "map cin [ip..<ip + k] = map inp [i..<i + k]"
  have "cin (ip + r) = inp (i + r)" if "r < k" for r
    using arg_cong [OF m(2), of "\<lambda>xs. xs ! r"] that by simp
  then have "cin (ip + (q - i)) = inp q" if "i \<le> q" "q < i + k" for q using that by (metis le_add_diff_inverse less_diff_conv2 add.commute)
  then show ?thesis using m(1) by (simp add: copy_bytes_def)
qed

text \<open>What is left of the code, from \<open>ip\<close> on.\<close>

abbreviation rest :: "bytes \<Rightarrow> nat \<Rightarrow> nat \<Rightarrow> 8 word list" where
  "rest cin n ip \<equiv> map cin [ip..<n]"

lemma rest_Cons: "rest cin n ip = x # xs \<Longrightarrow> ip < n \<and> cin ip = x \<and> rest cin n (Suc ip) = xs"
  by (cases "ip < n") (auto simp: upt_conv_Cons)

lemma rest_append: "rest cin n ip = xs @ ys \<Longrightarrow> ip \<le> n \<Longrightarrow>
    ip + length xs + length ys = n \<and> map cin [ip..<ip + length xs] = xs \<and> rest cin n (ip + length xs) = ys"
proof -
  assume r: "rest cin n ip = xs @ ys" "ip \<le> n"
  from arg_cong [OF r(1), of length] r(2) have n: "n = ip + length xs + length ys" by simp
  have "[ip..<n] = [ip..<ip + length xs] @ [ip + length xs..<n]"
    using upt_add_eq_append [of ip "ip + length xs" "length ys"] n by simp
  with r(1) have "map cin [ip..<ip + length xs] @ map cin [ip + length xs..<n] = xs @ ys" by simp
  then show ?thesis using n by (simp add: append_eq_append_conv)
qed

lemma unat_byte [simp]: "m < 256 \<Longrightarrow> unat (of_nat m :: 8 word) = m"
  by (simp add: unat_of_nat)

lemma read_len_code:
  "rest cin n ip = map of_nat (len_code m) @ x # cs \<Longrightarrow> read_len cin n ip len = Some (ip + length (len_code m), len + m)"
proof (induction m arbitrary: ip len rule: len_code.induct)
  case (1 m)
  show ?case
  proof (cases "255 \<le> m")
    case True
    then have lc: "len_code m = 255 # len_code (m - 255)" by (simp add: len_code.simps [of m])
    then have "rest cin n ip = 255 # map of_nat (len_code (m - 255)) @ x # cs" using "1.prems" by simp
    from rest_Cons [OF this] have r: "cin ip = 255" "rest cin n (Suc ip) = map of_nat (len_code (m - 255)) @ x # cs" by auto
    then have "Suc ip < n" by (cases "Suc ip < n") auto
    moreover have "unat (255 :: 8 word) = 255" by simp
    ultimately show ?thesis
      using "1.IH" [OF True r(2), of "len + 255"] r(1) True lc
      by (simp add: read_len.simps [of cin n ip])
  next
    case False
    then have lc: "len_code m = [m]" by (simp add: len_code.simps [of m])
    then have "rest cin n ip = of_nat m # x # cs" using "1.prems" by simp
    from rest_Cons [OF this] have r: "cin ip = of_nat m" "rest cin n (Suc ip) = x # cs" by auto
    then have "Suc ip < n" using rest_Cons [OF r(2)] by simp
    then show ?thesis using False r(1) lc by (simp add: read_len.simps [of cin n ip])
  qed
qed

text \<open>One piece of the code is read in one step.\<close>

lemma step_lit:
  assumes "0 < k" "k \<le> MAX_COPY" "rest cin n ip = map inp [i..<i + k] @ cs" "ip \<le> n" "i + k \<le> maxout" "\<forall>q<i. mem q = inp q"
  shows "\<exists>mem'. decompress1_step cin n maxout ip (k - 1) mem i = Some (ip + k, mem', i + k) \<and>
      decompress2_step cin n maxout ip (k - 1) mem i = Some (ip + k, mem', i + k) \<and> rest cin n (ip + k) = cs \<and>
      (\<forall>q<i + k. mem' q = inp q) \<and> (\<forall>q\<ge>i + k. mem' q = mem q)"
proof -
  note r = rest_append [OF assms(3,4)]
  have "map cin [ip..<ip + k] = map inp [i..<i + k]" using r by simp
  note copy_lit [OF assms(6) this]
  moreover have "\<not> 32 \<le> k - 1" "Suc (k - 1) = k" using assms(1,2) by (simp_all add: MAX_COPY_def)
  ultimately show ?thesis using r assms(5) unfolding decompress1_step_def decompress2_step_def Let_def
    by (simp del: One_nat_def)
qed


text \<open>The first byte of a match and its length: as many bits as fit are in it.\<close>

lemma match_head:
  fixes len x :: nat
  assumes "0 < len" "x < 32"
  defines "h \<equiv> (if len < 7 then len else 7) * 32 + x"
  shows "h < 256" "32 \<le> h" "h mod 32 = x" "h div 32 - 1 = (if len < 7 then len - 1 else 6)"
proof -
  define m where "m = (if len < 7 then len else 7)"
  have m: "0 < m" "m \<le> 7" using assms(1) by (auto simp: m_def)
  have h: "h = m * 32 + x" by (simp add: h_def m_def)
  show "h < 256" "32 \<le> h" using m assms(2) unfolding h by linarith+
  show "h mod 32 = x" using assms(2) unfolding h by simp
  show "h div 32 - 1 = (if len < 7 then len - 1 else 6)" using assms(2) unfolding h by (simp add: m_def)
qed

lemma step1_match:
  assumes ok: "match_ok False len d" "d \<le> i" "\<forall>q. i \<le> q \<and> q < i + len + 2 \<longrightarrow> inp q = inp (q - d)"
    and code: "h # t = match_code False len d" "rest cin n ip = t @ cs" "ip \<le> n"
    and out: "i + len + 2 \<le> maxout" "\<forall>q<i. mem q = inp q"
  shows "\<exists>ip' mem'. decompress1_step cin n maxout ip (unat h) mem i = Some (ip', mem', i + len + 2) \<and> rest cin n ip' = cs \<and> ip' \<le> n \<and>
      (\<forall>q<i + len + 2. mem' q = inp q) \<and> (\<forall>q\<ge>i + len + 2. mem' q = mem q)"
proof -
  have d: "0 < len" "0 < d" "d \<le> 8191" "len \<le> 262" using ok(1) by (auto simp: match_ok_def MAX_L1_DISTANCE_def MAX_LEN_def)
  then have "(d - 1) div 256 < 32" by (simp add: div_less_iff_less_mult)
  note h = match_head [OF d(1) this]
  have "h = of_nat ((if len < 7 then len else 7) * 32 + (d - 1) div 256)"
    and tv: "t = map of_nat ((if len < 7 then [] else [len - 7]) @ [(d - 1) mod 256])"
    using code(1) by (simp_all only: match_code_def Let_def simp_thms if_False append_Cons append_Nil list.map list.inject)
  then have hv: "unat h = (if len < 7 then len else 7) * 32 + (d - 1) div 256" by (simp only: unat_byte [OF h(1)])
  note r = rest_append [OF code(2,3)]
  have away: "(d - 1) div 256 * 256 + 1 + (d - 1) mod 256 = d" using d(2) by simp
  have m: "(\<forall>q<i + (len + 2). fastlz_memmove mem i (i - d) (len + 2) q = inp q) \<and>
      (\<forall>q\<ge>i + (len + 2). fastlz_memmove mem i (i - d) (len + 2) q = mem q)"
    by (rule memmove_match) (use out(2) d(2) ok in auto)
  show ?thesis
  proof (cases "len < 7")
    case True
    have "rest cin n ip = of_nat ((d - 1) mod 256) # cs" using code(2) tv True by simp
    from rest_Cons [OF this] have c: "ip < n" "unat (cin ip) = (d - 1) mod 256" "rest cin n (Suc ip) = cs" by auto
    have "decompress1_step cin n maxout ip (unat h) mem i = Some (Suc ip, fastlz_memmove mem i (i - d) (len + 2), i + (len + 2))"
    proof -
      have "unat h mod 32 * 256 + 1 + unat (cin ip) = d" unfolding hv h(3) using away c(2) by simp
      moreover have "unat h div 32 - 1 = len - 1" unfolding hv h(4) using True by simp
      then have "unat h div 32 - 1 \<noteq> 6" "unat h div 32 - 1 + 3 = len + 2" using True d(1) by linarith+
      ultimately show ?thesis using out(1) ok(2) h(2) unfolding decompress1_step_def Let_def hv [symmetric]
        by (simp del: One_nat_def)
    qed
    then show ?thesis using m c by (auto simp: add.assoc)
  next
    case False
    have "rest cin n ip = of_nat (len - 7) # of_nat ((d - 1) mod 256) # cs" using code(2) tv False by simp
    from rest_Cons [OF this] have c: "unat (cin ip) = len - 7" "rest cin n (Suc ip) = of_nat ((d - 1) mod 256) # cs"
      using d(4) by auto
    from rest_Cons [OF this(2)] have c': "Suc ip < n" "unat (cin (Suc ip)) = (d - 1) mod 256" "rest cin n (Suc (Suc ip)) = cs" by auto
    have "6 + (len - 7) + 3 = len + 2" using False by simp
    then have "decompress1_step cin n maxout ip (unat h) mem i =
        Some (Suc (Suc ip), fastlz_memmove mem i (i - d) (len + 2), i + (len + 2))"
      using out(1) ok(2) h(2-4) False away c'(1) unfolding decompress1_step_def Let_def hv [symmetric]
      by (simp add: c(1) c'(2))
    then show ?thesis using m c' by (auto simp: add.assoc)
  qed
qed


lemma step2_match:
  assumes ok: "match_ok True len d" "d \<le> i" "\<forall>q. i \<le> q \<and> q < i + len + 2 \<longrightarrow> inp q = inp (q - d)"
    and code: "h # t = match_code True len d" "rest cin n ip = t @ cs" "ip \<le> n" "cs \<noteq> []"
    and out: "i + len + 2 \<le> maxout" "\<forall>q<i. mem q = inp q"
  shows "\<exists>ip' mem'. decompress2_step cin n maxout ip (unat h) mem i = Some (ip', mem', i + len + 2) \<and> rest cin n ip' = cs \<and> ip' \<le> n \<and>
      (\<forall>q<i + len + 2. mem' q = inp q) \<and> (\<forall>q\<ge>i + len + 2. mem' q = mem q)"
proof -
  have d: "0 < len" "0 < d" "d - 1 < 8191 + 65536" using ok(1) by (auto simp: match_ok_def MAX_FARDISTANCE_def MAX_L2_DISTANCE_def)
  define far where "far \<longleftrightarrow> MAX_L2_DISTANCE \<le> d - 1"
  define x tl' where "x = (if far then 31 else (d - 1) div 256)"
    and "tl' = (if far then [255, (d - 1 - MAX_L2_DISTANCE) div 256, (d - 1 - MAX_L2_DISTANCE) mod 256] else [(d - 1) mod 256])"
  have "x < 32" using d(3) by (auto simp: x_def far_def MAX_L2_DISTANCE_def div_less_iff_less_mult)
  note h = match_head [OF d(1) this]
  have "h # t = map of_nat (((if len < 7 then len else 7) * 32 + x) # (if len < 7 then [] else len_code (len - 7)) @ tl')"
    unfolding code(1) match_code_def Let_def x_def tl'_def far_def by simp
  then have hv: "unat h = (if len < 7 then len else 7) * 32 + x"
    and tv: "t = map of_nat (if len < 7 then [] else len_code (len - 7)) @ map of_nat tl'"
    using unat_byte [OF h(1)] by (simp_all del: of_nat_add of_nat_mult)
  obtain ip2 where ip2: "(if unat h div 32 - 1 = 6 then read_len cin n ip (unat h div 32 - 1) else Some (ip, unat h div 32 - 1)) =
      Some (ip2, len - 1)" "rest cin n ip2 = map of_nat tl' @ cs"
  proof (cases "len < 7")
    case True
    have u: "unat h div 32 - 1 = len - 1" unfolding hv h(4) using True by simp
    have "len - 1 \<noteq> 6" using True d(1) by linarith
    then have "(if unat h div 32 - 1 = 6 then read_len cin n ip (unat h div 32 - 1) else Some (ip, unat h div 32 - 1)) = Some (ip, len - 1)"
      unfolding u by (simp only: if_False)
    then show ?thesis using that [of ip] code(2) tv True by simp
  next
    case False
    have u: "unat h div 32 - 1 = 6" unfolding hv h(4) using False by simp
    obtain y ys where y: "map of_nat tl' @ cs = y # ys"
      by (cases "map of_nat tl' @ cs") (auto simp: tl'_def split: if_splits)
    have "rest cin n ip = map of_nat (len_code (len - 7)) @ y # ys" using code(2) tv False y by simp
    from read_len_code [OF this] rest_append [OF this code(3)] show ?thesis
      using that [of "ip + length (len_code (len - 7))"] u False y by simp
  qed
  have m: "(\<forall>q<i + (len + 2). fastlz_memmove mem i (i - d) (len + 2) q = inp q) \<and>
      (\<forall>q\<ge>i + (len + 2). fastlz_memmove mem i (i - d) (len + 2) q = mem q)"
    by (rule memmove_match) (use out(2) d(2) ok in auto)
  have ofs: "unat h mod 32 = x" unfolding hv h(3) by simp
  have l: "len - 1 + 3 = len + 2" using d(1) by simp
  show ?thesis
  proof (cases far)
    case True
    let ?f = "d - 1 - MAX_L2_DISTANCE"
    have f: "?f < 65536" using d(3) by (simp add: MAX_L2_DISTANCE_def)
    have "rest cin n ip2 = 255 # of_nat (?f div 256) # of_nat (?f mod 256) # cs" using ip2(2) True by (simp add: tl'_def)
    from rest_Cons [OF this] have c0: "unat (cin ip2) = 255" "rest cin n (Suc ip2) = of_nat (?f div 256) # of_nat (?f mod 256) # cs" by auto
    from rest_Cons [OF c0(2)] have c1: "unat (cin (Suc ip2)) = ?f div 256" "rest cin n (Suc (Suc ip2)) = of_nat (?f mod 256) # cs"
      using f by (auto simp: div_less_iff_less_mult)
    from rest_Cons [OF c1(2)] have c2: "unat (cin (Suc (Suc ip2))) = ?f mod 256" "rest cin n (Suc (Suc (Suc ip2))) = cs" by auto
    have n: "Suc (Suc (Suc ip2)) < n" using c2(2) code(4) by (cases "Suc (Suc (Suc ip2)) < n") auto
    have away: "?f div 256 * 256 + ?f mod 256 + MAX_L2_DISTANCE + 1 = d" using True d(2) by (simp add: far_def)
    have "decompress2_step cin n maxout ip (unat h) mem i =
        Some (Suc (Suc (Suc ip2)), fastlz_memmove mem i (i - d) (len + 2), i + (len + 2))"
      using h(2) hv out(1) ok(2) n away True
      unfolding decompress2_step_def Let_def ip2(1) option.case prod.case ofs l
      by (simp add: c0(1) c1(1) c2(1) x_def del: One_nat_def)
    then show ?thesis using m c2(2) n by (auto simp: add.assoc)
  next
    case False
    have "rest cin n ip2 = of_nat ((d - 1) mod 256) # cs" using ip2(2) False by (simp add: tl'_def)
    from rest_Cons [OF this] have c: "ip2 < n" "unat (cin ip2) = (d - 1) mod 256" "rest cin n (Suc ip2) = cs" by auto
    have away: "(d - 1) div 256 * 256 + 1 + (d - 1) mod 256 = d" using d(2) by simp
    have nf: "\<not> ((d - 1) mod 256 = 255 \<and> (d - 1) div 256 * 256 = 31 * 256)"
    proof
      assume "(d - 1) mod 256 = 255 \<and> (d - 1) div 256 * 256 = 31 * 256"
      then have "d - 1 = 31 * 256 + 255" using div_mult_mod_eq [of "d - 1" 256] by simp
      then show False using False by (simp add: far_def MAX_L2_DISTANCE_def)
    qed
    have "decompress2_step cin n maxout ip (unat h) mem i = Some (Suc ip2, fastlz_memmove mem i (i - d) (len + 2), i + (len + 2))"
      using h(2) hv out(1) ok(2) away nf False
      unfolding decompress2_step_def Let_def ip2(1) option.case prod.case ofs l c(2)
      by (auto simp: x_def simp del: One_nat_def)
    then show ?thesis using m c by (auto simp: add.assoc)
  qed
qed

text \<open>The loops go through the code piece by piece to its end.\<close>

lemma code_nil: "code two inp n i j cs \<Longrightarrow> i = j \<longleftrightarrow> cs = []"
proof (induction rule: code.induct)
  case (code_lit k i j cs)
  then show ?case using code_length [OF code_lit.hyps(4)] by auto
next
  case (code_match len d i j cs)
  then show ?case using code_length [OF code_match.hyps(5)] by (auto simp: match_code_def Let_def)
qed simp

abbreviation decompress_step :: "bool \<Rightarrow> bytes \<Rightarrow> nat \<Rightarrow> nat \<Rightarrow> nat \<Rightarrow> nat \<Rightarrow> bytes \<Rightarrow> nat \<Rightarrow> (nat \<times> bytes \<times> nat) option" where
  "decompress_step two \<equiv> (if two then decompress2_step else decompress1_step)"

abbreviation decompress_loop :: "bool \<Rightarrow> bytes \<Rightarrow> nat \<Rightarrow> nat \<Rightarrow> nat \<Rightarrow> nat \<Rightarrow> bytes \<Rightarrow> nat \<Rightarrow> bytes \<times> nat" where
  "decompress_loop two \<equiv> (if two then decompress2_loop else decompress1_loop)"

lemma loop_end:
  "decompress_step two cin n maxout ip c mem i = Some (ip', mem', i') \<Longrightarrow> rest cin n ip' = [] \<Longrightarrow>
    decompress_loop two cin n maxout ip c mem i = (mem', i')"
  by (cases two) (auto simp: decompress1_loop.simps [of cin n maxout ip c mem i] decompress2_loop.simps [of cin n maxout ip c mem i])

lemma loop_next:
  "decompress_step two cin n maxout ip c mem i = Some (ip', mem', i') \<Longrightarrow> rest cin n ip' = h # t \<Longrightarrow> t \<noteq> [] \<Longrightarrow>
    decompress_loop two cin n maxout ip c mem i = decompress_loop two cin n maxout (Suc ip') (unat h) mem' i' \<and>
    rest cin n (Suc ip') = t \<and> Suc ip' \<le> n"
proof -
  assume a: "decompress_step two cin n maxout ip c mem i = Some (ip', mem', i')" "rest cin n ip' = h # t" "t \<noteq> []"
  note r = rest_Cons [OF a(2)]
  have "Suc ip' < n" using r a(3) by (cases "Suc ip' < n") auto
  then show ?thesis using a r
    by (cases two) (auto simp: decompress1_loop.simps [of cin n maxout ip c mem i] decompress2_loop.simps [of cin n maxout ip c mem i])
qed

lemma decompress_loop_code:
  "code two inp m i j cs \<Longrightarrow> j = m \<Longrightarrow> cs = h # t \<Longrightarrow> m \<le> maxout \<Longrightarrow> rest cin n ip = t \<Longrightarrow> ip \<le> n \<Longrightarrow> \<forall>q<i. mem q = inp q \<Longrightarrow>
    \<exists>mem'. decompress_loop two cin n maxout ip (unat h) mem i = (mem', m) \<and> (\<forall>q<m. mem' q = inp q) \<and> (\<forall>q\<ge>m. mem' q = mem q)"
proof (induction arbitrary: h t ip mem rule: code.induct)
  case (code_end i)
  then show ?case by simp
next
  case (code_lit k i j cs)
  have r: "h = of_nat (k - 1)" "rest cin n ip = map inp [i..<i + k] @ cs" using code_lit.prems by auto
  have "k - 1 < 256" using code_lit.hyps(2) by (simp add: MAX_COPY_def)
  then have u: "unat h = k - 1" by (simp only: r(1) unat_byte)
  have "i + k \<le> maxout" using code_lit.hyps(3) code_lit.prems by simp
  then obtain mem1 where s: "decompress_step two cin n maxout ip (unat h) mem i = Some (ip + k, mem1, i + k)" "rest cin n (ip + k) = cs"
      "\<forall>q<i + k. mem1 q = inp q" "\<forall>q\<ge>i + k. mem1 q = mem q"
    using step_lit [OF code_lit.hyps(1,2) r(2) code_lit.prems(5) _ code_lit.prems(6)] unfolding u by (cases two) fastforce+
  show ?case
  proof (cases cs)
    case Nil
    then show ?thesis using loop_end [OF s(1)] s code_nil [OF code_lit.hyps(4)] code_lit.prems(1) by simp
  next
    case (Cons h' t')
    then have "t' \<noteq> []" using code_length [OF code_lit.hyps(4)] code_nil [OF code_lit.hyps(4)] by auto
    note n = loop_next [OF s(1) s(2) [unfolded Cons] this]
    from code_lit.IH [OF code_lit.prems(1) Cons code_lit.prems(3) conjunct1 [OF conjunct2 [OF n]] conjunct2 [OF conjunct2 [OF n]] s(3)]
    show ?thesis using n s(4) code_lit.hyps(3) by auto
  qed
next
  case (code_match len d i j cs)
  obtain h2 t2 where c: "match_code two len d = h2 # t2" by (cases "match_code two len d") (auto simp: match_code_def Let_def split: if_splits)
  then have r: "h # t2 = match_code two len d" "rest cin n ip = t2 @ cs" using code_match.prems by auto
  have ne: "cs \<noteq> []" using code_match.hyps(3) code_nil [OF code_match.hyps(5)] code_match.prems(1) by auto
  have le: "i + len + 2 \<le> maxout" using code_match.hyps(3) code_match.prems by simp
  have "\<exists>ip1 mem1. decompress_step two cin n maxout ip (unat h) mem i = Some (ip1, mem1, i + len + 2) \<and> rest cin n ip1 = cs \<and>
      (\<forall>q<i + len + 2. mem1 q = inp q) \<and> (\<forall>q\<ge>i + len + 2. mem1 q = mem q)"
  proof (cases two)
    case True
    then have ok: "match_ok True len d" "h # t2 = match_code True len d" using code_match.hyps(1) r(1) by simp_all
    from step2_match [OF ok(1) code_match.hyps(2,4) ok(2) r(2) code_match.prems(5) ne le code_match.prems(6)]
    show ?thesis using True by auto
  next
    case False
    then have ok: "match_ok False len d" "h # t2 = match_code False len d" using code_match.hyps(1) r(1) by simp_all
    from step1_match [OF ok(1) code_match.hyps(2,4) ok(2) r(2) code_match.prems(5) le code_match.prems(6)]
    show ?thesis using False by auto
  qed
  then obtain ip1 mem1 where s: "decompress_step two cin n maxout ip (unat h) mem i = Some (ip1, mem1, i + len + 2)" "rest cin n ip1 = cs"
      "\<forall>q<i + len + 2. mem1 q = inp q" "\<forall>q\<ge>i + len + 2. mem1 q = mem q" by blast
  obtain h' t' where Cons: "cs = h' # t'" using ne by (cases cs) auto
  then have "t' \<noteq> []" using code_length [OF code_match.hyps(5)] code_nil [OF code_match.hyps(5)] by auto
  note n = loop_next [OF s(1) s(2) [unfolded Cons] this]
  from code_match.IH [OF code_match.prems(1) Cons code_match.prems(3) conjunct1 [OF conjunct2 [OF n]] conjunct2 [OF conjunct2 [OF n]] s(3)]
  show ?case using n s(4) code_match.hyps(3) by auto
qed

text \<open>The first piece is literal, so that the first byte has room for the mark of the second level.\<close>

lemma code_first: "code two inp n 0 n cs \<Longrightarrow> 0 < n \<Longrightarrow> \<exists>h t. cs = h # t \<and> unat h < 32"
proof (erule code.cases)
  fix k i j cs'
  assume "cs = of_nat (k - 1) # map inp [i..<i + k] @ cs'" "0 < k" "k \<le> MAX_COPY"
  then have "cs = of_nat (k - 1) # map inp [i..<i + k] @ cs'" "k - 1 < 32" by (simp_all add: MAX_COPY_def)
  then show ?thesis using unat_byte [of "k - 1"] by auto
qed (auto simp: match_ok_def)

lemma unat_mark: "m < 32 \<Longrightarrow> unat (or (of_nat m :: 8 word) (push_bit 5 1)) = m + 32"
proof -
  have "\<forall>m \<in> set [0..<32]. unat (or (of_nat m :: 8 word) (push_bit 5 1)) = m + 32" by code_simp
  then show "m < 32 \<Longrightarrow> ?thesis" by simp
qed

lemma decompress_code:
  assumes "code two inp n 0 n (h # t)" "0 < n" "n \<le> maxout" "unat (cin 0) = (if two then 32 else 0) + unat h"
    and "rest cin (Suc (length t)) 1 = t"
  shows "\<exists>mem'. fastlz_decompress cin (Suc (length t)) mem maxout = (mem', n) \<and> (\<forall>q<n. mem' q = inp q) \<and> (\<forall>q\<ge>n. mem' q = mem q)"
proof -
  have h: "unat h < 32" using code_first [OF assms(1,2)] by auto
  have "fastlz_decompress cin (Suc (length t)) mem maxout = decompress_loop two cin (Suc (length t)) maxout 1 (unat h) mem 0"
    using assms(4) h by (cases two) (simp_all add: fastlz_decompress_def fastlz1_decompress_def fastlz2_decompress_def)
  then show ?thesis using decompress_loop_code [OF assms(1) refl refl assms(3,5), of mem] by simp
qed

lemma rest_of_list: "\<forall>q < Suc (length t). cin q = (h # t) ! q \<Longrightarrow> rest cin (Suc (length t)) 1 = t"
  by (rule nth_equalityI) (simp_all del: upt_Suc)

text \<open>Decompression gives back what was compressed, whatever the output buffer held.\<close>

lemma fastlz_lossless:
  assumes "0 < n" "n \<le> maxout" "\<forall>q < length (fastlz_compress_malloc inp n tmp). cin q = fastlz_compress_malloc inp n tmp ! q"
  shows "\<exists>mem'. fastlz_decompress cin (length (fastlz_compress_malloc inp n tmp)) mem maxout = (mem', n) \<and>
    (\<forall>q<n. mem' q = inp q) \<and> (\<forall>q\<ge>n. mem' q = mem q)"
proof -
  obtain out L where z: "fastlz_compress inp n tmp = (out, L)" by (cases "fastlz_compress inp n tmp")
  then have zl: "fastlz_compress_malloc inp n tmp = map out [0..<L]" by (simp add: fastlz_compress_malloc_def)
  obtain two out' where o: "code two inp n 0 n (map out' [0..<L])" "out = (if two then out'(0 := or (out' 0) (push_bit 5 1)) else out')"
  proof (cases "n < 65536")
    case True
    then show ?thesis using that [of False out] compress1_code [of n inp tmp] assms(1) z by (simp add: fastlz_compress_def)
  next
    case False
    then have "fastlz2_compress inp n tmp = (out, L)" using z by (simp add: fastlz_compress_def)
    from compress2_code [OF assms(1) this] show ?thesis using that [of True] by auto
  qed
  obtain h t where ht: "map out' [0..<L] = h # t" "unat h < 32" using code_first [OF o(1) assms(1)] by auto
  then have h: "0 < L" "out' 0 = h" "map out' [Suc 0..<L] = t" using rest_Cons [of out' 0 L h t] by auto
  have L: "L = Suc (length t)" using arg_cong [OF ht(1), of length] by simp
  have "map out [Suc 0..<L] = t" using o(2) h(3) by auto
  then have zc: "fastlz_compress_malloc inp n tmp = out 0 # t" using zl h(1) by (simp add: upt_conv_Cons)
  have "unat (out 0) = (if two then 32 else 0) + unat h"
    using o(2) h(2) unat_mark [OF ht(2)] by (auto simp: add.commute)
  moreover have "cin 0 = out 0" using assms(3) zc by simp
  moreover have "rest cin (Suc (length t)) 1 = t" using assms(3) unfolding zc by (intro rest_of_list [of t cin "out 0"]) simp
  ultimately show ?thesis using decompress_code [OF o(1) [unfolded ht(1)] assms(1,2), of cin mem] zc by simp
qed

subsection \<open>Properties\<close>



text \<open> the block for the output is as long as the input, but a short input becomes one byte longer, and the last byte is
  written behind the block.\<close>

theorem compressed_overruns_block:
  assumes "0 < n" "n \<le> 15"
  shows "length (fastlz_compress_malloc inp n tmp) = n + 1 \<and> fst (fastlz_compress inp n tmp) n = inp (n - 1)"
proof -
  have l: "compress1_loop inp n 2 0 (\<lambda>_. 0) (tmp, 0) = (0, tmp, 0)" using assms(2) by (simp add: compress1_loop.simps)
  have "fastlz_compress inp n tmp = (flz_smallcopy (tmp(0 := of_nat (n - 1))) 1 inp 0 n, n + 1)"
    using assms by (simp add: fastlz_compress_def fastlz1_compress_def l flz_finalize.simps [of n] MAX_COPY_def put_nat_def put_def)
  then show ?thesis using assms by (simp add: fastlz_compress_malloc_def flz_smallcopy_def copy_bytes_def)
qed

theorem compressed_overruns_block_witness:
  "length (fastlz_compress_malloc (\<lambda>_. 7) 4 (\<lambda>_. 0)) = 5"
  using compressed_overruns_block [of 4 "\<lambda>_. 7" "\<lambda>_. 0"] by simp

end
