(* ===== verification/Bsd.thy ===== *)
theory Bsd
  imports Floats Fastlz
begin

section \<open>The blind-spot display (bsd/bsd.cpp, bsd/common/paint.c)\<close>

text \<open>
  A program of its own: its thread takes frames from the video library, lets the detector library say which of five symbols are
  on (five bits), and draws them, with the dotted outline of the watched area, into an overlay bitmap for each of three video
  channels.  A bitmap is a list of 16-bit pixels, row by row; \<open>img_memcopy\<close>, which the code calls with pixels of two bytes, is
  modelled in pixels.  A write outside of a bitmap, or a read outside of a picture, is \<open>None\<close>.  The pictures of the symbols are
  kept compressed (theory Fastlz).  The video, detector and overlay libraries and the reader of the pictures are arguments.
\<close>

subsection \<open>Copying a picture into a bitmap\<close>

definition overwrite :: "nat \<Rightarrow> 'p list \<Rightarrow> 'p list \<Rightarrow> 'p list" where
  "overwrite off xs dst = take off dst @ xs @ drop (off + length xs) dst"

fun copy_rows :: "nat \<Rightarrow> nat \<Rightarrow> nat \<Rightarrow> 'p list \<Rightarrow> nat \<Rightarrow> nat \<Rightarrow> 'p list \<Rightarrow> 'p list option" where
  "copy_rows 0 width_dst width_src src off soff dst = Some dst"
| "copy_rows (Suc n) width_dst width_src src off soff dst =
     (if off + width_src \<le> length dst \<and> soff + width_src \<le> length src
      then copy_rows n width_dst width_src src (off + width_dst) (soff + width_src)
        (overwrite off (take width_src (drop soff src)) dst)
      else None)"

definition img_memcopy :: "'p list \<Rightarrow> int \<Rightarrow> int \<Rightarrow> 'p list \<Rightarrow> int \<Rightarrow> int \<Rightarrow> int \<Rightarrow> int \<Rightarrow> ('p list \<times> sv_ret) option" where
  "img_memcopy img_dst width_dst height_dst img_src width_src height_src x_insert y_insert =
     (if x_insert < 0 \<or> y_insert < 0 then Some (img_dst, SV_FAILURE)
      else if width_dst < x_insert + width_src \<or> height_dst < y_insert + height_src then Some (img_dst, SV_FAILURE)
      else map_option (\<lambda>d. (d, SV_SUCCESS))
        (copy_rows (nat height_src) (nat width_dst) (nat width_src) img_src (nat (x_insert + y_insert * width_dst)) 0 img_dst))"

lemma length_overwrite [simp]: "off + length xs \<le> length dst \<Longrightarrow> length (overwrite off xs dst) = length dst"
  by (simp add: overwrite_def)

lemma nth_overwrite:
  "off + length xs \<le> length dst \<Longrightarrow> p < length dst \<Longrightarrow>
    overwrite off xs dst ! p = (if off \<le> p \<and> p < off + length xs then xs ! (p - off) else dst ! p)"
  by (auto simp: overwrite_def nth_append)

text \<open>Row \<open>i\<close> of the picture goes to the \<open>width_src\<close> places from \<open>off + i * width_dst\<close>.\<close>

lemma copy_rows_nth:
  assumes "ws \<le> wd" "0 < n \<Longrightarrow> off + (n - 1) * wd + ws \<le> length dst" "soff + n * ws \<le> length src"
  shows "\<exists>d. copy_rows n wd ws src off soff dst = Some d \<and> length d = length dst \<and>
    (\<forall>p<length dst. d ! p = (if off \<le> p \<and> (p - off) div wd < n \<and> (p - off) mod wd < ws
       then src ! (soff + (p - off) div wd * ws + (p - off) mod wd) else dst ! p))"
  using assms
proof (induction n arbitrary: off soff dst)
  case (Suc n)
  let ?d = "overwrite off (take ws (drop soff src)) dst"
  have "Suc n * ws = ws + n * ws" by simp
  then have fits: "off + ws \<le> length dst" "soff + ws \<le> length src" "soff + ws + n * ws \<le> length src"
    using Suc.prems(2,3) by auto
  have len: "length ?d = length dst" using fits by simp
  have nxt: "0 < n \<Longrightarrow> off + wd + (n - 1) * wd + ws \<le> length ?d" using Suc.prems(2) len by (cases n) auto
  obtain d where d: "copy_rows n wd ws src (off + wd) (soff + ws) ?d = Some d" "length d = length ?d"
    "\<forall>p<length ?d. d ! p = (if off + wd \<le> p \<and> (p - (off + wd)) div wd < n \<and> (p - (off + wd)) mod wd < ws
       then src ! (soff + ws + (p - (off + wd)) div wd * ws + (p - (off + wd)) mod wd) else ?d ! p)"
    using Suc.IH [OF Suc.prems(1) nxt fits(3)] by blast
  have "d ! p = (if off \<le> p \<and> (p - off) div wd < Suc n \<and> (p - off) mod wd < ws
       then src ! (soff + (p - off) div wd * ws + (p - off) mod wd) else dst ! p)" if p: "p < length dst" for p
  proof (cases "off + wd \<le> p")
    case True
    show ?thesis
    proof (cases "wd = 0")
      case True
      then show ?thesis using Suc.prems(1) d(3) p len fits by (auto simp: nth_overwrite)
    next
      case False
      have q: "p - off = (p - (off + wd)) + wd" using True by simp
      have "(p - off) div wd = Suc ((p - (off + wd)) div wd)" "(p - off) mod wd = (p - (off + wd)) mod wd"
        using False by (subst q; simp)+
      moreover have "?d ! p = dst ! p" using p fits True Suc.prems(1) by (simp add: nth_overwrite)
      ultimately show ?thesis using d(3) p len True by (simp add: algebra_simps)
    qed
  next
    case False
    show ?thesis
    proof (cases "off \<le> p")
      case True
      then have "(p - off) div wd = 0" "(p - off) mod wd = p - off" using False by auto
      then show ?thesis using d(3) p len True False fits Suc.prems(1) by (auto simp: nth_overwrite)
    next
      case le: False
      then show ?thesis using d(3) p len False fits by (simp add: nth_overwrite)
    qed
  qed
  then show ?case using d(1,2) len fits by simp
qed simp

text \<open>A picture that fits is copied to its place, pixel by pixel, and nothing else changes.\<close>

lemma img_memcopy_nth:
  assumes "0 \<le> x" "0 \<le> y" "x + ws \<le> wd" "y + hs \<le> ht" "0 \<le> ws" "0 \<le> hs"
    and "length dst = nat (wd * ht)" "nat (ws * hs) \<le> length src"
  shows "\<exists>d. img_memcopy dst wd ht src ws hs x y = Some (d, SV_SUCCESS) \<and> length d = length dst \<and>
    (\<forall>r c. 0 \<le> r \<and> r < ht \<and> 0 \<le> c \<and> c < wd \<longrightarrow>
      d ! nat (r * wd + c) = (if y \<le> r \<and> r < y + hs \<and> x \<le> c \<and> c < x + ws
        then src ! nat ((r - y) * ws + (c - x)) else dst ! nat (r * wd + c)))"
proof -
  define W k n where "W = nat wd" and "k = nat ws" and "n = nat hs"
  let ?off = "nat (x + y * wd)"
  have i: "wd = int W" "ws = int k" "hs = int n" using assms by (simp_all add: W_def k_def n_def)
  obtain X Y H where j: "x = int X" "y = int Y" "ht = int H"
    using assms by (metis int_nat_eq nonneg_int_cases add_increasing order_trans add_nonneg_nonneg)
  have fit: "X + k \<le> W" "Y + n \<le> H" using assms(3,4) unfolding i j by linarith+
  have len: "length dst = W * H" "k * n \<le> length src" using assms(7,8) unfolding i j by (simp_all only: nat_int flip: of_nat_mult)
  have off: "?off = X + Y * W"
  proof -
    have "x + y * wd = int (X + Y * W)" using i(1) j by simp
    then show ?thesis by (simp only: nat_int)
  qed
  have room: "?off + (n - 1) * W + k \<le> length dst" if "0 < n"
  proof -
    have "?off + (n - 1) * W + k = X + k + (Y + (n - 1)) * W" unfolding off by (simp add: algebra_simps)
    also have "\<dots> \<le> W + (Y + (n - 1)) * W" using fit by simp
    also have "\<dots> = (Y + n) * W" using that by (cases n) simp_all
    also have "\<dots> \<le> H * W" using fit by (intro mult_le_mono1)
    finally show ?thesis using len by (simp add: mult.commute)
  qed
  obtain d where d: "copy_rows n W k src ?off 0 dst = Some d" "length d = length dst"
    "\<forall>p<length dst. d ! p = (if ?off \<le> p \<and> (p - ?off) div W < n \<and> (p - ?off) mod W < k
       then src ! (0 + (p - ?off) div W * k + (p - ?off) mod W) else dst ! p)"
    using copy_rows_nth [of k W n ?off dst 0 src] room fit len by (auto simp: mult.commute)
  have "d ! (R * W + C) = (if Y \<le> R \<and> R < Y + n \<and> X \<le> C \<and> C < X + k then src ! ((R - Y) * k + (C - X)) else dst ! (R * W + C))"
    if RC: "R < H" "C < W" for R C
  proof -
    let ?p = "R * W + C"
    have "?p < (R + 1) * W" using RC by simp
    also have "\<dots> \<le> H * W" using RC by (intro mult_le_mono1) simp
    finally have p: "?p < length dst" using len by (simp add: mult.commute)
    show ?thesis
    proof (cases "Y \<le> R \<and> X \<le> C")
      case True
      have "?p - ?off = (R - Y) * W + (C - X)" using True by (simp add: off diff_mult_distrib)
      moreover have "C - X < W" using RC by simp
      ultimately have dm: "(?p - ?off) div W = R - Y" "(?p - ?off) mod W = C - X" by auto
      have "Y * W \<le> R * W" using True by (intro mult_le_mono1) simp
      then have "?off \<le> ?p" using True unfolding off by linarith
      moreover have "R - Y < n \<longleftrightarrow> R < Y + n" "C - X < k \<longleftrightarrow> C < X + k" using True by auto
      ultimately show ?thesis using d(3) p dm True by simp
    next
      case False
      have "\<not> (?off \<le> ?p \<and> (?p - ?off) mod W < k)"
      proof (cases "Y \<le> R")
        case True
        then have X: "C < X" using False by simp
        show ?thesis
        proof
          assume h: "?off \<le> ?p \<and> (?p - ?off) mod W < k"
          have "Y < R"
          proof (rule ccontr)
            assume "\<not> Y < R"
            then have "R = Y" using True by simp
            then show False using conjunct1 [OF h] X by (simp add: off)
          qed
          then obtain m where m: "R = Y + Suc m" using less_eq_Suc_le [of Y R] le_Suc_ex [of "Suc Y" R] by auto
          have "?p - ?off = m * W + (W + C - X)" using X fit unfolding off m by (simp add: algebra_simps)
          moreover have "W + C - X < W" using X fit by linarith
          ultimately have "(?p - ?off) mod W = W + C - X" by simp
          then show False using h fit X by linarith
        qed
      next
        case False
        then have "(R + 1) * W \<le> Y * W" by (intro mult_le_mono1) simp
        then have "\<not> ?off \<le> ?p" unfolding off using RC(2) by simp
        then show ?thesis by simp
      qed
      then have "d ! ?p = dst ! ?p" using d(3) p by (metis (no_types, lifting))
      then show ?thesis using False by auto
    qed
  qed
  note pix = this
  have "d ! nat (r * wd + c) = (if y \<le> r \<and> r < y + hs \<and> x \<le> c \<and> c < x + ws
        then src ! nat ((r - y) * ws + (c - x)) else dst ! nat (r * wd + c))"
    if rc: "0 \<le> r" "r < ht" "0 \<le> c" "c < wd" for r c
  proof -
    obtain R C where RC: "r = int R" "c = int C" using rc by (metis nonneg_int_cases)
    have "R < H" "C < W" using rc unfolding RC i j by simp_all
    moreover have "nat (r * wd + c) = R * W + C" unfolding RC i by (simp only: nat_int flip: of_nat_mult of_nat_add)
    moreover have "nat ((r - y) * ws + (c - x)) = (R - Y) * k + (C - X)" if "Y \<le> R" "X \<le> C"
      using that unfolding RC i j by (simp only: nat_int flip: of_nat_mult of_nat_add of_nat_diff)
    ultimately show ?thesis using pix [of R C] unfolding RC i j by simp
  qed
  moreover have "img_memcopy dst wd ht src ws hs x y = Some (d, SV_SUCCESS)"
    using assms(1-4) d(1) by (simp add: img_memcopy_def W_def k_def n_def)
  ultimately show ?thesis using d(2) by blast
qed

subsection \<open>Dotted lines\<close>

text \<open>The brush of a line of width \<open>stick\<close> at \<open>(x, y)\<close>.\<close>

definition put_pixel :: "int \<Rightarrow> int \<Rightarrow> 'p \<Rightarrow> int \<times> int \<Rightarrow> 'p list \<Rightarrow> 'p list option" where
  "put_pixel width height color q pbmp =
     (case q of (x, y) \<Rightarrow>
        if width \<le> x \<or> x < 0 \<or> height \<le> y \<or> y < 0 then Some pbmp
        else let index = x + y * width in if index < int (length pbmp) then Some (pbmp[nat index := color]) else None)"

fun put_pixels :: "int \<Rightarrow> int \<Rightarrow> 'p \<Rightarrow> (int \<times> int) list \<Rightarrow> 'p list \<Rightarrow> 'p list option" where
  "put_pixels width height color [] pbmp = Some pbmp"
| "put_pixels width height color (q # qs) pbmp =
     (case put_pixel width height color q pbmp of None \<Rightarrow> None | Some b \<Rightarrow> put_pixels width height color qs b)"

definition brush :: "int \<Rightarrow> int \<times> int \<Rightarrow> (int \<times> int) list" where
  "brush stick q = (let half = stick div 2
     in [(fst q + k, snd q + j). j \<leftarrow> [0..stick - 1], k \<leftarrow> [- half..half - 1]])"

text \<open>The inner loop of the Bresenham walk; the outer one runs only when \<open>deltaX\<close> is positive.\<close>

function walk_minor :: "bool \<Rightarrow> int \<Rightarrow> int \<Rightarrow> int \<Rightarrow> (int \<times> int) \<times> int \<Rightarrow> (int \<times> int) \<times> int" where
  "walk_minor Interchange sign1 sign2 deltaX (q, hatE) =
     (if 0 < hatE \<and> 0 < deltaX
      then walk_minor Interchange sign1 sign2 deltaX
        (if Interchange then (fst q + sign1, snd q) else (fst q, snd q + sign2), hatE - 2 * deltaX)
      else (q, hatE))"
  by pat_completeness auto
termination by (relation "measure (\<lambda>(_, _, _, _, _, hatE). nat hatE)") auto

declare walk_minor.simps [simp del]

text \<open>The points of the walk, from the step \<open>i\<close> on, that are drawn: 19 of every 40 steps are.\<close>

fun walk :: "bool \<Rightarrow> int \<Rightarrow> int \<Rightarrow> int \<Rightarrow> int \<Rightarrow> nat \<Rightarrow> nat \<Rightarrow> (int \<times> int) \<times> int \<Rightarrow> (int \<times> int) list" where
  "walk Interchange sign1 sign2 deltaX deltaY i 0 w = []"
| "walk Interchange sign1 sign2 deltaX deltaY i (Suc n) (q, hatE) =
     (let (q', hatE') = walk_minor Interchange sign1 sign2 deltaX (q, hatE);
          q'' = (if Interchange then (fst q', snd q' + sign2) else (fst q' + sign1, snd q'))
      in (if i mod 40 \<le> 20 then [] else [q]) @
         walk Interchange sign1 sign2 deltaX deltaY (Suc i) n (q'', hatE' + 2 * deltaY))"

definition dotted_points :: "int \<times> int \<Rightarrow> int \<times> int \<Rightarrow> (int \<times> int) list" where
  "dotted_points s e =
     (let dx = \<bar>fst e - fst s\<bar>; dy = \<bar>snd e - snd s\<bar>; sign1 = sgn (fst e - fst s); sign2 = sgn (snd e - snd s);
          Interchange = dx < dy; deltaX = max dx dy; deltaY = min dx dy
      in walk Interchange sign1 sign2 deltaX deltaY 0 (nat deltaX) (s, 2 * deltaY - deltaX))"

definition paint_DottedLine_uint16 :: "int \<Rightarrow> int \<Rightarrow> int \<times> int \<Rightarrow> int \<times> int \<Rightarrow> 'p \<Rightarrow> int \<Rightarrow> 'p list \<Rightarrow> 'p list option" where
  "paint_DottedLine_uint16 width height s e color stick pbmp =
     put_pixels width height color (concat (map (brush stick) (dotted_points s e))) pbmp"

definition scale_point :: "int \<Rightarrow> int \<Rightarrow> rat \<times> rat \<Rightarrow> int \<times> int" where
  "scale_point width height q = (f2s32 (f32 (fst q * f32 (of_int width))), f2s32 (f32 (snd q * f32 (of_int height))))"

definition paint_Line_scale_uint16 :: "int \<Rightarrow> int \<Rightarrow> rat \<times> rat \<Rightarrow> rat \<times> rat \<Rightarrow> 'p \<Rightarrow> int \<Rightarrow> 'p list \<Rightarrow> 'p list option" where
  "paint_Line_scale_uint16 width height s e color stick pbmp =
     paint_DottedLine_uint16 width height (scale_point width height s) (scale_point width height e) color stick pbmp"

fun paint_MultiLine_scale_uint16 :: "int \<Rightarrow> int \<Rightarrow> (rat \<times> rat) list \<Rightarrow> 'p \<Rightarrow> int \<Rightarrow> 'p list \<Rightarrow> 'p list option" where
  "paint_MultiLine_scale_uint16 width height (s # e # qs) color stick pbmp =
     (case paint_Line_scale_uint16 width height s e color stick pbmp of None \<Rightarrow> None
      | Some b \<Rightarrow> paint_MultiLine_scale_uint16 width height (e # qs) color stick b)"
| "paint_MultiLine_scale_uint16 width height _ color stick pbmp = Some pbmp"

text \<open>Painting does not leave the bitmap; the pixels it paints are those of its points inside.\<close>

definition painted :: "int \<Rightarrow> int \<Rightarrow> (int \<times> int) list \<Rightarrow> nat \<Rightarrow> bool" where
  "painted width height qs p \<longleftrightarrow>
     list_ex (\<lambda>(x, y). 0 \<le> x \<and> x < width \<and> 0 \<le> y \<and> y < height \<and> nat (x + y * width) = p) qs"

lemma put_pixel_nth:
  assumes "length b = nat (width * height)"
  shows "\<exists>b'. put_pixel width height color q b = Some b' \<and> length b' = length b \<and>
    (\<forall>p<length b. b' ! p = (if painted width height [q] p then color else b ! p))"
proof (cases q)
  case (Pair x y)
  have "0 \<le> x + y * width \<and> x + y * width < int (length b)" if "0 \<le> x" "x < width" "0 \<le> y" "y < height"
  proof -
    have "x + y * width < (y + 1) * width" using that by (simp add: distrib_right)
    also have "\<dots> \<le> height * width" using that by (intro mult_right_mono) auto
    finally have "x + y * width < width * height" by (simp add: mult.commute)
    moreover have "0 \<le> x + y * width" using that by simp
    ultimately show ?thesis using assms by simp
  qed
  then show ?thesis unfolding Pair put_pixel_def painted_def by (auto simp: Let_def nth_list_update)
qed

lemma put_pixels_nth:
  "length b = nat (width * height) \<Longrightarrow>
    \<exists>b'. put_pixels width height color qs b = Some b' \<and> length b' = length b \<and>
      (\<forall>p<length b. b' ! p = (if painted width height qs p then color else b ! p))"
proof (induction qs arbitrary: b)
  case Nil
  then show ?case by (simp add: painted_def)
next
  case (Cons q qs)
  obtain b1 where b1: "put_pixel width height color q b = Some b1" "length b1 = length b"
    "\<forall>p<length b. b1 ! p = (if painted width height [q] p then color else b ! p)"
    using put_pixel_nth [OF Cons.prems] by blast
  obtain b2 where b2: "put_pixels width height color qs b1 = Some b2" "length b2 = length b1"
    "\<forall>p<length b1. b2 ! p = (if painted width height qs p then color else b1 ! p)"
    using Cons.IH [of b1] Cons.prems b1(2) by auto
  have "painted width height (q # qs) p \<longleftrightarrow> painted width height [q] p \<or> painted width height qs p" for p
    by (auto simp: painted_def split: prod.splits)
  then show ?case using b1 b2 by simp
qed

lemma put_pixels_append:
  "put_pixels width height color (qs @ rs) b =
    (case put_pixels width height color qs b of None \<Rightarrow> None | Some b' \<Rightarrow> put_pixels width height color rs b')"
  by (induction qs arbitrary: b) (auto split: option.splits)

fun line_points :: "int \<Rightarrow> int \<Rightarrow> (rat \<times> rat) list \<Rightarrow> int \<Rightarrow> (int \<times> int) list" where
  "line_points width height (s # e # qs) stick =
     concat (map (brush stick) (dotted_points (scale_point width height s) (scale_point width height e))) @
     line_points width height (e # qs) stick"
| "line_points width height _ stick = []"

lemma paint_MultiLine_points:
  "paint_MultiLine_scale_uint16 width height qs color stick b = put_pixels width height color (line_points width height qs stick) b"
  by (induction width height qs stick arbitrary: b rule: line_points.induct)
    (auto simp: put_pixels_append paint_Line_scale_uint16_def paint_DottedLine_uint16_def split: option.split)

subsection \<open>Geometry\<close>

text \<open>The sizes of the three channels and of the symbols; the watched area is given in parts of the picture, the overlay is the
  rectangle around it, and the outline is drawn half a percent inside.\<close>

definition BSD_CHIND_NUM :: nat where "BSD_CHIND_NUM = 3"
definition CHIND_WIDTH :: "nat \<Rightarrow> int" where "CHIND_WIDTH i = [1280, 352, 1920] ! i"
definition CHIND_HEIGHT :: "nat \<Rightarrow> int" where "CHIND_HEIGHT i = [720, 240, 1080] ! i"
definition BSD_HEIGHT :: "nat \<Rightarrow> int" where "BSD_HEIGHT i = [164, 45, 246] ! i"
definition BSD_WIDTH :: "nat \<Rightarrow> int" where "BSD_WIDTH i = [1280, 352, 1920] ! i"

definition BSD_ROI :: "rat list" where
  "BSD_ROI = map f32 [2/100, 35/100, 2/100, 95/100, 98/100, 95/100, 98/100, 35/100]"

definition MAX_RECT :: "rat list" where
  "MAX_RECT = [0, min (BSD_ROI ! 1) (BSD_ROI ! 7), 1, max (BSD_ROI ! 3) (BSD_ROI ! 5)]"

definition even_down :: "int \<Rightarrow> int" where "even_down x = (if x mod 2 = 0 then x else x - 1)"

definition rect_part :: "int \<Rightarrow> rat \<Rightarrow> int" where "rect_part n q = even_down (f2s32 (f32 (of_int n * q)))"

record bsd_rect =
  s32X :: int
  s32Y :: int
  u32Width :: int
  u32Height :: int

definition pstRect :: "nat \<Rightarrow> bsd_rect" where
  "pstRect i = \<lparr>s32X = rect_part (CHIND_WIDTH i) (MAX_RECT ! 0), s32Y = rect_part (CHIND_HEIGHT i) (MAX_RECT ! 1),
     u32Width = rect_part (CHIND_WIDTH i) (f32 (MAX_RECT ! 2 - MAX_RECT ! 0)),
     u32Height = rect_part (CHIND_HEIGHT i) (f32 (MAX_RECT ! 3 - MAX_RECT ! 1))\<rparr>"

definition pwidth_sub :: "nat \<Rightarrow> int" where "pwidth_sub i = BSD_WIDTH i div 5"
definition pheight_sub :: "nat \<Rightarrow> int" where "pheight_sub i = BSD_HEIGHT i"

text \<open>The difference is unsigned.\<close>

definition pyaxis :: "nat \<Rightarrow> int" where
  "pyaxis i = max 0 ((u32Height (pstRect i) - BSD_HEIGHT i) mod 2 ^ 32)"

definition point_paint :: "(rat \<times> rat) list" where
  "point_paint =
     (let eps = f32 (5/1000);
          sx = (\<lambda>k. f32 (f32 (BSD_ROI ! k - MAX_RECT ! 0) / f32 (MAX_RECT ! 2 - MAX_RECT ! 0)));
          sy = (\<lambda>k. f32 (f32 (BSD_ROI ! k - MAX_RECT ! 1) / f32 (MAX_RECT ! 3 - MAX_RECT ! 1)))
      in [(f32 (sx 0 + eps), f32 (sy 1 + eps)), (f32 (sx 2 + eps), f32 (sy 3 - eps)), (f32 (sx 4 - eps), f32 (sy 5 - eps)),
          (f32 (sx 6 - eps), f32 (sy 7 + eps)), (f32 (sx 0 + eps), f32 (sy 1 + eps))])"

lemma all3: "i < BSD_CHIND_NUM \<longleftrightarrow> i = 0 \<or> i = 1 \<or> i = 2"
  by (auto simp: BSD_CHIND_NUM_def)

lemma BSD_ROI_values: "BSD_ROI ! 1 = 11744051 / 33554432" "BSD_ROI ! 7 = 11744051 / 33554432"
    "BSD_ROI ! 3 = 15938355 / 16777216" "BSD_ROI ! 5 = 15938355 / 16777216"
  unfolding BSD_ROI_def by (code_simp, code_simp, code_simp, code_simp)

lemma MAX_RECT_values: "MAX_RECT ! 0 = 0" "MAX_RECT ! 1 = 11744051 / 33554432" "MAX_RECT ! 2 = 1" "MAX_RECT ! 3 = 15938355 / 16777216"
  by (simp_all add: MAX_RECT_def BSD_ROI_values del: One_nat_def)

lemma rect_heights: "f32 (MAX_RECT ! 3 - MAX_RECT ! 1) = 5033165 / 8388608" "f32 (MAX_RECT ! 2 - MAX_RECT ! 0) = 1"
proof -
  have "f32 (20132659 / 33554432) = 5033165 / 8388608" "f32 1 = 1" by (code_simp, code_simp)
  then show "f32 (MAX_RECT ! 3 - MAX_RECT ! 1) = 5033165 / 8388608" "f32 (MAX_RECT ! 2 - MAX_RECT ! 0) = 1"
    by (simp_all add: MAX_RECT_values del: One_nat_def)
qed

text \<open>The overlays cover the width of the channel; the symbols fit into them, side by side at the bottom.\<close>

lemma rects:
  "pstRect 0 = \<lparr>s32X = 0, s32Y = 252, u32Width = 1280, u32Height = 432\<rparr>"
  "pstRect 1 = \<lparr>s32X = 0, s32Y = 84, u32Width = 352, u32Height = 144\<rparr>"
  "pstRect 2 = \<lparr>s32X = 0, s32Y = 378, u32Width = 1920, u32Height = 648\<rparr>"
  unfolding pstRect_def rect_heights MAX_RECT_values CHIND_WIDTH_def CHIND_HEIGHT_def by (code_simp, code_simp, code_simp)

subsection \<open>State\<close>

text \<open>The state of the program: per channel the bitmap and the buffer for one symbol, the 15 compressed symbols, which of the five are
  on, and the results of the detector (\<open>static_nBSDRe\<close> is the static variable it writes to).  \<open>shown\<close> is what the
  overlay library was last given for each channel.\<close>

record bsd =
  pvir_bsd :: "16 word list list"
  pvir_sub_bsd :: "16 word list list"
  pvir_sub_bsd_zip :: "8 word list list"
  symbol_on :: "bool list"
  bUpdate :: bool
  nBSDRe :: "32 word"
  preBSDRe :: "32 word"
  static_nBSDRe :: "32 word"
  shown :: "16 word list list"

definition rect_size :: "nat \<Rightarrow> nat" where "rect_size i = nat (u32Width (pstRect i) * u32Height (pstRect i))"
definition sub_size :: "nat \<Rightarrow> nat" where "sub_size i = nat (pwidth_sub i * pheight_sub i)"

text \<open>\<open>main\<close> clears the state, \<open>BSD_PARAM_Init\<close> allocates and clears the buffers.\<close>

definition BSD_PARAM_Init :: "16 word list list \<Rightarrow> bsd" where
  "BSD_PARAM_Init before =
     \<lparr>pvir_bsd = map (\<lambda>i. replicate (rect_size i) 0) [0..<BSD_CHIND_NUM], pvir_sub_bsd = map (\<lambda>i. replicate (sub_size i) 0) [0..<BSD_CHIND_NUM],
       pvir_sub_bsd_zip = replicate 15 [], symbol_on = replicate 5 False, bUpdate = False, nBSDRe = 0, preBSDRe = 0,
       static_nBSDRe = 0, shown = before\<rparr>"

subsection \<open>The symbols\<close>

text \<open>The pixels of a picture as bytes, low byte first.\<close>

definition pixel_bytes :: "16 word list \<Rightarrow> bytes" where
  "pixel_bytes xs = (\<lambda>q. if even q then ucast (xs ! (q div 2)) else ucast (drop_bit 8 (xs ! (q div 2))))"

definition bytes_pixels :: "bytes \<Rightarrow> nat \<Rightarrow> 16 word list" where
  "bytes_pixels m n = map (\<lambda>k. or (push_bit 8 (ucast (m (2 * k + 1)))) (ucast (m (2 * k)))) [0..<n]"

text \<open>A block of memory; what lies behind it reads as 0.\<close>

definition block :: "8 word list \<Rightarrow> bytes" where "block z = (\<lambda>q. if q < length z then z ! q else 0)"

text \<open>The pictures are read one after the other into the buffer of the channel, and compressed: \<open>load j i\<close> is what reading the
  file of symbol \<open>j\<close> for channel \<open>i\<close>, counted from 1, makes of it; \<open>tmp\<close> is the block for the compressor's output.\<close>

definition image_init_step :: "(nat \<Rightarrow> nat \<Rightarrow> 16 word list \<Rightarrow> 16 word list) \<Rightarrow> bytes \<Rightarrow> nat \<times> nat \<Rightarrow> bsd \<Rightarrow> bsd" where
  "image_init_step load tmp = (\<lambda>(i, j) s.
     let pic = load (j + 1) (i + 1) (pvir_sub_bsd s ! i)
     in s\<lparr>pvir_sub_bsd := (pvir_sub_bsd s)[i := pic],
          pvir_sub_bsd_zip := (pvir_sub_bsd_zip s)[i * 5 + j := fastlz_compress_malloc (pixel_bytes pic) (2 * sub_size i) tmp]\<rparr>)"

definition BSD_Image_Init :: "(nat \<Rightarrow> nat \<Rightarrow> 16 word list \<Rightarrow> 16 word list) \<Rightarrow> bytes \<Rightarrow> bsd \<Rightarrow> bsd" where
  "BSD_Image_Init load tmp s = fold (image_init_step load tmp) (List.product [0..<BSD_CHIND_NUM] [0..<5]) s"

definition decompress_picture :: "8 word list \<Rightarrow> nat \<Rightarrow> 16 word list \<Rightarrow> 16 word list" where
  "decompress_picture z n buf = bytes_pixels (fst (fastlz_decompress (block z) (length z) (pixel_bytes buf) (2 * n))) n"

subsection \<open>Drawing\<close>

text \<open>The result of \<open>img_memcopy\<close> is ignored.\<close>

definition put_symbol :: "nat \<Rightarrow> nat \<Rightarrow> 16 word list \<Rightarrow> 16 word list \<Rightarrow> 16 word list option" where
  "put_symbol i j pic bmp = map_option fst
     (img_memcopy bmp (u32Width (pstRect i)) (u32Height (pstRect i)) pic (pwidth_sub i) (pheight_sub i) (pwidth_sub i * int j) (pyaxis i))"

definition update_symbol :: "8 word list list \<Rightarrow> bool list \<Rightarrow> nat \<Rightarrow> nat \<Rightarrow> 16 word list \<times> 16 word list \<Rightarrow>
    (16 word list \<times> 16 word list) option" where
  "update_symbol zips on i j = (\<lambda>(bmp, sub).
     if \<not> on ! j then map_option (\<lambda>b. (b, sub)) (put_symbol i j (replicate (sub_size i) 0) bmp)
     else let sub = decompress_picture (zips ! (5 * i + j)) (sub_size i) sub
          in map_option (\<lambda>b. (b, sub)) (put_symbol i j sub bmp))"

fun update_symbols :: "8 word list list \<Rightarrow> bool list \<Rightarrow> nat \<Rightarrow> nat list \<Rightarrow> 16 word list \<times> 16 word list \<Rightarrow>
    (16 word list \<times> 16 word list) option" where
  "update_symbols zips on i [] b = Some b"
| "update_symbols zips on i (j # js) b = Option.bind (update_symbol zips on i j b) (update_symbols zips on i js)"

fun image_update :: "nat list \<Rightarrow> bsd \<Rightarrow> bsd option" where
  "image_update [] s = Some s"
| "image_update (i # is) s =
     (case update_symbols (pvir_sub_bsd_zip s) (symbol_on s) i [0..<5] (pvir_bsd s ! i, pvir_sub_bsd s ! i) of
        None \<Rightarrow> None
      | Some (bmp, sub) \<Rightarrow> image_update is (s\<lparr>pvir_bsd := (pvir_bsd s)[i := bmp], pvir_sub_bsd := (pvir_sub_bsd s)[i := sub]\<rparr>))"

definition BSD_Image_Update :: "bsd \<Rightarrow> bsd option" where "BSD_Image_Update = image_update [0..<BSD_CHIND_NUM]"

definition rect_color :: "16 word" where "rect_color = 0x8fe0"
definition pstick :: "nat \<Rightarrow> int" where "pstick i = [3, 2, 5] ! i"

fun rect_update :: "nat list \<Rightarrow> bsd \<Rightarrow> bsd option" where
  "rect_update [] s = Some s"
| "rect_update (i # is) s =
     (case paint_MultiLine_scale_uint16 (u32Width (pstRect i)) (u32Height (pstRect i)) point_paint rect_color (pstick i) (pvir_bsd s ! i) of
        None \<Rightarrow> None
      | Some bmp \<Rightarrow> rect_update is (s\<lparr>pvir_bsd := (pvir_bsd s)[i := bmp]\<rparr>))"

definition BSD_Rect_Update :: "bsd \<Rightarrow> bsd option" where "BSD_Rect_Update = rect_update [0..<BSD_CHIND_NUM]"

text \<open>\<open>set_ok\<close>: whether \<open>HI_MPI_RGN_SetBitMap\<close> succeeds for the channels; the first failure ends the update.\<close>

fun osd_update :: "(nat \<times> bool) list \<Rightarrow> bsd \<Rightarrow> bsd \<times> bool" where
  "osd_update [] s = (s, True)"
| "osd_update ((i, ok) # is) s = (if ok then osd_update is (s\<lparr>shown := (shown s)[i := pvir_bsd s ! i]\<rparr>) else (s, False))"

definition BSD_OSD_Update :: "(nat \<Rightarrow> bool) \<Rightarrow> bsd \<Rightarrow> bsd \<times> bool" where
  "BSD_OSD_Update set_ok = osd_update (map (\<lambda>i. (i, set_ok i)) [0..<BSD_CHIND_NUM])"

subsection \<open>The thread\<close>

text \<open>\<open>frame\<close>: what the detector leaves in \<open>nBSDRe\<close>; \<open>None\<close> when the video library has no frame.\<close>

definition BSD_ALG_Update :: "32 word option \<Rightarrow> bsd \<Rightarrow> bsd option" where
  "BSD_ALG_Update frame s =
     (case frame of None \<Rightarrow> None
      | Some re \<Rightarrow>
          let s = s\<lparr>static_nBSDRe := re, preBSDRe := nBSDRe s, nBSDRe := re\<rparr>
          in Some (if preBSDRe s \<noteq> nBSDRe s then s\<lparr>bUpdate := True, symbol_on := map (\<lambda>i. and (drop_bit i re) 1 \<noteq> 0) [0..<5]\<rparr> else s))"

text \<open>One turn of the loop of \<open>BSD_Handle_Body\<close>.\<close>

definition bsd_turn :: "32 word option \<times> (nat \<Rightarrow> bool) \<Rightarrow> bsd \<Rightarrow> bsd option" where
  "bsd_turn = (\<lambda>(frame, set_ok) s.
     case BSD_ALG_Update frame s of None \<Rightarrow> Some s
     | Some s \<Rightarrow>
         if \<not> bUpdate s then Some s
         else Option.bind (BSD_Image_Update s) (\<lambda>s. Option.bind (BSD_Rect_Update s) (\<lambda>s. Some (fst (BSD_OSD_Update set_ok s)))))"

fun BSD_Handle_Body :: "(32 word option \<times> (nat \<Rightarrow> bool)) list \<Rightarrow> bsd \<Rightarrow> bsd option" where
  "BSD_Handle_Body [] s = Some s"
| "BSD_Handle_Body (t # ts) s = Option.bind (bsd_turn t s) (BSD_Handle_Body ts)"

text \<open>\<open>lib\<close>: whether the fonts, the overlays and the detector are initialised and the text is shown; \<open>before\<close>: the overlays
  before.  \<open>Some (s, False)\<close>: the initialisation fails.\<close>

definition BSD_Init :: "(nat \<Rightarrow> nat \<Rightarrow> 16 word list \<Rightarrow> 16 word list) \<Rightarrow> bytes \<Rightarrow> bool \<Rightarrow> bool \<Rightarrow> (nat \<Rightarrow> bool) \<Rightarrow> 16 word list list \<Rightarrow>
    (bsd \<times> bool) option" where
  "BSD_Init load tmp lib font_ok set_ok before =
     (let s = BSD_Image_Init load tmp (BSD_PARAM_Init before)
      in if \<not> lib then Some (s, False)
         else Option.bind (BSD_Image_Update s) (\<lambda>s.
           if \<not> font_ok then Some (s, False)
           else Option.bind (BSD_Rect_Update s) (\<lambda>s. Some (BSD_OSD_Update set_ok s))))"

subsection \<open>What is stored\<close>

lemma pixels_of_bytes: "\<forall>q < 2 * length xs. m q = pixel_bytes xs q \<Longrightarrow> bytes_pixels m (length xs) = xs"
proof (rule nth_equalityI)
  fix k
  assume m: "\<forall>q < 2 * length xs. m q = pixel_bytes xs q" "k < length (bytes_pixels m (length xs))"
  have join: "or (push_bit 8 (ucast (ucast (drop_bit 8 x) :: 8 word))) (ucast (ucast x :: 8 word)) = x" for x :: "16 word"
    by (rule bit_word_eqI) (auto simp: bit_simps)
  have "k < length xs" using m(2) by (simp add: bytes_pixels_def)
  then show "bytes_pixels m (length xs) ! k = xs ! k" using m(1) by (simp add: bytes_pixels_def pixel_bytes_def join)
qed (simp add: bytes_pixels_def)

lemma stored_picture:
  assumes "length pic = n" "0 < n"
  shows "decompress_picture (fastlz_compress_malloc (pixel_bytes pic) (2 * n) tmp) n buf = pic"
proof -
  let ?z = "fastlz_compress_malloc (pixel_bytes pic) (2 * n) tmp"
  obtain m where m: "fastlz_decompress (block ?z) (length ?z) (pixel_bytes buf) (2 * n) = (m, 2 * n)" "\<forall>q<2 * n. m q = pixel_bytes pic q"
    using fastlz_lossless [of "2 * n" "2 * n" "pixel_bytes pic" tmp "block ?z" "pixel_bytes buf"] assms by (auto simp: block_def)
  then show ?thesis using pixels_of_bytes [of pic m] assms(1) by (simp add: decompress_picture_def)
qed

text \<open>What the display needs of the compression: a picture that is unpacked, into whatever buffer, is the one that was packed.\<close>

locale picture_store =
  fixes pack :: "'a \<Rightarrow> 'z" and unpack :: "'z \<Rightarrow> 'a \<Rightarrow> 'a" and fits :: "'a \<Rightarrow> bool"
  assumes unpack_pack: "fits x \<Longrightarrow> unpack (pack x) buf = x"
begin

lemma unpack_table: "k < length xs \<Longrightarrow> \<forall>x \<in> set xs. fits x \<Longrightarrow> unpack (map pack xs ! k) buf = xs ! k"
  by (simp add: unpack_pack)

lemma pack_inj: "inj_on pack {x. fits x}"
  by (rule inj_on_inverseI [where g = "\<lambda>z. unpack z undefined"]) (simp add: unpack_pack)

end

interpretation fastlz_store: picture_store "\<lambda>pic. fastlz_compress_malloc (pixel_bytes pic) (2 * n) tmp"
    "\<lambda>z. decompress_picture z n" "\<lambda>pic. length pic = n \<and> 0 < n" for n tmp
  by unfold_locales (simp add: stored_picture)

text \<open>The picture of symbol \<open>j\<close> (from 0) of channel \<open>i\<close>: what reading its file makes of the one before.\<close>

fun loaded :: "(nat \<Rightarrow> nat \<Rightarrow> 16 word list \<Rightarrow> 16 word list) \<Rightarrow> nat \<Rightarrow> nat \<Rightarrow> 16 word list" where
  "loaded load i 0 = load 1 (i + 1) (replicate (sub_size i) 0)"
| "loaded load i (Suc j) = load (Suc (Suc j)) (i + 1) (loaded load i j)"

lemma length_loaded: "\<forall>j i buf. length (load j i buf) = length buf \<Longrightarrow> length (loaded load i j) = sub_size i"
  by (induction j) simp_all

lemma sizes: "sub_size 0 = 41984" "sub_size 1 = 3150" "sub_size 2 = 94464"
  by (simp_all add: sub_size_def pwidth_sub_def pheight_sub_def BSD_WIDTH_def BSD_HEIGHT_def)

lemma geometry:
  "i < BSD_CHIND_NUM \<Longrightarrow> 0 < pwidth_sub i \<and> 5 * pwidth_sub i \<le> u32Width (pstRect i) \<and> 0 \<le> pyaxis i \<and> 0 < pheight_sub i \<and>
    pyaxis i + pheight_sub i = u32Height (pstRect i)"
  unfolding all3 by (elim disjE) (simp_all add: rects pyaxis_def pwidth_sub_def pheight_sub_def BSD_WIDTH_def BSD_HEIGHT_def del: One_nat_def)

definition stored :: "(nat \<Rightarrow> nat \<Rightarrow> 16 word list \<Rightarrow> 16 word list) \<Rightarrow> 8 word list list \<Rightarrow> bool" where
  "stored load zips \<longleftrightarrow> (\<forall>i<BSD_CHIND_NUM. \<forall>j<5. \<forall>buf. decompress_picture (zips ! (5 * i + j)) (sub_size i) buf = loaded load i j \<and>
     length (loaded load i j) = sub_size i)"

lemma image_init_values:
  "pvir_sub_bsd_zip (BSD_Image_Init load tmp (BSD_PARAM_Init before)) =
     [fastlz_compress_malloc (pixel_bytes (loaded load i j)) (2 * sub_size i) tmp. i \<leftarrow> [0, 1, 2], j \<leftarrow> [0, 1, 2, 3, 4]] \<and>
   pvir_sub_bsd (BSD_Image_Init load tmp (BSD_PARAM_Init before)) = [loaded load 0 4, loaded load 1 4, loaded load 2 4]"
proof -
  have p: "List.product [0..<BSD_CHIND_NUM] [0..<5] = [(0, 0), (0, 1), (0, 2), (0, 3), (0, 4), (1, 0), (1, 1), (1, 2), (1, 3), (1, 4),
      (2, 0), (2, 1), (2, 2), (2, 3), (2, 4)]" by code_simp
  have r: "replicate 15 x = [x, x, x, x, x, x, x, x, x, x, x, x, x, x, x]" "[0..<BSD_CHIND_NUM] = [0, 1, 2]" for x :: "8 word list"
    by (simp add: eval_nat_numeral, code_simp)
  show ?thesis
    unfolding BSD_Image_Init_def p unfolding BSD_PARAM_Init_def r
    by (simp add: image_init_step_def Let_def eval_nat_numeral)
qed

lemma image_init_stored:
  assumes "\<forall>j i buf. length (load j i buf) = length buf"
  shows "stored load (pvir_sub_bsd_zip (BSD_Image_Init load tmp (BSD_PARAM_Init before)))"
proof -
  have z: "pvir_sub_bsd_zip (BSD_Image_Init load tmp (BSD_PARAM_Init before)) ! (5 * i + j) =
      fastlz_compress_malloc (pixel_bytes (loaded load i j)) (2 * sub_size i) tmp" if "i < BSD_CHIND_NUM" "j < 5" for i j
  proof -
    have "j = 0 \<or> j = 1 \<or> j = 2 \<or> j = 3 \<or> j = 4" using that(2) by linarith
    then show ?thesis using that(1) unfolding all3 image_init_values [THEN conjunct1] by (elim disjE) simp_all
  qed
  have "0 < sub_size i" if "i < BSD_CHIND_NUM" for i using that sizes unfolding all3 by auto
  then show ?thesis unfolding stored_def by (simp add: z fastlz_store.unpack_pack length_loaded [OF assms])
qed

subsection \<open>What is drawn\<close>

abbreviation on_line :: "nat \<Rightarrow> nat \<Rightarrow> bool" where
  "on_line i \<equiv> painted (u32Width (pstRect i)) (u32Height (pstRect i))
     (line_points (u32Width (pstRect i)) (u32Height (pstRect i)) point_paint (pstick i))"

text \<open>The pixel at row \<open>r\<close> and column \<open>c\<close> of a bitmap of channel \<open>i\<close>.\<close>

definition inside :: "nat \<Rightarrow> int \<Rightarrow> int \<Rightarrow> bool" where
  "inside i r c \<longleftrightarrow> 0 \<le> r \<and> r < u32Height (pstRect i) \<and> 0 \<le> c \<and> c < u32Width (pstRect i)"

definition place_of :: "nat \<Rightarrow> int \<Rightarrow> int \<Rightarrow> nat" where "place_of i r c = nat (r * u32Width (pstRect i) + c)"

text \<open>Below \<open>pyaxis\<close> there are the five symbols, side by side: the picture when the symbol is on, nothing otherwise.\<close>

definition panel_pixel :: "(nat \<Rightarrow> nat \<Rightarrow> 16 word list) \<Rightarrow> bool list \<Rightarrow> nat \<Rightarrow> int \<Rightarrow> int \<Rightarrow> 16 word" where
  "panel_pixel pics on i r c =
     (let w = pwidth_sub i; j = nat (c div w)
      in if pyaxis i \<le> r \<and> c < 5 * w \<and> on ! j then pics i j ! nat ((r - pyaxis i) * w + c mod w) else 0)"

text \<open>The outline of the watched area is on top of them.\<close>

definition render_pixel :: "(nat \<Rightarrow> nat \<Rightarrow> 16 word list) \<Rightarrow> bool list \<Rightarrow> nat \<Rightarrow> int \<Rightarrow> int \<Rightarrow> 16 word" where
  "render_pixel pics on i r c = (if on_line i (place_of i r c) then rect_color else panel_pixel pics on i r c)"

text \<open>A bitmap with nothing but the symbols and the line; with the right symbols besides; and with the line over them.\<close>

definition clean :: "nat \<Rightarrow> 16 word list \<Rightarrow> bool" where
  "clean i bmp \<longleftrightarrow> length bmp = rect_size i \<and>
     (\<forall>r c. inside i r c \<and> \<not> (pyaxis i \<le> r \<and> c < 5 * pwidth_sub i) \<and> \<not> on_line i (place_of i r c) \<longrightarrow> bmp ! place_of i r c = 0)"

definition symbols_drawn :: "(nat \<Rightarrow> nat \<Rightarrow> 16 word list) \<Rightarrow> bool list \<Rightarrow> nat \<Rightarrow> 16 word list \<Rightarrow> bool" where
  "symbols_drawn pics on i bmp \<longleftrightarrow> length bmp = rect_size i \<and>
     (\<forall>r c. inside i r c \<and> \<not> on_line i (place_of i r c) \<longrightarrow> bmp ! place_of i r c = panel_pixel pics on i r c)"

definition rendered :: "(nat \<Rightarrow> nat \<Rightarrow> 16 word list) \<Rightarrow> bool list \<Rightarrow> nat \<Rightarrow> 16 word list \<Rightarrow> bool" where
  "rendered pics on i bmp \<longleftrightarrow> length bmp = rect_size i \<and> (\<forall>r c. inside i r c \<longrightarrow> bmp ! place_of i r c = render_pixel pics on i r c)"

lemma rendered_drawn: "rendered pics on i bmp \<Longrightarrow> symbols_drawn pics on i bmp"
  by (auto simp: rendered_def symbols_drawn_def render_pixel_def)

lemma drawn_clean: "symbols_drawn pics on i bmp \<Longrightarrow> clean i bmp"
  by (auto simp: symbols_drawn_def clean_def panel_pixel_def Let_def)

lemma place_of_less: "inside i r c \<Longrightarrow> place_of i r c < rect_size i"
proof -
  assume a: "inside i r c"
  let ?W = "u32Width (pstRect i)"
  have "r * ?W + c < (r + 1) * ?W" using a by (simp add: inside_def distrib_right)
  also have "\<dots> \<le> u32Height (pstRect i) * ?W" using a by (intro mult_right_mono) (auto simp: inside_def)
  finally show ?thesis using a by (simp add: place_of_def rect_size_def mult.commute inside_def)
qed

lemma put_symbol_nth:
  assumes "i < BSD_CHIND_NUM" "j < 5" "length bmp = rect_size i" "sub_size i \<le> length pic"
  shows "\<exists>b. put_symbol i j pic bmp = Some b \<and> length b = rect_size i \<and>
    (\<forall>r c. inside i r c \<longrightarrow> b ! place_of i r c =
      (if pyaxis i \<le> r \<and> pwidth_sub i * int j \<le> c \<and> c < pwidth_sub i * int j + pwidth_sub i
       then pic ! nat ((r - pyaxis i) * pwidth_sub i + (c - pwidth_sub i * int j)) else bmp ! place_of i r c))"
proof -
  note g = geometry [OF assms(1)]
  have "pwidth_sub i * int j + pwidth_sub i = pwidth_sub i * (int j + 1)" by (simp add: distrib_left)
  also have "\<dots> \<le> pwidth_sub i * 5" using g assms(2) by (intro mult_left_mono) auto
  finally have w: "pwidth_sub i * int j + pwidth_sub i \<le> u32Width (pstRect i)" using g by linarith
  have x: "0 \<le> pwidth_sub i * int j" using g by simp
  obtain d where d: "img_memcopy bmp (u32Width (pstRect i)) (u32Height (pstRect i)) pic (pwidth_sub i) (pheight_sub i)
      (pwidth_sub i * int j) (pyaxis i) = Some (d, SV_SUCCESS)" "length d = length bmp"
    "\<forall>r c. 0 \<le> r \<and> r < u32Height (pstRect i) \<and> 0 \<le> c \<and> c < u32Width (pstRect i) \<longrightarrow>
      d ! nat (r * u32Width (pstRect i) + c) = (if pyaxis i \<le> r \<and> r < pyaxis i + pheight_sub i \<and> pwidth_sub i * int j \<le> c \<and>
        c < pwidth_sub i * int j + pwidth_sub i then pic ! nat ((r - pyaxis i) * pwidth_sub i + (c - pwidth_sub i * int j))
       else bmp ! nat (r * u32Width (pstRect i) + c))"
    using img_memcopy_nth [OF x _ w, of "pyaxis i" "pheight_sub i" "u32Height (pstRect i)" bmp pic] g assms(3,4)
    unfolding rect_size_def sub_size_def by auto
  then show ?thesis using g assms(3) unfolding put_symbol_def inside_def place_of_def by auto
qed

text \<open>The column decides which symbol a pixel belongs to.\<close>

lemma column_div: "0 < w \<Longrightarrow> w * int j \<le> c \<and> c < w * int j + w \<longleftrightarrow> c div w = int j"
proof
  assume w: "0 < w" and "w * int j \<le> c \<and> c < w * int j + w"
  then show "c div w = int j" by (intro int_div_pos_eq [of _ _ _ "c - w * int j"]) auto
next
  assume w: "0 < w" and "c div w = int j"
  then have "w * int j + c mod w = c" using mult_div_mod_eq [of w c] by simp
  moreover have "c mod w < w" "0 \<le> c mod w" using w by simp_all
  ultimately show "w * int j \<le> c \<and> c < w * int j + w" by linarith
qed

lemma column_less: "0 < w \<Longrightarrow> c div w < 5 \<longleftrightarrow> c < 5 * (w :: int)"
proof
  assume w: "0 < w" and "c div w < 5"
  then have "w * (c div w) \<le> w * 4" by (intro mult_left_mono) auto
  then show "c < 5 * w" using mult_div_mod_eq [of w c] pos_mod_bound [OF w, of c] by linarith
next
  assume w: "0 < w" and c: "c < 5 * w"
  show "c div w < 5"
  proof (rule ccontr)
    assume "\<not> c div w < 5"
    then have "w * 5 \<le> w * (c div w)" using w by (intro mult_left_mono) auto
    then show False using mult_div_mod_eq [of w c] pos_mod_sign [OF w, of c] c by linarith
  qed
qed

lemma update_symbol_nth:
  assumes "i < BSD_CHIND_NUM" "j < 5" "length bmp = rect_size i" "stored load zips" "length sub = sub_size i"
  shows "\<exists>b sub'. update_symbol zips on i j (bmp, sub) = Some (b, sub') \<and> length b = rect_size i \<and> length sub' = sub_size i \<and>
    (\<forall>r c. inside i r c \<longrightarrow> b ! place_of i r c =
      (if pyaxis i \<le> r \<and> c div pwidth_sub i = int j then panel_pixel (loaded load) on i r c else bmp ! place_of i r c))"
proof -
  note g = geometry [OF assms(1)]
  let ?pic = "if on ! j then loaded load i j else replicate (sub_size i) 0"
  have z: "decompress_picture (zips ! (5 * i + j)) (sub_size i) sub = loaded load i j" "length (loaded load i j) = sub_size i"
    using assms(1,2,4) unfolding stored_def by blast+
  have "sub_size i \<le> length ?pic" using z(2) by simp
  from put_symbol_nth [OF assms(1-3) this]
  obtain b where b: "put_symbol i j ?pic bmp = Some b" "length b = rect_size i"
    "\<forall>r c. inside i r c \<longrightarrow> b ! place_of i r c =
      (if pyaxis i \<le> r \<and> pwidth_sub i * int j \<le> c \<and> c < pwidth_sub i * int j + pwidth_sub i
       then ?pic ! nat ((r - pyaxis i) * pwidth_sub i + (c - pwidth_sub i * int j)) else bmp ! place_of i r c)"
    by blast
  have pix: "?pic ! nat ((r - pyaxis i) * pwidth_sub i + (c - pwidth_sub i * int j)) = panel_pixel (loaded load) on i r c"
    if "inside i r c" "pyaxis i \<le> r" "c div pwidth_sub i = int j" for r c
  proof -
    have m: "c mod pwidth_sub i = c - pwidth_sub i * int j" using mult_div_mod_eq [of "pwidth_sub i" c] that(3) by simp
    have bnd: "c mod pwidth_sub i < pwidth_sub i" "0 \<le> c mod pwidth_sub i" using g by simp_all
    have "pwidth_sub i * int j \<le> pwidth_sub i * 4" using g assms(2) by (intro mult_left_mono) auto
    then have "c < 5 * pwidth_sub i" using m bnd by linarith
    moreover have "nat ((r - pyaxis i) * pwidth_sub i + c mod pwidth_sub i) < sub_size i"
    proof -
      have "(r - pyaxis i) * pwidth_sub i + c mod pwidth_sub i < (r - pyaxis i + 1) * pwidth_sub i" using bnd by (simp add: distrib_right)
      also have "\<dots> \<le> pheight_sub i * pwidth_sub i" using g that(1) by (intro mult_right_mono) (auto simp: inside_def)
      finally show ?thesis using that(2) bnd g by (simp add: sub_size_def mult.commute)
    qed
    ultimately show ?thesis using that m by (simp add: panel_pixel_def Let_def)
  qed
  have "update_symbol zips on i j (bmp, sub) = Some (b, if on ! j then loaded load i j else sub)"
    using b(1) z by (cases "on ! j") (simp_all add: update_symbol_def Let_def)
  moreover have "\<forall>r c. inside i r c \<longrightarrow> b ! place_of i r c =
      (if pyaxis i \<le> r \<and> c div pwidth_sub i = int j then panel_pixel (loaded load) on i r c else bmp ! place_of i r c)"
    using b(3) pix column_div [of "pwidth_sub i"] g by (metis (no_types, lifting))
  ultimately show ?thesis using b(2) z(2) assms(5) by auto
qed

lemma update_symbols_nth:
  assumes "i < BSD_CHIND_NUM" "stored load zips"
  shows "set js \<subseteq> {0..<5} \<Longrightarrow> length bmp = rect_size i \<Longrightarrow> length sub = sub_size i \<Longrightarrow>
    \<exists>b sub'. update_symbols zips on i js (bmp, sub) = Some (b, sub') \<and> length b = rect_size i \<and> length sub' = sub_size i \<and>
    (\<forall>r c. inside i r c \<longrightarrow> b ! place_of i r c =
      (if pyaxis i \<le> r \<and> c div pwidth_sub i \<in> int ` set js then panel_pixel (loaded load) on i r c else bmp ! place_of i r c))"
proof (induction js arbitrary: bmp sub)
  case (Cons j js)
  obtain b1 s1 where 1: "update_symbol zips on i j (bmp, sub) = Some (b1, s1)" "length b1 = rect_size i" "length s1 = sub_size i"
    "\<forall>r c. inside i r c \<longrightarrow> b1 ! place_of i r c =
      (if pyaxis i \<le> r \<and> c div pwidth_sub i = int j then panel_pixel (loaded load) on i r c else bmp ! place_of i r c)"
    using update_symbol_nth [OF assms(1) _ Cons.prems(2) assms(2) Cons.prems(3), of j on] Cons.prems(1) by auto
  obtain b2 s2 where 2: "update_symbols zips on i js (b1, s1) = Some (b2, s2)" "length b2 = rect_size i" "length s2 = sub_size i"
    "\<forall>r c. inside i r c \<longrightarrow> b2 ! place_of i r c =
      (if pyaxis i \<le> r \<and> c div pwidth_sub i \<in> int ` set js then panel_pixel (loaded load) on i r c else b1 ! place_of i r c)"
    using Cons.IH [of b1 s1] Cons.prems(1) 1(2,3) by auto
  show ?case using 1 2 by auto
qed simp

lemma symbols_of_clean:
  assumes "i < BSD_CHIND_NUM" "stored load zips" "clean i bmp" "length sub = sub_size i"
  shows "\<exists>b sub'. update_symbols zips on i [0..<5] (bmp, sub) = Some (b, sub') \<and> length sub' = sub_size i \<and>
    symbols_drawn (loaded load) on i b"
proof -
  note g = geometry [OF assms(1)]
  have len: "length bmp = rect_size i" using assms(3) by (simp add: clean_def)
  have "set [0..<5] \<subseteq> {0..<5 :: nat}" by simp
  from update_symbols_nth [OF assms(1,2) this len assms(4), of on]
  obtain b sub' where b: "update_symbols zips on i [0..<5] (bmp, sub) = Some (b, sub')" "length b = rect_size i" "length sub' = sub_size i"
    "\<forall>r c. inside i r c \<longrightarrow> b ! place_of i r c =
      (if pyaxis i \<le> r \<and> c div pwidth_sub i \<in> int ` set [0..<5] then panel_pixel (loaded load) on i r c else bmp ! place_of i r c)"
    by blast
  have col: "c div pwidth_sub i \<in> int ` set [0..<5] \<longleftrightarrow> c < 5 * pwidth_sub i" if "inside i r c" for r c
  proof -
    have "c div pwidth_sub i \<in> int ` {0..<5} \<longleftrightarrow> 0 \<le> c div pwidth_sub i \<and> c div pwidth_sub i < 5"
      by (auto simp: image_iff intro!: bexI [of _ "nat (c div pwidth_sub i)"])
    moreover have "0 \<le> c div pwidth_sub i" using that g by (simp add: inside_def pos_imp_zdiv_nonneg_iff)
    moreover have "c div pwidth_sub i < 5 \<longleftrightarrow> c < 5 * pwidth_sub i" using g by (simp add: column_less)
    ultimately show ?thesis by simp
  qed
  have "b ! place_of i r c = panel_pixel (loaded load) on i r c" if rc: "inside i r c" "\<not> on_line i (place_of i r c)" for r c
  proof (cases "pyaxis i \<le> r \<and> c < 5 * pwidth_sub i")
    case True
    then show ?thesis using b(4) rc(1) col [OF rc(1)] by simp
  next
    case False
    then have "bmp ! place_of i r c = 0" using assms(3) rc unfolding clean_def by blast
    moreover have "panel_pixel (loaded load) on i r c = 0" using False by (auto simp: panel_pixel_def Let_def)
    ultimately show ?thesis using b(4) rc(1) col [OF rc(1)] False by auto
  qed
  then show ?thesis using b by (auto simp: symbols_drawn_def)
qed

lemma line_over_symbols:
  assumes "i < BSD_CHIND_NUM" "symbols_drawn pics on i bmp"
  shows "\<exists>b. paint_MultiLine_scale_uint16 (u32Width (pstRect i)) (u32Height (pstRect i)) point_paint rect_color (pstick i) bmp = Some b \<and>
    rendered pics on i b"
proof -
  have len: "length bmp = rect_size i" using assms(2) by (simp add: symbols_drawn_def)
  obtain b where b: "paint_MultiLine_scale_uint16 (u32Width (pstRect i)) (u32Height (pstRect i)) point_paint rect_color (pstick i) bmp = Some b"
    "length b = length bmp" "\<forall>p<length bmp. b ! p = (if on_line i p then rect_color else bmp ! p)"
    unfolding paint_MultiLine_points using put_pixels_nth [of bmp] len unfolding rect_size_def by metis
  then show ?thesis using assms(2) place_of_less unfolding rendered_def symbols_drawn_def render_pixel_def by fastforce
qed

subsection \<open>The invariant\<close>

definition bits_of :: "32 word \<Rightarrow> bool list" where "bits_of re = map (\<lambda>i. and (drop_bit i re) 1 \<noteq> 0) [0..<5]"

definition bsd_inv :: "(nat \<Rightarrow> nat \<Rightarrow> 16 word list \<Rightarrow> 16 word list) \<Rightarrow> bsd \<Rightarrow> bool" where
  "bsd_inv load s \<longleftrightarrow> length (pvir_bsd s) = BSD_CHIND_NUM \<and> length (pvir_sub_bsd s) = BSD_CHIND_NUM \<and> length (shown s) = BSD_CHIND_NUM \<and>
     stored load (pvir_sub_bsd_zip s) \<and> symbol_on s = bits_of (nBSDRe s) \<and>
     (\<forall>i<BSD_CHIND_NUM. clean i (pvir_bsd s ! i) \<and> length (pvir_sub_bsd s ! i) = sub_size i)"

definition showing :: "(nat \<Rightarrow> nat \<Rightarrow> 16 word list \<Rightarrow> 16 word list) \<Rightarrow> 32 word \<Rightarrow> bsd \<Rightarrow> bool" where
  "showing load re s \<longleftrightarrow> (\<forall>i<BSD_CHIND_NUM. rendered (loaded load) (bits_of re) i (shown s ! i))"

text \<open>The updates change the bitmaps only.\<close>

lemma image_update_ok:
  "set is \<subseteq> {0..<BSD_CHIND_NUM} \<Longrightarrow> bsd_inv load s \<Longrightarrow>
    \<exists>s'. image_update is s = Some s' \<and> bsd_inv load s' \<and> nBSDRe s' = nBSDRe s \<and> shown s' = shown s \<and> bUpdate s' = bUpdate s \<and>
      (\<forall>i<BSD_CHIND_NUM. i \<in> set is \<or> symbols_drawn (loaded load) (symbol_on s) i (pvir_bsd s ! i) \<longrightarrow>
         symbols_drawn (loaded load) (symbol_on s) i (pvir_bsd s' ! i))"
proof (induction "is" arbitrary: s)
  case (Cons i "is")
  have i: "i < BSD_CHIND_NUM" using Cons.prems(1) by simp
  have inv: "stored load (pvir_sub_bsd_zip s)" "clean i (pvir_bsd s ! i)" "length (pvir_sub_bsd s ! i) = sub_size i"
    using Cons.prems(2) i by (auto simp: bsd_inv_def)
  obtain b sub where b: "update_symbols (pvir_sub_bsd_zip s) (symbol_on s) i [0..<5] (pvir_bsd s ! i, pvir_sub_bsd s ! i) = Some (b, sub)"
    "length sub = sub_size i" "symbols_drawn (loaded load) (symbol_on s) i b"
    using symbols_of_clean [OF i inv] by blast
  let ?s = "s\<lparr>pvir_bsd := (pvir_bsd s)[i := b], pvir_sub_bsd := (pvir_sub_bsd s)[i := sub]\<rparr>"
  have "bsd_inv load ?s" using Cons.prems(2) b i drawn_clean [OF b(3)] by (auto simp: bsd_inv_def nth_list_update)
  then obtain s' where s': "image_update is ?s = Some s'" "bsd_inv load s'" "nBSDRe s' = nBSDRe s" "shown s' = shown s" "bUpdate s' = bUpdate s"
    "\<forall>k<BSD_CHIND_NUM. k \<in> set is \<or> symbols_drawn (loaded load) (symbol_on s) k (pvir_bsd ?s ! k) \<longrightarrow>
       symbols_drawn (loaded load) (symbol_on s) k (pvir_bsd s' ! k)"
    using Cons.IH [of ?s] Cons.prems(1) by auto
  have "symbols_drawn (loaded load) (symbol_on s) k (pvir_bsd s' ! k)"
    if "k < BSD_CHIND_NUM" "k \<in> set (i # is) \<or> symbols_drawn (loaded load) (symbol_on s) k (pvir_bsd s ! k)" for k
  proof -
    have "k \<in> set is \<or> symbols_drawn (loaded load) (symbol_on s) k (pvir_bsd ?s ! k)"
      using that b(3) i Cons.prems(2) by (cases "k = i") (auto simp: bsd_inv_def)
    then show ?thesis using s'(6) that(1) by blast
  qed
  then show ?case using s' b(1) by (intro exI [of _ s']) simp
qed simp

lemma rect_update_ok:
  "set is \<subseteq> {0..<BSD_CHIND_NUM} \<Longrightarrow> bsd_inv load s \<Longrightarrow> \<forall>i<BSD_CHIND_NUM. symbols_drawn (loaded load) (symbol_on s) i (pvir_bsd s ! i) \<Longrightarrow>
    \<exists>s'. rect_update is s = Some s' \<and> bsd_inv load s' \<and> nBSDRe s' = nBSDRe s \<and> shown s' = shown s \<and> bUpdate s' = bUpdate s \<and>
      (\<forall>i<BSD_CHIND_NUM. i \<in> set is \<or> rendered (loaded load) (symbol_on s) i (pvir_bsd s ! i) \<longrightarrow>
         rendered (loaded load) (symbol_on s) i (pvir_bsd s' ! i))"
proof (induction "is" arbitrary: s)
  case (Cons i "is")
  have i: "i < BSD_CHIND_NUM" using Cons.prems(1) by simp
  obtain b where b: "paint_MultiLine_scale_uint16 (u32Width (pstRect i)) (u32Height (pstRect i)) point_paint rect_color (pstick i) (pvir_bsd s ! i) = Some b"
    "rendered (loaded load) (symbol_on s) i b"
    using line_over_symbols [OF i] Cons.prems(3) i by blast
  let ?s = "s\<lparr>pvir_bsd := (pvir_bsd s)[i := b]\<rparr>"
  note d = rendered_drawn [OF b(2)]
  have "bsd_inv load ?s" using Cons.prems(2) b i drawn_clean [OF d] by (auto simp: bsd_inv_def nth_list_update)
  moreover have "\<forall>k<BSD_CHIND_NUM. symbols_drawn (loaded load) (symbol_on ?s) k (pvir_bsd ?s ! k)"
    using Cons.prems(2,3) d i by (auto simp: bsd_inv_def nth_list_update)
  ultimately obtain s' where s': "rect_update is ?s = Some s'" "bsd_inv load s'" "nBSDRe s' = nBSDRe s" "shown s' = shown s" "bUpdate s' = bUpdate s"
    "\<forall>k<BSD_CHIND_NUM. k \<in> set is \<or> rendered (loaded load) (symbol_on s) k (pvir_bsd ?s ! k) \<longrightarrow>
       rendered (loaded load) (symbol_on s) k (pvir_bsd s' ! k)"
    using Cons.IH [of ?s] Cons.prems(1) by auto
  have "rendered (loaded load) (symbol_on s) k (pvir_bsd s' ! k)"
    if "k < BSD_CHIND_NUM" "k \<in> set (i # is) \<or> rendered (loaded load) (symbol_on s) k (pvir_bsd s ! k)" for k
  proof -
    have "k \<in> set is \<or> rendered (loaded load) (symbol_on s) k (pvir_bsd ?s ! k)"
      using that b(2) i Cons.prems(2) by (cases "k = i") (auto simp: bsd_inv_def)
    then show ?thesis using s'(6) that(1) by blast
  qed
  then show ?case using s' b(1) by (intro exI [of _ s']) simp
qed simp

lemma redraw_ok:
  assumes "bsd_inv load s"
  shows "\<exists>s1 s2. BSD_Image_Update s = Some s1 \<and> BSD_Rect_Update s1 = Some s2 \<and> bsd_inv load s2 \<and> nBSDRe s2 = nBSDRe s \<and>
    shown s2 = shown s \<and> bUpdate s2 = bUpdate s \<and> (\<forall>i<BSD_CHIND_NUM. rendered (loaded load) (bits_of (nBSDRe s)) i (pvir_bsd s2 ! i))"
proof -
  have all: "set [0..<BSD_CHIND_NUM] \<subseteq> {0..<BSD_CHIND_NUM}" by simp
  obtain s1 where s1: "BSD_Image_Update s = Some s1" "bsd_inv load s1" "nBSDRe s1 = nBSDRe s" "shown s1 = shown s" "bUpdate s1 = bUpdate s"
    "\<forall>i<BSD_CHIND_NUM. symbols_drawn (loaded load) (symbol_on s) i (pvir_bsd s1 ! i)"
    using image_update_ok [OF all assms] unfolding BSD_Image_Update_def by auto
  have on: "symbol_on s1 = symbol_on s" "symbol_on s = bits_of (nBSDRe s)" using s1(2,3) assms by (simp_all add: bsd_inv_def)
  from rect_update_ok [OF all s1(2)] s1 on
  obtain s2 where "BSD_Rect_Update s1 = Some s2" "bsd_inv load s2" "nBSDRe s2 = nBSDRe s" "shown s2 = shown s" "bUpdate s2 = bUpdate s"
    "\<forall>i<BSD_CHIND_NUM. rendered (loaded load) (symbol_on s) i (pvir_bsd s2 ! i)"
    unfolding BSD_Rect_Update_def by auto
  then show ?thesis using s1(1) on(2) by auto
qed

lemma osd_update_ok:
  assumes "bsd_inv load s"
  shows "bsd_inv load (fst (BSD_OSD_Update set_ok s)) \<and> nBSDRe (fst (BSD_OSD_Update set_ok s)) = nBSDRe s \<and>
    bUpdate (fst (BSD_OSD_Update set_ok s)) = bUpdate s \<and>
    (snd (BSD_OSD_Update set_ok s) \<longrightarrow> (\<forall>i<BSD_CHIND_NUM. shown (fst (BSD_OSD_Update set_ok s)) ! i = pvir_bsd s ! i)) \<and>
    ((\<forall>i<BSD_CHIND_NUM. set_ok i) \<longrightarrow> snd (BSD_OSD_Update set_ok s))"
proof -
  have l: "map (\<lambda>i. (i, set_ok i)) [0..<BSD_CHIND_NUM] = [(0, set_ok 0), (1, set_ok 1), (2, set_ok 2)]"
    by (simp add: BSD_CHIND_NUM_def upt_rec eval_nat_numeral)
  have "length (shown s) = 3" using assms by (simp add: bsd_inv_def BSD_CHIND_NUM_def)
  then show ?thesis using assms unfolding BSD_OSD_Update_def l
    by (auto simp: bsd_inv_def all3)
qed

lemma turn_ok:
  assumes "bsd_inv load s" "bUpdate s \<or> showing load (nBSDRe s) s"
  shows "\<exists>s'. bsd_turn (frame, set_ok) s = Some s' \<and> bsd_inv load s' \<and> (bUpdate s' \<or> showing load (nBSDRe s') s') \<and>
    (\<forall>re. frame = Some re \<and> (\<forall>i<BSD_CHIND_NUM. set_ok i) \<longrightarrow> showing load re s')"
proof (cases "BSD_ALG_Update frame s")
  case None
  then show ?thesis using assms by (auto simp: bsd_turn_def BSD_ALG_Update_def Let_def split: option.splits)
next
  case (Some s1)
  then obtain re where re: "frame = Some re" "nBSDRe s1 = re" "shown s1 = shown s" "bUpdate s1 \<or> re = nBSDRe s \<and> \<not> bUpdate s"
    and inv: "bsd_inv load s1"
    using assms(1) by (auto simp: BSD_ALG_Update_def Let_def bsd_inv_def bits_of_def split: option.splits if_splits)
  show ?thesis
  proof (cases "bUpdate s1")
    case False
    then have "showing load re s1" using re assms(2) by (auto simp: showing_def)
    then show ?thesis using False Some re inv by (auto simp: bsd_turn_def)
  next
    case True
    obtain s2 s3 where d: "BSD_Image_Update s1 = Some s2" "BSD_Rect_Update s2 = Some s3" "bsd_inv load s3" "nBSDRe s3 = re" "bUpdate s3"
      "\<forall>i<BSD_CHIND_NUM. rendered (loaded load) (bits_of re) i (pvir_bsd s3 ! i)"
      using redraw_ok [OF inv] re(2) True by auto
    let ?s = "fst (BSD_OSD_Update set_ok s3)"
    note o = osd_update_ok [OF d(3), of set_ok]
    have "bsd_turn (frame, set_ok) s = Some ?s" using Some True d(1,2) by (simp add: bsd_turn_def)
    moreover have "bUpdate ?s" using o d(5) by simp
    moreover have "showing load re ?s" if "\<forall>i<BSD_CHIND_NUM. set_ok i" using that o d(6) by (simp add: showing_def)
    ultimately show ?thesis using o re(1) by auto
  qed
qed

lemma turns_ok:
  "bsd_inv load s \<Longrightarrow> bUpdate s \<or> showing load (nBSDRe s) s \<Longrightarrow>
    \<exists>s'. BSD_Handle_Body ts s = Some s' \<and> bsd_inv load s' \<and> (bUpdate s' \<or> showing load (nBSDRe s') s')"
proof (induction ts arbitrary: s)
  case (Cons t ts)
  obtain s1 where "bsd_turn t s = Some s1" "bsd_inv load s1" "bUpdate s1 \<or> showing load (nBSDRe s1) s1"
    using turn_ok [OF Cons.prems, of "fst t" "snd t"] by auto
  then show ?case using Cons.IH [of s1] by auto
qed simp

lemma body_append: "BSD_Handle_Body (ts @ us) s = Option.bind (BSD_Handle_Body ts s) (BSD_Handle_Body us)"
  by (induction ts arbitrary: s) (auto split: Option.bind_splits)

lemma param_init_inv:
  assumes "\<forall>j i buf. length (load j i buf) = length buf" "length before = BSD_CHIND_NUM"
  shows "bsd_inv load (BSD_Image_Init load tmp (BSD_PARAM_Init before))"
proof -
  let ?s = "BSD_Image_Init load tmp (BSD_PARAM_Init before)"
  have keep: "pvir_bsd (fold (image_init_step load tmp) ps s) = pvir_bsd s \<and> shown (fold (image_init_step load tmp) ps s) = shown s \<and>
      symbol_on (fold (image_init_step load tmp) ps s) = symbol_on s \<and> nBSDRe (fold (image_init_step load tmp) ps s) = nBSDRe s" for ps s
    by (induction ps arbitrary: s) (auto simp: image_init_step_def Let_def)
  have "clean i (replicate (rect_size i) 0)" for i using place_of_less by (auto simp: clean_def)
  moreover have "bits_of 0 = replicate 5 False" by (simp add: bits_of_def eval_nat_numeral)
  moreover have sub: "pvir_sub_bsd ?s = [loaded load 0 4, loaded load 1 4, loaded load 2 4]" using image_init_values by blast
  have "length (pvir_sub_bsd ?s ! i) = sub_size i" if "i < BSD_CHIND_NUM" for i
    using that unfolding sub all3 by (elim disjE) (simp_all add: length_loaded [OF assms(1)])
  moreover have "length (pvir_sub_bsd ?s) = BSD_CHIND_NUM" unfolding sub by (simp add: BSD_CHIND_NUM_def)
  ultimately show ?thesis
    using image_init_stored [OF assms(1)] keep assms(2)
    by (simp add: bsd_inv_def BSD_Image_Init_def BSD_PARAM_Init_def)
qed

lemma init_ok:
  assumes "\<forall>j i buf. length (load j i buf) = length buf" "length before = BSD_CHIND_NUM" "\<forall>i<BSD_CHIND_NUM. set_ok i"
  shows "\<exists>s. BSD_Init load tmp True True set_ok before = Some (s, True) \<and> bsd_inv load s \<and> showing load (nBSDRe s) s"
proof -
  let ?s = "BSD_Image_Init load tmp (BSD_PARAM_Init before)"
  obtain s2 s3 where d: "BSD_Image_Update ?s = Some s2" "BSD_Rect_Update s2 = Some s3" "bsd_inv load s3" "nBSDRe s3 = nBSDRe ?s"
    "\<forall>i<BSD_CHIND_NUM. rendered (loaded load) (bits_of (nBSDRe ?s)) i (pvir_bsd s3 ! i)"
    using redraw_ok [OF param_init_inv [OF assms(1,2)]] by blast
  note o = osd_update_ok [OF d(3), of set_ok]
  have "BSD_Init load tmp True True set_ok before = Some (BSD_OSD_Update set_ok s3)" using d(1,2) by (simp add: BSD_Init_def Let_def)
  moreover have "snd (BSD_OSD_Update set_ok s3)" using o assms(3) by blast
  moreover have "showing load (nBSDRe s3) (fst (BSD_OSD_Update set_ok s3))" using o calculation(2) d(4,5) by (simp add: showing_def)
  ultimately show ?thesis using o by (intro exI [of _ "fst (BSD_OSD_Update set_ok s3)"]) (auto simp: prod_eq_iff)
qed

subsection \<open>Properties\<close>

text \<open>C38: after the initialisation and any rounds of the thread, with frames that do not come and overlays that are not accepted
  among them, no access has left a bitmap, and a round with a frame whose overlays are accepted leaves, in every channel, the
  outline of the watched area, below it the picture of each symbol that the detector's last result switches on, as it was read
  from its file, and nothing else.\<close>

theorem bsd_shows_last_result:
  assumes "\<forall>j i buf. length (load j i buf) = length buf" "length before = BSD_CHIND_NUM" "\<forall>i<BSD_CHIND_NUM. set_ok i"
  shows "\<exists>s s'. BSD_Init load tmp True True set_ok before = Some (s, True) \<and>
    BSD_Handle_Body (ts @ [(Some re, set_ok)]) s = Some s' \<and>
    (\<forall>i<BSD_CHIND_NUM. length (shown s' ! i) = rect_size i \<and>
      (\<forall>r c. inside i r c \<longrightarrow> shown s' ! i ! place_of i r c = render_pixel (loaded load) (bits_of re) i r c))"
proof -
  obtain s where s: "BSD_Init load tmp True True set_ok before = Some (s, True)" "bsd_inv load s" "showing load (nBSDRe s) s"
    using init_ok [OF assms] by blast
  obtain s1 where s1: "BSD_Handle_Body ts s = Some s1" "bsd_inv load s1" "bUpdate s1 \<or> showing load (nBSDRe s1) s1"
    using turns_ok [OF s(2)] s(3) by blast
  obtain s2 where "bsd_turn (Some re, set_ok) s1 = Some s2" "showing load re s2"
    using turn_ok [OF s1(2,3), of "Some re" set_ok] assms(3) by blast
  then show ?thesis using s(1) s1(1) by (auto simp: body_append showing_def rendered_def)
qed

theorem bsd_shows_last_result_witness:
  "\<exists>s s'. BSD_Init (\<lambda>_ _ b. b) (\<lambda>_. 0) True True (\<lambda>_. True) [[], [], []] = Some (s, True) \<and>
    BSD_Handle_Body [(None, \<lambda>_. False), (Some 5, \<lambda>_. True)] s = Some s' \<and> length (shown s' ! 1) = rect_size 1"
  using bsd_shows_last_result [of "\<lambda>_ _ b. b" "[[], [], []]" "\<lambda>_. True" "\<lambda>_. 0" "[(None, \<lambda>_. False)]" 5]
  by (auto simp: BSD_CHIND_NUM_def)

subsection \<open>The end of the program\<close>

text \<open>On a signal \<open>exit_handle\<close> stops the thread and releases everything; then the loop of \<open>main\<close> ends, and \<open>main\<close> does the same.
  \<open>join\<close>: whether \<open>pthread_join\<close> succeeds.\<close>

datatype exit_call = Join_Thread | Free_Zip nat | Font_Fini | Region_Destroy nat

definition BSD_Image_Fini :: "exit_call list" where "BSD_Image_Fini = map Free_Zip [0..<BSD_CHIND_NUM]"

definition BSD_OSD_Fini :: "exit_call list" where "BSD_OSD_Fini = map Region_Destroy ([0..<BSD_CHIND_NUM] @ [3..<6])"

definition BSD_Fini :: "bool \<Rightarrow> exit_call list" where
  "BSD_Fini font_ok = BSD_Image_Fini @ [Font_Fini] @ (if font_ok then BSD_OSD_Fini else [])"

definition exit_handle :: "bool \<Rightarrow> bool \<Rightarrow> exit_call list" where
  "exit_handle join font_ok = Join_Thread # (if join then BSD_Fini font_ok else [])"

definition main_exit :: "bool \<Rightarrow> exit_call list" where "main_exit font_ok = Join_Thread # BSD_Fini font_ok"

text \<open>So a signal frees the first three compressed pictures twice, and the twelve others never.\<close>

lemma signal_frees_twice:
  "count_list (exit_handle True f @ main_exit f') (Free_Zip 0) = 2 \<and> count_list (exit_handle True f @ main_exit f') (Free_Zip 3) = 0"
  by (simp add: exit_handle_def main_exit_def BSD_Fini_def BSD_Image_Fini_def BSD_OSD_Fini_def BSD_CHIND_NUM_def upt_rec eval_nat_numeral)

end
