(* ===== verification/Zoom.thy ===== *)
theory Zoom
  imports Daemon Detection
begin

section \<open>The zoom module (zoom/zoom.cpp)\<close>

text \<open>
  A stand-in for a zoom: its thread detects persons in each frame and sends their rectangles to the display.  A round is the list
  of what it does, given what the library calls return; a failing \<open>lock\<close> or \<open>P\<close> takes nothing and is not in the list.  The detector
  and its results are arguments.
\<close>

record gui_person =
  gp_class :: EAlgObjectClass
  gp_x1 :: rat
  gp_y1 :: rat
  gp_x2 :: rat
  gp_y2 :: rat
  gp_stick :: nat
  gp_fontscale :: nat
  gp_score :: nat
  gp_distance_x :: int
  gp_distance_y :: int

datatype zoom_event = Z_Lock | Z_P | Z_V | Z_Unlock | Z_Sleep nat | Z_Submit "gui_person list"

record zoom_round =
  r_lock :: sv_ret
  r_MS_P :: sv_ret
  r_forward :: int
  r_results :: "STAlgResult list"

definition gui_person_of :: "STAlgResult \<Rightarrow> gui_person" where
  "gui_person_of q = \<lparr>gp_class = classes q, gp_x1 = fX1 q, gp_y1 = fY1 q, gp_x2 = fX2 q, gp_y2 = fY2 q, gp_stick = 3,
     gp_fontscale = 1, gp_score = 0, gp_distance_x = 0, gp_distance_y = - 1\<rparr>"

text \<open>The loop over the results, with \<open>u32RectCnt\<close>.\<close>

fun person_rects :: "nat \<Rightarrow> STAlgResult list \<Rightarrow> gui_person list" where
  "person_rects u32RectCnt [] = []"
| "person_rects u32RectCnt (q # qs) =
     (if classes q \<noteq> E_CLS_PERSON then person_rects u32RectCnt qs
      else if 20 \<le> u32RectCnt then []
      else gui_person_of q # person_rects (Suc u32RectCnt) qs)"

definition zoom_step :: "zoom_round \<Rightarrow> zoom_event list" where
  "zoom_step r =
     (if r_lock r \<noteq> SV_SUCCESS then [Z_Sleep 1]
      else if r_MS_P r \<noteq> SV_SUCCESS then [Z_Lock, Z_Unlock, Z_Sleep 1]
      else if r_forward r \<noteq> 0 then [Z_Lock, Z_P, Z_V, Z_Unlock, Z_Sleep 10]
      else [Z_Lock, Z_P, Z_V, Z_Unlock, Z_Submit (person_rects 0 (r_results r))])"

text \<open>The thread: nothing when the buffer cannot be mapped, as with a descriptor that is not valid.\<close>

definition zoom_alg_Body :: "int \<Rightarrow> bool \<Rightarrow> zoom_round list \<Rightarrow> zoom_event list" where
  "zoom_alg_Body s32MediaBufFd mm rounds =
     (if s32MediaBufFd < 0 \<or> \<not> mm then [] else concat (map zoom_step rounds))"

text \<open>\<open>Zoom_Init\<close> does not check the descriptor.\<close>

definition Zoom_Init :: "int option \<Rightarrow> int \<Rightarrow> sv_ret \<Rightarrow> int \<Rightarrow> sv_ret \<times> int option" where
  "Zoom_Init as32MediaBufFd mutex_ret ms_ret alg_ret =
     (case as32MediaBufFd of None \<Rightarrow> (ERR_NULL_PTR, None)
      | Some fd \<Rightarrow> if mutex_ret \<noteq> 0 \<or> ms_ret \<noteq> SV_SUCCESS then (ERR_SYS_NOTREADY, None)
          else if alg_ret \<noteq> 0 then (SV_FAILURE, None) else (SV_SUCCESS, Some fd))"

definition Zoom_Start :: "int \<Rightarrow> int \<Rightarrow> sv_ret" where
  "Zoom_Start create_ret EAGAIN =
     (if create_ret \<noteq> 0 then if create_ret = EAGAIN then ERR_SYS_NOTREADY else SV_FAILURE else SV_SUCCESS)"

text \<open>\<open>Zoom_Stop\<close> leaves the thread running.\<close>

definition Zoom_Stop :: "bool \<Rightarrow> sv_ret \<times> bool" where "Zoom_Stop running = (SV_SUCCESS, running)"

subsection \<open>Properties\<close>

lemma person_rects_spec:
  "person_rects c qs = map gui_person_of (take (20 - c) (filter (\<lambda>q. classes q = E_CLS_PERSON) qs))"
  by (induction c qs rule: person_rects.induct) (auto simp: take_Cons' gui_person_of_def)

text \<open>The calculation lock and the semaphore of the frame are held in turn and never kept: the state is the pair of them.\<close>

fun holds :: "zoom_event \<Rightarrow> bool \<times> bool \<Rightarrow> (bool \<times> bool) option" where
  "holds Z_Lock (l, p) = (if \<not> l \<and> \<not> p then Some (True, p) else None)"
| "holds Z_P (l, p) = (if l \<and> \<not> p then Some (l, True) else None)"
| "holds Z_V (l, p) = (if l \<and> p then Some (l, False) else None)"
| "holds Z_Unlock (l, p) = (if l \<and> \<not> p then Some (False, p) else None)"
| "holds (Z_Sleep n) (l, p) = (if \<not> l \<and> \<not> p then Some (l, p) else None)"
| "holds (Z_Submit qs) (l, p) = (if \<not> l \<and> \<not> p then Some (l, p) else None)"

fun holds_all :: "zoom_event list \<Rightarrow> bool \<times> bool \<Rightarrow> (bool \<times> bool) option" where
  "holds_all [] s = Some s"
| "holds_all (e # es) s = Option.bind (holds e s) (holds_all es)"

lemma holds_append: "holds_all (xs @ ys) s = Option.bind (holds_all xs s) (holds_all ys)"
  by (induction xs arbitrary: s) (auto split: Option.bind_splits)

lemma step_holds: "holds_all (zoom_step r) (False, False) = Some (False, False)"
  by (simp add: zoom_step_def)

text \<open> in any rounds, failing ones included, the thread takes the lock before the semaphore and gives both back before it waits
  or sends; what it sends are the first twenty persons of the frame, in order.\<close>

theorem zoom_releases_all:
  "holds_all (zoom_alg_Body fd mm rounds) (False, False) = Some (False, False) \<and>
   (\<forall>qs. Z_Submit qs \<in> set (zoom_alg_Body fd mm rounds) \<longrightarrow>
      (\<exists>r \<in> set rounds. qs = map gui_person_of (take 20 (filter (\<lambda>q. classes q = E_CLS_PERSON) (r_results r)))))"
proof
  show "holds_all (zoom_alg_Body fd mm rounds) (False, False) = Some (False, False)"
    by (induction rounds) (auto simp: zoom_alg_Body_def holds_append step_holds split: if_splits)
  show "\<forall>qs. Z_Submit qs \<in> set (zoom_alg_Body fd mm rounds) \<longrightarrow>
      (\<exists>r \<in> set rounds. qs = map gui_person_of (take 20 (filter (\<lambda>q. classes q = E_CLS_PERSON) (r_results r))))"
    by (auto simp: zoom_alg_Body_def zoom_step_def person_rects_spec split: if_splits)
qed

text \<open>With the descriptor that \<open>main\<close> has, the initialisation and the start succeed and the thread does nothing.\<close>

lemma zoom_started_idle:
  "Zoom_Init (Some g_as32MediaBufFd) 0 SV_SUCCESS 0 = (SV_SUCCESS, Some g_as32MediaBufFd) \<and>
   zoom_alg_Body g_as32MediaBufFd mm rounds = []"
  by (simp add: Zoom_Init_def zoom_alg_Body_def g_as32MediaBufFd_def)

end
