(* ===== verification/Spec2Isabelle.thy ===== *)
theory Spec2Isabelle
  imports Frame_Pipeline Pd_Body Dmm_Users Dmm_Detect Apc Track Adas Upgrade Daemon Bsd Zoom
begin

text \<open>
  HD900: the detection daemon of a vehicle camera system, and two programs beside it.

  \<^bold>\<open>The program.\<close>  \<open>src/alg.cpp\<close> is the daemon: \<open>main\<close> initialises the platform libraries and the modules of the board, registers the
  callbacks for messages from the control process and starts the modules.  The modules are \<open>pd\<close> (pedestrians and
  vehicles around the car, \<open>src/pd/pd.cpp\<close>), \<open>dmm\<close> (the driver, \<open>src/dmm/dmm.cpp\<close>), \<open>apc\<close> (passengers), \<open>adas\<close> (the road ahead), \<open>track\<close>
  (a marked target) and \<open>zoom\<close>.  Each has threads of its own; they share a lock for the computing resource and a semaphore for
  each picture channel.  In \<open>pd\<close> three threads pass pictures through ring queues (\<open>src/include/itc.h\<close>) from the capture to the
  detector; the detector sends its boxes over a serial line to the display board, whose frames set the watched areas and the
  model; the alarm threads are woken by an event queue.  \<open>src/upgrade/upgrade.cpp\<close> receives an upgrade over the video link and
  installs it; \<open>src/bsd/bsd.cpp\<close> draws the symbols of a blind-spot detector over the video.

  \<^bold>\<open>How it is modelled.\<close>  A C++ structure is a \<open>record\<close>, an enumeration a \<open>datatype\<close>, a function a HOL function from the state it reads to
  the state it leaves, with its error codes as values (\<open>sv_ret\<close>), and an access out of bounds as \<open>None\<close> or a crashed
  state.  Integers are \<open>int\<close> with the conversion of their width written out, or words where the code works on bits.  A \<open>float\<close> is the
  rational it stands for, and each operation is rounded (theory Floats).  A thread is a step function or, where threads
  interleave, a step of an event system: a step is what a thread does between two accesses to shared data, a run any list of
  events.  Boards and customers, which the code chooses by the preprocessor, are arguments.

  \<^bold>\<open>Theories and code.\<close>
  \<^item> Prelude: integer conversions, return codes, boards, shared lemmas.  Floats: \<open>float\<close> and \<open>double\<close>.
  \<^item> Crc: \<open>crc16_Gen\<close> of pd.cpp.  \<open>Ring_Queue\<close>: \<open>TRWRingQueue\<close> of itc.h.
  \<^item> \<open>Frame_Pipeline\<close>: \<open>mpp_vpss_FrameSave\<close>, \<open>mpp_vpss_Vdec\<close> and the reader of the decoded pictures.
  \<^item> \<open>Area_Detect\<close>: \<open>get_line_info\<close>, \<open>Area_Info_init\<close>, \<open>area_detect\<close>.  Geometry and Roi: the intersection tests and \<open>pd_CheckRoiRect\<close>
    with its layouts.  Detection: \<open>STAlgResult\<close>.  Remap: \<open>coordinate_remap\<close> and the margins.  Helmet: \<open>pd_SafetyHelmet_Parse\<close> and
    \<open>pd_SpeedZoneIsClassParse\<close>.  \<open>Anti_Shake\<close>: \<open>pd_RectAntiShakeFilter\<close>.  \<open>Pd_Body\<close>: \<open>pd_alg_Body\<close>.
  \<^item> \<open>Sonix_Link\<close>: \<open>uart_receive\<close>, the handlers of the frames of the display board and the commands to it.  Alarm: relay, sounds, alarm
    threads and \<open>mpp_vpss_Monitor\<close>.
  \<^item> \<open>Gui_Zoom\<close>: \<open>pd_Gui_Zoom\<close> and its copies, \<open>pd_QRCodeCaliberation\<close>.
  \<^item> \<open>Dmm_Calibration\<close>: \<open>dmm_CalcAnglesAverage\<close> and the samples.  \<open>Dmm_Run\<close>: \<open>dmm_alg_Body\<close> with the bodies of the run modes, \<open>DMM_Init\<close>,
    \<open>DMM_Start\<close>, \<open>DMM_SetRunStatus\<close>.  \<open>Dmm_Users\<close>: the directory of users and the callbacks of alg.cpp for them.  \<open>Dmm_Detect\<close>:
    \<open>dmm_DetctionBody\<close> and \<open>DMM_ConfigSet\<close>.
  \<^item> Apc, Track, Adas, Zoom: apc.cpp, track.cpp, adas.cpp, zoom.cpp.
  \<^item> Daemon: \<open>main\<close>, \<open>callbackConfigUpdate\<close> and the requests for media buffers of alg.cpp.
  \<^item> Upgrade: upgrade.cpp.
  \<^item> Fastlz: \<open>src/bsd/common/common_zip.c\<close>.  Bsd: bsd.cpp and \<open>src/bsd/common/paint.c\<close>.

  \<^bold>\<open>What is shown.\<close>
  \<^item> Data: the checksum is the bitwise CRC and finds every change of two neighbouring bytes; the compression is
    lossless, through an inductive definition of the format that both compressors write and both decompressors read;
    each packet and frame reads back as what was meant.
  \<^item> Queues and pictures: the queue refines a channel that keeps the newest elements; under any interleaving pictures
    reach the detector whole and in order, and the first of a channel is an I-frame.
  \<^item> Detection: levels against the exact area, boxes inside of their part of the panel, the assignment of helmets,
    the debounced speed signs, the filter that does not move, scaling within the pictures.
  \<^item> Alarms: the relay always falls, the single accesses of its threads refine the operations, and which alarms are never
    repeated.
  \<^item> The driver monitor: an invariant of all reachable states, the diagram of mode changes, termination of the
    timed modes, the calibration, the spacing of alarms, and a refinement between its two models.
  \<^item> Start and update: which modules can run at all, that a change of the configuration reaches them; that an upgrade is
    installed byte for byte if the saver keeps up, once at most, and also when it broke off.
  \<^item> The blind-spot display: in every channel exactly the symbols of the last result and the outline, after any
    failures.
  Several properties prove that the code does not do what it means to; they are listed as findings.

  \<^bold>\<open>Interfaces.\<close>  The locale \<open>drop_fifo\<close> is what the pipeline and the upgrade rely on in a queue (interpreted on \<open>rq_Write\<close> and
  \<open>rq_Read\<close>), \<open>preempting_player\<close> what the three sound threads have in common (three interpretations), \<open>steady_filter\<close> the
  contract of the three anti-shake filters, and \<open>picture_store\<close> what the display relies on in the compression.

  \<^bold>\<open>Loops and bounds.\<close>  No fuel is used: a loop is recursion on a list, on a decreasing number or measure (the matcher of helmets, the
  lines of the painter, both loops of the compressor), so every model terminates; waiting is an event that may
  never come, and liveness is stated over the rounds that do.  The bounds are the code's: four channels, twelve slots, twenty
  boxes drawn, three media buffers, five symbols.

  \<^bold>\<open>Not modelled.\<close>  The detectors, trackers and face libraries, the Rockchip and HiSilicon video, decoder, graphics and overlay
  libraries, the message system, the configuration store and the operating system are not in the repository: what
  they answer is an argument.  Left out are drawing coordinates that nothing depends on, the start of threads, the upload of models,
  the dump files, the hardware levels of lights, the test programs, the vendored headers and the backup copies of pd.cpp.
\<close>

end
